(* ===== verification/Rasn_Prelude.thy ===== *)
theory Rasn_Prelude
  imports "HOL-Library.Word" "HOL-Library.Multiset"
begin

text \<open>
  Shared vocabulary of the development: the Rust types the codecs are written
  over, \<open>Result\<close> and its combinators, the big-endian reading of a list of
  octets with the facts every codec needs about it, and the ordered map
  (\<open>alloc::collections::BTreeMap\<close>) the set encoders buffer their fields in.
\<close>

unbundle bit_operations_syntax

section \<open>Rust types\<close>

type_synonym u8 = "8 word"
type_synonym u32 = "32 word"
type_synonym bytes = "u8 list"
type_synonym ('e, 'a) result = "'e + 'a"

abbreviation Ok :: "'a \<Rightarrow> ('e, 'a) result" where "Ok \<equiv> Inr"
abbreviation Err :: "'e \<Rightarrow> ('e, 'a) result" where "Err \<equiv> Inl"

text \<open>\<open>core::cmp::Ordering\<close>.\<close>

datatype ordering = Less | Equal | Greater

section \<open>Result combinators\<close>

text \<open>
  \<open>and_then\<close> is also the \<open>?\<close> operator: the rest of the function body is its
  second argument.
\<close>

fun and_then :: "('e, 'a) result \<Rightarrow> ('a \<Rightarrow> ('e, 'b) result) \<Rightarrow> ('e, 'b) result" where
  "and_then (Inr x) f = f x"
| "and_then (Inl e) f = Inl e"

fun map_ok :: "('a \<Rightarrow> 'b) \<Rightarrow> ('e, 'a) result \<Rightarrow> ('e, 'b) result" where
  "map_ok f (Inr x) = Inr (f x)"
| "map_ok f (Inl e) = Inl e"

fun map_err :: "('e \<Rightarrow> 'f) \<Rightarrow> ('e, 'a) result \<Rightarrow> ('f, 'a) result" where
  "map_err g (Inr x) = Inr x"
| "map_err g (Inl e) = Inl (g e)"

fun or_else :: "('e, 'a) result \<Rightarrow> ('e \<Rightarrow> ('f, 'a) result) \<Rightarrow> ('f, 'a) result" where
  "or_else (Inr x) f = Inr x"
| "or_else (Inl e) f = f e"

fun ok_or :: "'e \<Rightarrow> 'a option \<Rightarrow> ('e, 'a) result" where
  "ok_or e None = Inl e"
| "ok_or e (Some x) = Inr x"

fun ok :: "('e, 'a) result \<Rightarrow> 'a option" where
  "ok (Inr x) = Some x"
| "ok (Inl e) = None"

named_theorems result_iff \<open>when a combinator returns \<open>Ok\<close> or \<open>Err\<close>\<close>

lemma and_then_eq_Ok [result_iff]:
  "and_then r f = Inr y \<longleftrightarrow> (\<exists>x. r = Inr x \<and> f x = Inr y)"
  by (cases r) auto

lemma and_then_eq_Err [result_iff]:
  "and_then r f = Inl e \<longleftrightarrow> r = Inl e \<or> (\<exists>x. r = Inr x \<and> f x = Inl e)"
  by (cases r) auto

lemma map_ok_eq_Ok [result_iff]: "map_ok f r = Inr y \<longleftrightarrow> (\<exists>x. r = Inr x \<and> f x = y)"
  by (cases r) auto

lemma map_err_eq_Ok [result_iff]: "map_err g r = Inr y \<longleftrightarrow> r = Inr y"
  by (cases r) auto

lemma ok_or_eq_Ok [result_iff]: "ok_or e r = Inr y \<longleftrightarrow> r = Some y"
  by (cases r) auto

lemma ok_or_eq_Err [result_iff]: "ok_or e r = Inl e' \<longleftrightarrow> r = None \<and> e' = e"
  by (cases r) auto

lemma and_then_assoc: "and_then (and_then r f) g = and_then r (\<lambda>x. and_then (f x) g)"
  by (cases r) auto

lemma and_then_cong [fundef_cong]:
  "r = r' \<Longrightarrow> (\<And>x. r' = Inr x \<Longrightarrow> f x = f' x) \<Longrightarrow> and_then r f = and_then r' f'"
  by (cases r') auto

section \<open>Lists\<close>

lemma in_set_drop_nth: "x \<in> set (drop n xs) \<longleftrightarrow> (\<exists>i. n \<le> i \<and> i < length xs \<and> xs ! i = x)"
proof
  assume "x \<in> set (drop n xs)"
  then obtain j where "j < length (drop n xs)" "drop n xs ! j = x" by (auto simp: in_set_conv_nth)
  then show "\<exists>i. n \<le> i \<and> i < length xs \<and> xs ! i = x" by (intro exI [of _ "n + j"]) auto
next
  assume "\<exists>i. n \<le> i \<and> i < length xs \<and> xs ! i = x"
  then obtain i where "n \<le> i" "i < length xs" "xs ! i = x" by blast
  then have "i - n < length (drop n xs)" "drop n xs ! (i - n) = x" by auto
  then show "x \<in> set (drop n xs)" by (metis nth_mem)
qed

section \<open>Big-endian values\<close>

text \<open>
  \<open>be_val\<close> reads octets most significant first; \<open>be_bytes n v\<close> writes the low
  \<open>n\<close> octets of \<open>v\<close> (two's complement for negative \<open>v\<close>); \<open>be_sval\<close> is the two's
  complement reading.
\<close>

definition be_val :: "bytes \<Rightarrow> int" where
  "be_val bs = foldl (\<lambda>a b. a * 256 + uint b) 0 bs"

fun be_sval :: "bytes \<Rightarrow> int" where
  "be_sval [] = 0"
| "be_sval (b # bs) = sint b * 256 ^ length bs + be_val bs"

fun be_bytes :: "nat \<Rightarrow> int \<Rightarrow> bytes" where
  "be_bytes 0 v = []"
| "be_bytes (Suc n) v = be_bytes n (v div 256) @ [word_of_int v]"

lemma be_val_Nil [simp]: "be_val [] = 0"
  by (simp add: be_val_def)

lemma be_val_snoc [simp]: "be_val (bs @ [b]) = be_val bs * 256 + uint b"
  by (simp add: be_val_def)

lemma be_val_append: "be_val (xs @ ys) = be_val xs * 256 ^ length ys + be_val ys"
proof (induction ys rule: rev_induct)
  case (snoc y ys)
  then show ?case by (simp add: append_assoc [symmetric] algebra_simps del: append_assoc)
qed simp

lemma be_val_Cons: "be_val (b # bs) = uint b * 256 ^ length bs + be_val bs"
proof -
  have "be_val [b] = uint b" by (simp add: be_val_def)
  then show ?thesis using be_val_append [of "[b]" bs] by simp
qed

lemma uint_byte_bounds: "0 \<le> uint (b :: u8)" "uint (b :: u8) < 256"
  using uint_bounded [of b] by simp_all

lemma be_val_nonneg [simp]: "0 \<le> be_val bs"
  by (induction bs rule: rev_induct) simp_all

lemma be_val_less: "be_val bs < 256 ^ length bs"
proof (induction bs rule: rev_induct)
  case (snoc b bs)
  then have "be_val bs * 256 + 256 \<le> 256 ^ length bs * 256" by simp
  then show ?case using uint_byte_bounds(2) [of b] by simp
qed simp

lemma length_be_bytes [simp]: "length (be_bytes n v) = n"
  by (induction n arbitrary: v) simp_all

lemma be_val_be_bytes: "be_val (be_bytes n v) = v mod 256 ^ n"
proof (induction n arbitrary: v)
  case (Suc n)
  have "v mod 256 ^ Suc n = (v div 256) mod 256 ^ n * 256 + v mod 256"
    using mod_mult2_eq' [of v 256 "256 ^ n"] by (simp add: mult.commute zmod_zmult2_eq)
  then show ?case using Suc by (simp add: uint_word_of_int)
qed simp

lemma be_bytes_be_val [simp]: "be_bytes (length bs) (be_val bs) = bs"
proof (induction bs rule: rev_induct)
  case (snoc b bs)
  have "(be_val bs * 256 + uint b) div 256 = be_val bs"
    using uint_byte_bounds [of b] by simp
  moreover have "(word_of_int (be_val bs * 256 + uint b) :: u8) = b"
  proof -
    have z: "(256 :: u8) = 0" by simp
    show ?thesis by (simp add: z)
  qed
  ultimately show ?case using snoc by simp
qed simp

lemma be_val_inj: "length xs = length ys \<Longrightarrow> be_val xs = be_val ys \<Longrightarrow> xs = ys"
  by (metis be_bytes_be_val)

lemma be_val_zero_iff: "be_val bs = 0 \<longleftrightarrow> set bs \<subseteq> {0}"
proof (induction bs rule: rev_induct)
  case (snoc b bs)
  have "be_val bs * 256 + uint b = 0 \<longleftrightarrow> be_val bs = 0 \<and> uint b = 0"
    using be_val_nonneg [of bs] uint_byte_bounds(1) [of b] by linarith
  then show ?case using snoc by (auto simp: uint_0_iff)
qed simp

text \<open>The two's complement reading agrees with the unsigned one modulo the width and
  is the only value of the signed range that does.\<close>

definition fits_signed :: "nat \<Rightarrow> int \<Rightarrow> bool" where
  "fits_signed n v = (- (2 ^ (8 * n - 1)) \<le> v \<and> v < 2 ^ (8 * n - 1))"

lemma pow256: "(256 :: int) ^ n = 2 ^ (8 * n)"
  by (simp add: power_mult)

lemma half_pow: "0 < n \<Longrightarrow> (2 :: int) ^ (8 * n - 1) * 2 = 256 ^ n"
proof -
  assume "0 < n"
  then have "8 * n = Suc (8 * n - 1)" by simp
  then show ?thesis by (metis pow256 power_Suc mult.commute)
qed

lemma be_sval_mod: "be_sval bs mod 256 ^ length bs = be_val bs"
proof (cases bs)
  case (Cons b cs)
  have "sint b mod 256 = uint b mod 256"
    using uint_sint [of b] by (simp add: take_bit_eq_mod)
  then obtain k where k: "sint b - uint b = 256 * k"
    by (metis dvdE mod_eq_dvd_iff)
  have "be_sval bs = be_val bs + (sint b - uint b) * 256 ^ length cs"
    using Cons by (simp add: be_val_Cons algebra_simps)
  also have "\<dots> = be_val bs + 256 ^ length bs * k"
    using Cons k by simp
  finally show ?thesis using be_val_less [of bs] by simp
qed simp

lemma be_sval_fits: "bs \<noteq> [] \<Longrightarrow> fits_signed (length bs) (be_sval bs)"
proof (cases bs)
  case (Cons b cs)
  let ?p = "256 ^ length cs :: int"
  have s: "- 128 \<le> sint b" "sint b \<le> 127"
    using sint_range_size [of b] by (simp_all add: word_size)
  have "- 128 * ?p \<le> sint b * ?p" "sint b * ?p \<le> 127 * ?p"
    using s mult_right_mono [of "- 128" "sint b" ?p] mult_right_mono [of "sint b" 127 ?p] by auto
  moreover have "(2 :: int) ^ (8 * length bs - 1) = 128 * ?p"
    using Cons by (simp add: pow256 power_add)
  moreover have "be_sval bs = sint b * ?p + be_val cs" using Cons by simp
  ultimately show ?thesis
    using be_val_nonneg [of cs] be_val_less [of cs] unfolding fits_signed_def by linarith
qed simp

lemma fits_signed_unique:
  assumes "0 < n" "fits_signed n v" "fits_signed n w" "v mod 256 ^ n = w mod 256 ^ n"
  shows "v = w"
proof -
  have "(256 :: int) ^ n dvd v - w" using assms(4) by (simp add: mod_eq_dvd_iff)
  moreover have "\<bar>v - w\<bar> < 256 ^ n"
    using assms(2,3) half_pow [OF assms(1)] by (auto simp: fits_signed_def)
  ultimately show ?thesis using dvd_imp_le_int [of "v - w" "256 ^ n"] by force
qed

lemma be_sval_be_bytes:
  assumes "0 < n" "fits_signed n v"
  shows "be_sval (be_bytes n v) = v"
proof (rule fits_signed_unique [OF assms(1) _ assms(2)])
  have "be_bytes n v \<noteq> []" using assms(1) by (metis length_be_bytes less_irrefl list.size(3))
  then show "fits_signed n (be_sval (be_bytes n v))"
    using be_sval_fits by fastforce
  show "be_sval (be_bytes n v) mod 256 ^ n = v mod 256 ^ n"
    using be_sval_mod [of "be_bytes n v"] by (simp add: be_val_be_bytes)
qed

lemma be_bytes_be_sval: "be_bytes (length bs) (be_sval bs) = bs"
  by (rule be_val_inj) (simp_all add: be_val_be_bytes be_sval_mod)

lemma be_sval_inj: "length xs = length ys \<Longrightarrow> be_sval xs = be_sval ys \<Longrightarrow> xs = ys"
  by (metis be_bytes_be_sval)

lemma nth_be_bytes: "i < n \<Longrightarrow> be_bytes n v ! i = word_of_int (drop_bit (8 * (n - 1 - i)) v)"
proof (induction n arbitrary: v)
  case (Suc n)
  show ?case
  proof (cases "i = n")
    case False
    then have "8 * (n - 1 - i) + 8 = 8 * (n - i)" using Suc.prems by simp
    then have "drop_bit (8 * (n - 1 - i)) (v div 256) = drop_bit (8 * (n - i)) v"
      using drop_bit_drop_bit [of "8 * (n - 1 - i)" 8 v] by (simp add: drop_bit_eq_div)
    then show ?thesis using Suc False by (simp add: nth_append)
  qed (simp add: nth_append)
qed simp

lemma be_val_eq_sval: "0 \<le> be_sval bs \<Longrightarrow> be_val bs = be_sval bs"
proof (cases "bs = []")
  case False
  assume "0 \<le> be_sval bs"
  moreover have "(2 :: int) ^ (8 * length bs - 1) \<le> 256 ^ length bs"
    unfolding pow256 by (intro power_increasing) simp_all
  then have "be_sval bs < 256 ^ length bs"
    using be_sval_fits [OF False] by (simp add: fits_signed_def)
  ultimately show ?thesis using be_sval_mod [of bs] by simp
qed simp

section \<open>Ordered map\<close>

text \<open>
  \<open>BTreeMap<K, V>\<close> as the list of its entries in key order: \<open>insert\<close> replaces
  the value of an equal key, iteration runs over the list.
\<close>

fun bt_insert :: "'k::linorder \<Rightarrow> 'v \<Rightarrow> ('k \<times> 'v) list \<Rightarrow> ('k \<times> 'v) list" where
  "bt_insert k v [] = [(k, v)]"
| "bt_insert k v ((k', v') # m) =
    (if k < k' then (k, v) # (k', v') # m
     else if k = k' then (k, v) # m
     else (k', v') # bt_insert k v m)"

definition bt_sorted :: "('k::linorder \<times> 'v) list \<Rightarrow> bool" where
  "bt_sorted m = sorted_wrt (<) (map fst m)"

lemma bt_insert_keys: "fst ` set (bt_insert k v m) = insert k (fst ` set m)"
  by (induction k v m rule: bt_insert.induct) auto

lemma bt_sorted_Cons: "bt_sorted (e # m) \<longleftrightarrow> bt_sorted m \<and> (\<forall>k \<in> fst ` set m. fst e < k)"
  by (auto simp: bt_sorted_def)

lemma bt_sorted_insert: "bt_sorted m \<Longrightarrow> bt_sorted (bt_insert k v m)"
  by (induction k v m rule: bt_insert.induct)
    (auto simp: bt_sorted_Cons bt_insert_keys bt_sorted_def)

lemma map_of_bt_insert: "bt_sorted m \<Longrightarrow> map_of (bt_insert k v m) = (map_of m)(k \<mapsto> v)"
  by (induction k v m rule: bt_insert.induct) (auto simp: bt_sorted_Cons fun_upd_twist)

lemma bt_sorted_ext:
  assumes "bt_sorted m" "bt_sorted m'" "map_of m = map_of m'"
  shows "m = m'"
proof -
  have d: "distinct (map fst m)" "distinct (map fst m')"
    using assms by (auto simp: bt_sorted_def strict_sorted_iff)
  have "set m = set m'" using d assms(3) by (metis set_map_of_compr)
  moreover have "map fst m = map fst m'"
    using assms(1,2) calculation
    by (metis bt_sorted_def set_map strict_sorted_equal)
  ultimately show ?thesis
    using d by (metis distinct_map map_inj_on sup.idem)
qed

locale ordered_map =
  fixes empty :: 'm
    and ins :: "'k \<Rightarrow> 'v \<Rightarrow> 'm \<Rightarrow> 'm"
    and lookup :: "'m \<Rightarrow> 'k \<Rightarrow> 'v option"
    and inv :: "'m \<Rightarrow> bool"
  assumes inv_empty: "inv empty"
    and inv_ins: "inv m \<Longrightarrow> inv (ins k v m)"
    and lookup_empty: "lookup empty k = None"
    and lookup_ins: "inv m \<Longrightarrow> lookup (ins k v m) = (lookup m)(k := Some v)"
    and ext_inv: "inv m \<Longrightarrow> inv m' \<Longrightarrow> lookup m = lookup m' \<Longrightarrow> m = m'"
begin

definition insert_all :: "('k \<times> 'v) list \<Rightarrow> 'm" where
  "insert_all kvs = fold (\<lambda>(k, v). ins k v) kvs empty"

lemma insert_all_snoc: "insert_all (kvs @ [(k, v)]) = ins k v (insert_all kvs)"
  by (simp add: insert_all_def)

lemma inv_insert_all: "inv (insert_all kvs)"
proof (induction kvs rule: rev_induct)
  case (snoc e kvs)
  then show ?case by (cases e) (simp add: insert_all_snoc inv_ins)
qed (simp add: insert_all_def inv_empty)

lemma lookup_insert_all: "lookup (insert_all kvs) = map_of (rev kvs)"
proof (induction kvs rule: rev_induct)
  case (snoc e kvs)
  then show ?case by (cases e) (simp add: insert_all_snoc lookup_ins inv_insert_all)
qed (auto simp: insert_all_def lookup_empty)

lemma insert_all_perm:
  assumes "mset kvs = mset kvs'" "distinct (map fst kvs)"
  shows "insert_all kvs = insert_all kvs'"
proof (rule ext_inv)
  have "distinct (map fst kvs')"
    using assms by (metis distinct_map mset_eq_setD mset_eq_imp_distinct_iff)
  then have "map_of (rev kvs) = map_of (rev kvs')"
    using assms by (intro map_of_eqI) (auto simp: rev_map [symmetric] dest: mset_eq_setD)
  then show "lookup (insert_all kvs) = lookup (insert_all kvs')"
    by (simp add: lookup_insert_all)
qed (rule inv_insert_all)+

end

interpretation bt: ordered_map "[]" bt_insert map_of bt_sorted
  by unfold_locales
    (auto simp: bt_sorted_insert map_of_bt_insert bt_sorted_ext, simp add: bt_sorted_def)

end
