(* ===== verification/Tags.thy ===== *)
theory Tags
  imports Rasn_Prelude
begin

text \<open>
  \<open>types/tag.rs\<close> and \<open>types/variants.rs\<close>: tag classes, tags, their canonical
  order, and the trees of tags a CHOICE is described by.  The tree routines
  (\<open>is_unique_set\<close>, \<open>tag_contains\<close>, \<open>tree_contains\<close>) run at compile time on the
  derive macros' output; they are shown to decide distinctness and membership of
  the leaves.
\<close>

section \<open>Classes and tags\<close>

datatype asn_class = Universal | Application | Context | Private

text \<open>The discriminants of the enum, \<open>class as u8\<close>.\<close>

fun class_as_u8 :: "asn_class \<Rightarrow> u8" where
  "class_as_u8 Universal = 0"
| "class_as_u8 Application = 1"
| "class_as_u8 Context = 2"
| "class_as_u8 Private = 3"

text \<open>\<open>Class::from_u8\<close>; the panic on other numbers is \<open>None\<close>.\<close>

definition class_from_u8 :: "u8 \<Rightarrow> asn_class option" where
  "class_from_u8 value =
    (if value = 0 then Some Universal
     else if value = 1 then Some Application
     else if value = 2 then Some Context
     else if value = 3 then Some Private
     else None)"

definition is_universal :: "asn_class \<Rightarrow> bool" where
  "is_universal c = (c = Universal)"

datatype tag = Tag (tag_class: asn_class) (tag_value: u32)

definition new_application :: "u32 \<Rightarrow> tag" where "new_application value = Tag Application value"
definition new_context :: "u32 \<Rightarrow> tag" where "new_context value = Tag Context value"
definition new_private :: "u32 \<Rightarrow> tag" where "new_private value = Tag Private value"

fun set_value :: "tag \<Rightarrow> u32 \<Rightarrow> tag" where
  "set_value (Tag c _) value = Tag c value"

text \<open>The universal tags the codecs name.\<close>

definition EOC :: tag where "EOC = Tag Universal 0"
definition BOOL :: tag where "BOOL = Tag Universal 1"
definition INTEGER :: tag where "INTEGER = Tag Universal 2"
definition BIT_STRING :: tag where "BIT_STRING = Tag Universal 3"
definition OCTET_STRING :: tag where "OCTET_STRING = Tag Universal 4"
definition NULL :: tag where "NULL = Tag Universal 5"
definition OBJECT_IDENTIFIER :: tag where "OBJECT_IDENTIFIER = Tag Universal 6"
definition REAL :: tag where "REAL = Tag Universal 9"
definition ENUMERATED :: tag where "ENUMERATED = Tag Universal 10"
definition UTF8_STRING :: tag where "UTF8_STRING = Tag Universal 12"
definition SEQUENCE :: tag where "SEQUENCE = Tag Universal 16"
definition SET :: tag where "SET = Tag Universal 17"
definition NUMERIC_STRING :: tag where "NUMERIC_STRING = Tag Universal 18"
definition PRINTABLE_STRING :: tag where "PRINTABLE_STRING = Tag Universal 19"
definition TELETEX_STRING :: tag where "TELETEX_STRING = Tag Universal 20"
definition IA5_STRING :: tag where "IA5_STRING = Tag Universal 22"
definition VISIBLE_STRING :: tag where "VISIBLE_STRING = Tag Universal 26"
definition GRAPHIC_STRING :: tag where "GRAPHIC_STRING = Tag Universal 25"
definition GENERAL_STRING :: tag where "GENERAL_STRING = Tag Universal 27"
definition BMP_STRING :: tag where "BMP_STRING = Tag Universal 30"
definition CHOICE :: tag where "CHOICE = EOC"

text \<open>The derived \<open>Ord\<close> of \<open>Class\<close> is the order of the variants, that of \<open>Tag\<close> is
  lexicographic on class and value.\<close>

instantiation asn_class :: linorder
begin

definition less_eq_asn_class :: "asn_class \<Rightarrow> asn_class \<Rightarrow> bool" where
  "less_eq_asn_class a b = (class_as_u8 a \<le> class_as_u8 b)"

definition less_asn_class :: "asn_class \<Rightarrow> asn_class \<Rightarrow> bool" where
  "less_asn_class a b = (class_as_u8 a < class_as_u8 b)"

lemma class_as_u8_inj: "class_as_u8 a = class_as_u8 b \<Longrightarrow> a = b"
  by (cases a; cases b) simp_all

instance
  by standard (auto simp: less_eq_asn_class_def less_asn_class_def intro: class_as_u8_inj)

end

instantiation tag :: linorder
begin

definition less_eq_tag :: "tag \<Rightarrow> tag \<Rightarrow> bool" where
  "less_eq_tag a b =
    (tag_class a < tag_class b \<or> tag_class a = tag_class b \<and> tag_value a \<le> tag_value b)"

definition less_tag :: "tag \<Rightarrow> tag \<Rightarrow> bool" where
  "less_tag a b =
    (tag_class a < tag_class b \<or> tag_class a = tag_class b \<and> tag_value a < tag_value b)"

instance
  by standard (auto simp: less_eq_tag_def less_tag_def intro: tag.expand)

end

definition const_cmp :: "tag \<Rightarrow> tag \<Rightarrow> ordering" where
  "const_cmp self other =
    (if class_as_u8 (tag_class self) < class_as_u8 (tag_class other) then Less
     else if class_as_u8 (tag_class self) > class_as_u8 (tag_class other) then Greater
     else if tag_value self < tag_value other then Less
     else if tag_value self > tag_value other then Greater
     else Equal)"

definition const_eq :: "tag \<Rightarrow> tag \<Rightarrow> bool" where
  "const_eq self rhs =
    (class_as_u8 (tag_class self) = class_as_u8 (tag_class rhs) \<and> tag_value self = tag_value rhs)"

definition const_less_than :: "tag \<Rightarrow> tag \<Rightarrow> bool" where
  "const_less_than self rhs =
    (class_as_u8 (tag_class self) < class_as_u8 (tag_class rhs) \<and> tag_value self < tag_value rhs)"

definition is_choice :: "tag \<Rightarrow> bool" where
  "is_choice self = const_eq self CHOICE"

section \<open>Tag trees\<close>

datatype tag_tree = Leaf tag | Choice "tag_tree list"

definition empty_tree :: tag_tree where "empty_tree = Choice []"

text \<open>The running minimum of the \<open>while\<close> loop starts at \<open>PRIVATE u32::MAX\<close>.\<close>

fun smallest_tag :: "tag_tree \<Rightarrow> tag" where
  "smallest_tag (Leaf t) = t"
| "smallest_tag (Choice tree) =
    fold (\<lambda>next_tag tag. if const_less_than next_tag tag then next_tag else tag)
      (map smallest_tag tree) (new_private (- 1))"

fun tag_contains :: "tag \<Rightarrow> tag_tree list \<Rightarrow> bool" where
  "tag_contains needle [] = False"
| "tag_contains needle (Choice nodes # rest) =
    (if tag_contains needle nodes then True else tag_contains needle rest)"
| "tag_contains needle (Leaf tag # rest) =
    (if const_eq tag needle then True else tag_contains needle rest)"

fun tree_contains :: "tag_tree \<Rightarrow> tag_tree list \<Rightarrow> bool" where
  "tree_contains (Choice inner_tags) nodes = (\<exists>t \<in> set inner_tags. tree_contains t nodes)"
| "tree_contains (Leaf tag) nodes = tag_contains tag nodes"

fun is_unique_set :: "tag_tree list \<Rightarrow> bool" where
  "is_unique_set [] = True"
| "is_unique_set (Choice inner_tags # rest) =
    (if \<not> is_unique_set inner_tags then False
     else if \<exists>t \<in> set inner_tags. tree_contains t rest then False
     else is_unique_set rest)"
| "is_unique_set (Leaf tag # rest) =
    (if rest = [] then True
     else if tag_contains tag rest then False
     else is_unique_set rest)"

fun is_unique :: "tag_tree \<Rightarrow> bool" where
  "is_unique (Choice tree) = is_unique_set tree"
| "is_unique (Leaf _) = True"

text \<open>\<open>Variants::flatten_tree\<close>, the leaves from left to right.\<close>

fun flatten_tree :: "tag_tree \<Rightarrow> tag list" where
  "flatten_tree (Leaf tag) = [tag]"
| "flatten_tree (Choice tree) = concat (map flatten_tree tree)"

definition variants_from_slice :: "tag_tree list \<Rightarrow> tag list" where
  "variants_from_slice fields = concat (map flatten_tree fields)"

section \<open>Lemmas\<close>

lemma class_from_as_u8 [simp]: "class_from_u8 (class_as_u8 c) = Some c"
  by (cases c) (simp_all add: class_from_u8_def)

lemma class_from_u8_Some: "class_from_u8 v = Some c \<Longrightarrow> class_as_u8 c = v"
  by (auto simp: class_from_u8_def split: if_splits)

lemma const_eq_iff [simp]: "const_eq a b \<longleftrightarrow> a = b"
  by (cases a; cases b) (auto simp: const_eq_def intro: class_as_u8_inj)

lemma tag_contains_iff: "tag_contains t nodes \<longleftrightarrow> t \<in> set (variants_from_slice nodes)"
  by (induction t nodes rule: tag_contains.induct) (auto simp: variants_from_slice_def)

lemma tree_contains_iff:
  "tree_contains needle nodes \<longleftrightarrow>
    set (flatten_tree needle) \<inter> set (variants_from_slice nodes) \<noteq> {}"
  by (induction needle nodes rule: tree_contains.induct) (auto simp: tag_contains_iff)

lemma const_cmp_eq: "const_cmp a b = (if a < b then Less else if b < a then Greater else Equal)"
  by (rule linorder_cases [of "class_as_u8 (tag_class a)" "class_as_u8 (tag_class b)"])
    (auto simp: const_cmp_def less_tag_def less_asn_class_def dest: class_as_u8_inj)

lemma const_cmp_iff [simp]:
  "const_cmp a b = Less \<longleftrightarrow> a < b"
  "const_cmp a b = Greater \<longleftrightarrow> b < a"
  "const_cmp a b = Equal \<longleftrightarrow> a = b"
  by (auto simp: const_cmp_eq)

section \<open>Properties\<close>

text \<open>C38: \<open>TagTree::is_unique_set\<close>, the compile-time check of CHOICE and SET, accepts a list of
  tag trees exactly if no tag occurs twice among all leaves, nested choices included.\<close>

theorem is_unique_set_iff_distinct:
  "is_unique_set nodes \<longleftrightarrow> distinct (variants_from_slice nodes)"
  by (induction nodes rule: is_unique_set.induct)
    (auto simp: variants_from_slice_def tag_contains_iff tree_contains_iff)

text \<open>The running minimum of \<open>smallest_tag\<close>.\<close>

lemma fold_partial_minimum:
  defines "step \<equiv> \<lambda>next_tag tag. if const_less_than next_tag tag then next_tag else tag"
  shows "(fold step ts a = a \<or> fold step ts a \<in> set ts \<and> const_less_than (fold step ts a) a) \<and>
    (\<forall>t \<in> set ts. \<not> const_less_than t (fold step ts a))"
proof (induction ts arbitrary: a)
  case (Cons t ts)
  show ?case using Cons.IH [of t] Cons.IH [of a] by (auto simp: step_def const_less_than_def)
qed simp

lemma const_less_sentinel: "const_less_than t (new_private (- 1)) \<longleftrightarrow> tag_class t \<noteq> Private \<and> tag_value t \<noteq> - 1"
proof -
  have "class_as_u8 c < 3 \<longleftrightarrow> c \<noteq> Private" for c by (cases c) simp_all
  moreover have "n < - 1 \<longleftrightarrow> n \<noteq> - 1" for n :: u32 by (metis word_order.extremum word_order.not_eq_extremum)
  ultimately show ?thesis by (simp add: const_less_than_def new_private_def)
qed

text \<open>C39: \<open>TagTree::smallest_tag\<close> of a CHOICE is not the smallest tag of its alternatives.  No alternative is
  below it in both class and number, which is all that \<open>const_less_than\<close> compares; it is the tag of an
  alternative exactly when one is outside the class PRIVATE (and has a number below \<open>u32::MAX\<close>), and
  then never a PRIVATE one; otherwise it is the start value \<open>PRIVATE u32::MAX\<close>, whatever the tags.\<close>

theorem smallest_tag_partial_minimum:
  "(if \<exists>t \<in> smallest_tag ` set nodes. tag_class t \<noteq> Private \<and> tag_value t \<noteq> - 1
    then smallest_tag (Choice nodes) \<in> smallest_tag ` set nodes \<and> tag_class (smallest_tag (Choice nodes)) \<noteq> Private
    else smallest_tag (Choice nodes) = new_private (- 1)) \<and>
   (\<forall>t \<in> smallest_tag ` set nodes.
      tag_class (smallest_tag (Choice nodes)) \<le> tag_class t \<or> tag_value (smallest_tag (Choice nodes)) \<le> tag_value t)"
proof -
  define s where "s = smallest_tag (Choice nodes)"
  note m = fold_partial_minimum [of "map smallest_tag nodes" "new_private (- 1)", folded smallest_tag.simps(2), folded s_def]
  have less: "const_less_than t s \<longleftrightarrow> \<not> (tag_class s \<le> tag_class t \<or> tag_value s \<le> tag_value t)" for t
    by (auto simp: const_less_than_def not_le less_asn_class_def)
  have "\<forall>t \<in> smallest_tag ` set nodes. \<not> const_less_than t s" using m by auto
  moreover have "s = new_private (- 1) \<or> s \<in> smallest_tag ` set nodes \<and> const_less_than s (new_private (- 1))" using m by auto
  ultimately show ?thesis unfolding s_def [symmetric]
    using const_less_sentinel less by (metis (no_types, opaque_lifting))
qed

text \<open>The smallest tag of the canonical order is \<open>Universal 9\<close>, the one found \<open>Context 5\<close>.\<close>

theorem smallest_tag_partial_minimum_witness:
  "smallest_tag (Choice [Leaf (Tag Context 5), Leaf (Tag Universal 9), Leaf (Tag Private 0)])
      \<in> {Tag Context 5, Tag Universal 9, Tag Private 0} \<and>
    tag_class (smallest_tag (Choice [Leaf (Tag Context 5), Leaf (Tag Universal 9), Leaf (Tag Private 0)])) \<noteq> Private"
  using smallest_tag_partial_minimum [of "[Leaf (Tag Context 5), Leaf (Tag Universal 9), Leaf (Tag Private 0)]"]
  by simp

lemma smallest_tag_not_smallest:
  "smallest_tag (Choice [Leaf (Tag Context 5), Leaf (Tag Universal 9)]) = Tag Context 5"
  "const_cmp (Tag Universal 9) (Tag Context 5) = Less"
  "smallest_tag (Choice [Leaf (Tag Private 5)]) = new_private (- 1)"
  by (simp_all add: const_less_than_def less_tag_def less_asn_class_def new_private_def)

end
