(* ===== verification/Rust_Ints.thy ===== *)
theory Rust_Ints
  imports Rasn_Prelude
begin

text \<open>
  The primitive integer types of Rust on a 64-bit target, as far as rasn uses
  them.  A value of type \<open>t\<close> is the \<open>int\<close> it denotes; \<open>in_type t\<close> is its range,
  \<open>cast t\<close> is an \<open>as\<close> cast (the low bits, sign extended for signed types), and the
  wrapping, checked and saturating operations are built from them.  Shifts that
  Rust performs on the machine word are a cast after the unbounded shift.
\<close>

datatype int_type = U8 | I8 | U16 | I16 | U32 | I32 | U64 | I64 | U128 | I128 | Usize | Isize

fun BITS :: "int_type \<Rightarrow> nat" where
  "BITS U8 = 8" | "BITS I8 = 8"
| "BITS U16 = 16" | "BITS I16 = 16"
| "BITS U32 = 32" | "BITS I32 = 32"
| "BITS U64 = 64" | "BITS I64 = 64"
| "BITS U128 = 128" | "BITS I128 = 128"
| "BITS Usize = 64" | "BITS Isize = 64"

fun signed_type :: "int_type \<Rightarrow> bool" where
  "signed_type I8 = True" | "signed_type I16 = True" | "signed_type I32 = True"
| "signed_type I64 = True" | "signed_type I128 = True" | "signed_type Isize = True"
| "signed_type _ = False"

definition type_min :: "int_type \<Rightarrow> int" where
  "type_min t = (if signed_type t then - (2 ^ (BITS t - 1)) else 0)"

definition type_max :: "int_type \<Rightarrow> int" where
  "type_max t = (if signed_type t then 2 ^ (BITS t - 1) - 1 else 2 ^ BITS t - 1)"

definition in_type :: "int_type \<Rightarrow> int \<Rightarrow> bool" where
  "in_type t v = (type_min t \<le> v \<and> v \<le> type_max t)"

definition cast :: "int_type \<Rightarrow> int \<Rightarrow> int" where
  "cast t v = (if signed_type t then signed_take_bit (BITS t - 1) v else take_bit (BITS t) v)"

text \<open>\<open>TryFrom\<close> between integers, and \<open>to_isize\<close>, \<open>to_i128\<close>, ...: the value, if it fits.\<close>

definition try_into :: "int_type \<Rightarrow> int \<Rightarrow> int option" where
  "try_into t v = (if in_type t v then Some v else None)"

definition wrapping_add :: "int_type \<Rightarrow> int \<Rightarrow> int \<Rightarrow> int" where
  "wrapping_add t a b = cast t (a + b)"

definition wrapping_sub :: "int_type \<Rightarrow> int \<Rightarrow> int \<Rightarrow> int" where
  "wrapping_sub t a b = cast t (a - b)"

definition checked_add :: "int_type \<Rightarrow> int \<Rightarrow> int \<Rightarrow> int option" where
  "checked_add t a b = try_into t (a + b)"

definition checked_sub :: "int_type \<Rightarrow> int \<Rightarrow> int \<Rightarrow> int option" where
  "checked_sub t a b = try_into t (a - b)"

definition saturating_add :: "int_type \<Rightarrow> int \<Rightarrow> int \<Rightarrow> int" where
  "saturating_add t a b = max (type_min t) (min (type_max t) (a + b))"

definition shl :: "int_type \<Rightarrow> int \<Rightarrow> nat \<Rightarrow> int" where
  "shl t a n = cast t (push_bit n a)"

definition shr :: "int_type \<Rightarrow> int \<Rightarrow> nat \<Rightarrow> int" where
  "shr t a n = drop_bit n a"

text \<open>\<open>leading_zeros\<close> and \<open>leading_ones\<close> count from the most significant of the
  \<open>BITS\<close> bits; \<open>unsigned_abs\<close> is exact in the unsigned type.\<close>

definition bits_msb_first :: "int_type \<Rightarrow> int \<Rightarrow> bool list" where
  "bits_msb_first t v = map (bit v) (rev [0..<BITS t])"

definition leading_zeros :: "int_type \<Rightarrow> int \<Rightarrow> nat" where
  "leading_zeros t v = length (takeWhile Not (bits_msb_first t v))"

definition leading_ones :: "int_type \<Rightarrow> int \<Rightarrow> nat" where
  "leading_ones t v = length (takeWhile id (bits_msb_first t v))"

definition unsigned_abs :: "int \<Rightarrow> int" where
  "unsigned_abs v = \<bar>v\<bar>"

definition to_le_bytes :: "int_type \<Rightarrow> int \<Rightarrow> bytes" where
  "to_le_bytes t v = map (\<lambda>i. word_of_int (drop_bit (8 * i) v)) [0..<BITS t div 8]"

section \<open>Facts\<close>

lemma BITS_pos [simp]: "0 < BITS t"
  by (cases t) simp_all

lemma BITS_div8: "8 * (BITS t div 8) = BITS t" "BITS t div 8 * 8 = BITS t" "0 < BITS t div 8"
  by (cases t; simp)+

lemma cast_in_type [simp]: "in_type t (cast t v)"
proof (cases "signed_type t")
  case True
  then show ?thesis
    using signed_take_bit_int_less_exp [of "BITS t - 1" v]
      signed_take_bit_int_greater_eq_minus_exp [of "BITS t - 1" v]
    by (simp add: cast_def in_type_def type_min_def type_max_def)
next
  case False
  then show ?thesis
    by (simp add: cast_def in_type_def type_min_def type_max_def take_bit_int_less_exp
        zle_diff1_eq)
qed

lemma cast_id [simp]: "in_type t v \<Longrightarrow> cast t v = v"
  by (auto simp: cast_def in_type_def type_min_def type_max_def
      take_bit_int_eq_self_iff signed_take_bit_int_eq_self_iff)

lemma cast_eq_iff_mod: "cast t v = w \<longleftrightarrow> in_type t w \<and> v mod 2 ^ BITS t = w mod 2 ^ BITS t"
proof
  have sb: "signed_take_bit (BITS t - 1) v mod 2 ^ BITS t = v mod 2 ^ BITS t"
    using take_bit_signed_take_bit [of "BITS t" "BITS t - 1" v]
    by (simp add: take_bit_eq_mod)
  assume "cast t v = w"
  then show "in_type t w \<and> v mod 2 ^ BITS t = w mod 2 ^ BITS t"
    using sb by (auto simp: cast_def take_bit_eq_mod simp del: cast_in_type
        intro: cast_in_type [of t v, unfolded cast_def])
next
  assume *: "in_type t w \<and> v mod 2 ^ BITS t = w mod 2 ^ BITS t"
  then have "take_bit (BITS t) v = take_bit (BITS t) w"
    by (simp add: take_bit_eq_mod)
  then have "cast t v = cast t w"
    using signed_take_bit_eq_iff_take_bit_eq [of "BITS t - 1" v w]
    by (auto simp: cast_def)
  then show "cast t v = w" using * by simp
qed

lemma in_type_zero [simp]: "in_type t 0"
  by (cases t) (simp_all add: in_type_def type_min_def type_max_def)

lemma in_type_signed: "signed_type t \<Longrightarrow>
    in_type t v \<longleftrightarrow> - (2 ^ (BITS t - 1)) \<le> v \<and> v < 2 ^ (BITS t - 1)"
  by (auto simp: in_type_def type_min_def type_max_def)

lemma in_type_unsigned: "\<not> signed_type t \<Longrightarrow> in_type t v \<longleftrightarrow> 0 \<le> v \<and> v < 2 ^ BITS t"
  by (auto simp: in_type_def type_min_def type_max_def)

lemma try_into_Some [simp]: "try_into t v = Some w \<longleftrightarrow> w = v \<and> in_type t v"
  by (auto simp: try_into_def)

text \<open>Leading bits measure the magnitude.\<close>

lemma takeWhile_rev_upt:
  fixes p :: "nat \<Rightarrow> bool"
  shows "n - length (takeWhile Not (map p (rev [0..<n]))) \<le> m \<longleftrightarrow>
    (\<forall>i < n. m \<le> i \<longrightarrow> \<not> p i)"
proof (induction n)
  case (Suc n)
  show ?case
  proof (cases "p n")
    case True
    then show ?thesis using less_Suc_eq_le by auto
  next
    case False
    then show ?thesis using Suc by (auto simp: less_Suc_eq)
  qed
qed simp

lemma int_less_pow_iff_bits:
  fixes v :: int
  assumes "0 \<le> v" "v < 2 ^ n"
  shows "v < 2 ^ m \<longleftrightarrow> (\<forall>i < n. m \<le> i \<longrightarrow> \<not> bit v i)"
proof
  assume "v < 2 ^ m"
  then have "take_bit m v = v" using assms by (simp add: take_bit_int_eq_self_iff)
  then show "\<forall>i < n. m \<le> i \<longrightarrow> \<not> bit v i" by (metis bit_take_bit_iff not_le)
next
  assume *: "\<forall>i < n. m \<le> i \<longrightarrow> \<not> bit v i"
  have "take_bit n v = v" using assms by (simp add: take_bit_int_eq_self_iff)
  then have "take_bit m v = v"
    using * by (intro bit_eqI) (metis bit_take_bit_iff not_le)
  then show "v < 2 ^ m" by (metis take_bit_int_less_exp)
qed

lemma leading_zeros_le: "leading_zeros t v \<le> BITS t"
  unfolding leading_zeros_def bits_msb_first_def
  by (rule order_trans [OF length_takeWhile_le]) simp

lemma leading_ones_le: "leading_ones t v \<le> BITS t"
  unfolding leading_ones_def bits_msb_first_def
  by (rule order_trans [OF length_takeWhile_le]) simp

lemma leading_zeros_iff:
  assumes "0 \<le> v" "v < 2 ^ BITS t"
  shows "BITS t - leading_zeros t v \<le> m \<longleftrightarrow> v < 2 ^ m"
  unfolding leading_zeros_def bits_msb_first_def
  using takeWhile_rev_upt [of "BITS t" "bit v" m] int_less_pow_iff_bits [OF assms, of m] by simp

lemma leading_ones_not: "leading_ones t v = leading_zeros t (NOT v)"
proof -
  have "takeWhile Not (map (bit (NOT v)) is) = map Not (takeWhile id (map (bit v) is))" for "is"
    by (induction "is") (auto simp: bit_not_iff)
  then show ?thesis by (simp add: leading_ones_def leading_zeros_def bits_msb_first_def)
qed

lemma leading_ones_iff:
  assumes "v < 0" "- (2 ^ BITS t) \<le> v"
  shows "BITS t - leading_ones t v \<le> m \<longleftrightarrow> - (2 ^ m) \<le> v"
proof -
  have "0 \<le> NOT v" "NOT v < 2 ^ BITS t" using assms by (simp_all add: not_int_def)
  from leading_zeros_iff [OF this, of m] show ?thesis
    by (auto simp: leading_ones_not not_int_def)
qed

end
