(* ===== verification/Constraints.thy ===== *)
theory Constraints
  imports Rust_Ints
begin

text \<open>
  \<open>types/constraints.rs\<close> (with \<open>num.rs\<close>): bounded sets of values, their
  intersection, the octet width OER derives from a value constraint, and the
  \<open>Constraints\<close> a type carries.  \<open>Bounded<T>\<close> is implemented for \<open>i128\<close> and \<open>usize\<close>
  by one macro; the type is the parameter \<open>t\<close> of the operations that compute.
\<close>

section \<open>Bounded\<close>

datatype 'a bounded = BNone | Single 'a | Range "'a option" "'a option"

definition u64_MAX :: int where "u64_MAX = type_max U64"

text \<open>\<open>octet_size_by_range\<close> over \<open>value.unsigned_abs()\<close>.\<close>

definition octet_size_by_range :: "int \<Rightarrow> nat option" where
  "octet_size_by_range v =
    (let x = unsigned_abs v in
     if x \<le> type_max U8 then Some 1
     else if x \<le> type_max U16 then Some 2
     else if x \<le> type_max U32 then Some 4
     else if x \<le> type_max U64 then Some 8
     else None)"

definition start_from :: "'a \<Rightarrow> 'a bounded" where "start_from v = Range (Some v) None"
definition up_to :: "'a \<Rightarrow> 'a bounded" where "up_to v = Range None (Some v)"
definition single_value :: "'a \<Rightarrow> 'a bounded" where "single_value v = Single v"
definition const_new :: "'a \<Rightarrow> 'a \<Rightarrow> 'a bounded" where "const_new s e = Range (Some s) (Some e)"

fun as_start :: "'a bounded \<Rightarrow> 'a option" where
  "as_start (Range s e) = s"
| "as_start (Single v) = Some v"
| "as_start BNone = None"

fun as_end :: "'a bounded \<Rightarrow> 'a option" where
  "as_end (Range s e) = e"
| "as_end (Single v) = Some v"
| "as_end BNone = None"

fun start_and_end :: "'a bounded \<Rightarrow> 'a option \<times> 'a option" where
  "start_and_end (Range s e) = (s, e)"
| "start_and_end (Single v) = (Some v, Some v)"
| "start_and_end BNone = (None, None)"

definition minimum :: "int bounded \<Rightarrow> int" where
  "minimum b = (case as_start b of Some v \<Rightarrow> v | None \<Rightarrow> 0)"

fun bounded_range :: "int_type \<Rightarrow> int bounded \<Rightarrow> int option" where
  "bounded_range t (Single _) = Some 1"
| "bounded_range t (Range (Some s) (Some e)) = Some (saturating_add t (wrapping_sub t e s) 1)"
| "bounded_range t _ = None"

text \<open>\<open>either::Left\<close> is \<open>Inl\<close>; the subtraction is the release build's (wrapping).\<close>

fun effective_value :: "int_type \<Rightarrow> int bounded \<Rightarrow> int \<Rightarrow> int + int" where
  "effective_value t (Range (Some s) e) v = Inl (wrapping_sub t v s)"
| "effective_value t b v = Inr v"

text \<open>The table lookups \<open>[a, b][(a < b) as usize]\<close>.\<close>

definition max_i128 :: "int \<Rightarrow> int \<Rightarrow> int" where "max_i128 a b = [a, b] ! (if a < b then 1 else 0)"
definition min_i128 :: "int \<Rightarrow> int \<Rightarrow> int" where "min_i128 a b = [a, b] ! (if a > b then 1 else 0)"
definition max_unsigned :: "int \<Rightarrow> int \<Rightarrow> int" where
  "max_unsigned a b = [a, b] ! (if a < b then 1 else 0)"

fun within_start :: "int option \<Rightarrow> int \<Rightarrow> bool" where
  "within_start (Some s) v = (v \<ge> s)"
| "within_start None v = True"

fun within_end :: "int option \<Rightarrow> int \<Rightarrow> bool" where
  "within_end (Some e) v = (v \<le> e)"
| "within_end None v = True"

fun new_start :: "int_type \<Rightarrow> int option \<Rightarrow> int option \<Rightarrow> int option" where
  "new_start t None None = None"
| "new_start t (Some a) None = Some a"
| "new_start t None (Some b) = Some b"
| "new_start t (Some a) (Some b) = Some (cast t (max_i128 (cast I128 a) (cast I128 b)))"

fun new_end :: "int_type \<Rightarrow> int option \<Rightarrow> int option \<Rightarrow> int option" where
  "new_end t None None = None"
| "new_end t (Some a) None = Some a"
| "new_end t None (Some b) = Some b"
| "new_end t (Some a) (Some b) = Some (cast t (min_i128 (cast I128 a) (cast I128 b)))"

fun bounded_intersect :: "int_type \<Rightarrow> int bounded \<Rightarrow> int bounded \<Rightarrow> int bounded option" where
  "bounded_intersect t BNone other = Some other"
| "bounded_intersect t (Single a) BNone = Some (Single a)"
| "bounded_intersect t (Single a) (Single b) = (if a = b then Some (Single a) else None)"
| "bounded_intersect t (Single a) (Range s e) =
    (if within_start s a \<and> within_end e a then Some (Single a) else None)"
| "bounded_intersect t (Range s e) BNone = Some (Range s e)"
| "bounded_intersect t (Range s e) (Single b) =
    (if within_start s b \<and> within_end e b then Some (Single b) else None)"
| "bounded_intersect t (Range s e) (Range s' e') =
    (case (new_start t s s', new_end t e e') of
       (Some a, Some b) \<Rightarrow> if a \<le> b then Some (Range (Some a) (Some b)) else None
     | (a, b) \<Rightarrow> Some (Range a b))"

fun range_in_bytes :: "int bounded \<Rightarrow> bool \<times> nat option" where
  "range_in_bytes (Single v) = (v < 0, octet_size_by_range v)"
| "range_in_bytes (Range (Some s) (Some e)) =
    (let is_signed = s < 0;
         end_abs = unsigned_abs e;
         start_abs = unsigned_abs s;
         bound_max = max_unsigned start_abs end_abs;
         octets = octet_size_by_range (cast I128 bound_max)
     in (is_signed, octets))"
| "range_in_bytes (Range (Some s) None) = (s < 0, None)"
| "range_in_bytes (Range None e) = (True, None)"
| "range_in_bytes BNone = (True, None)"

text \<open>\<open>in_bound\<close> on any \<open>IntegerType\<close>: compare as \<open>i128\<close> when the element fits, as
  \<open>BigInt\<close> otherwise; a \<open>Single\<close> never contains an element that does not fit.\<close>

fun in_bound :: "int bounded \<Rightarrow> int \<Rightarrow> bool" where
  "in_bound (Range s e) element =
    ((case s of None \<Rightarrow> True
      | Some s \<Rightarrow> (case try_into I128 element of Some v \<Rightarrow> v \<ge> s | None \<Rightarrow> element \<ge> s)) \<and>
     (case e of None \<Rightarrow> True
      | Some e \<Rightarrow> (case try_into I128 element of Some v \<Rightarrow> v \<le> e | None \<Rightarrow> element \<le> e)))"
| "in_bound (Single v) element =
    (case try_into I128 element of Some w \<Rightarrow> w = v | None \<Rightarrow> False)"
| "in_bound BNone element = True"

fun contains :: "int bounded \<Rightarrow> int \<Rightarrow> bool" where
  "contains (Single v) element = (v = element)"
| "contains (Range s e) element =
    ((case s of None \<Rightarrow> True | Some s \<Rightarrow> element \<ge> s) \<and>
     (case e of None \<Rightarrow> True | Some e \<Rightarrow> element \<le> e))"
| "contains BNone element = True"

definition contains_or :: "int bounded \<Rightarrow> int \<Rightarrow> 'e \<Rightarrow> ('e, unit) result" where
  "contains_or b element error = (if contains b element then Ok () else Err error)"

text \<open>\<open>num::log2\<close>.\<close>

definition log2 :: "int \<Rightarrow> nat" where
  "log2 x = BITS I128 - leading_zeros I128 (x - 1)"

section \<open>Value, size and alphabet constraints\<close>

record value_constraint =
  vc_value :: "int bounded"
  vc_signed :: bool
  vc_range :: "nat option"

definition value_new :: "int bounded \<Rightarrow> value_constraint" where
  "value_new v = (let (sg, rg) = range_in_bytes v in
    \<lparr>vc_value = v, vc_signed = sg, vc_range = rg\<rparr>)"

definition value_intersect :: "value_constraint \<Rightarrow> value_constraint \<Rightarrow> value_constraint" where
  "value_intersect self other =
    (let v = (case bounded_intersect I128 (vc_value self) (vc_value other) of
                Some v \<Rightarrow> v
              | None \<Rightarrow> Range (Some 1) (Some (- 1)));
         (sg, rg) = range_in_bytes v
     in \<lparr>vc_value = v, vc_signed = sg, vc_range = rg\<rparr>)"

type_synonym size_constraint = "int bounded"

definition is_fixed :: "size_constraint \<Rightarrow> bool" where
  "is_fixed s = (case s of Single _ \<Rightarrow> True | _ \<Rightarrow> False)"

definition is_range :: "size_constraint \<Rightarrow> bool" where
  "is_range s = (case s of Range _ _ \<Rightarrow> True | _ \<Rightarrow> False)"

definition size_intersect :: "size_constraint \<Rightarrow> size_constraint \<Rightarrow> size_constraint" where
  "size_intersect self other =
    (case bounded_intersect Usize self other of Some v \<Rightarrow> v | None \<Rightarrow> Single 0)"

type_synonym permitted_alphabet = "u32 list"

definition alphabet_intersect ::
    "permitted_alphabet \<Rightarrow> permitted_alphabet \<Rightarrow> permitted_alphabet" where
  "alphabet_intersect self other = other"

record 'a extensible =
  constraint :: 'a
  ext_list :: "'a list option"

definition extensible_new :: "'a \<Rightarrow> 'a extensible" where
  "extensible_new c = \<lparr>constraint = c, ext_list = None\<rparr>"

definition new_extensible :: "'a \<Rightarrow> 'a list \<Rightarrow> 'a extensible" where
  "new_extensible c cs = \<lparr>constraint = c, ext_list = Some cs\<rparr>"

definition set_extensible :: "'a extensible \<Rightarrow> bool \<Rightarrow> 'a extensible" where
  "set_extensible self e = self\<lparr>ext_list := (if e then Some [] else None)\<rparr>"

text \<open>The macro \<open>impl_extensible\<close>; \<open>meet\<close> is the constraint's own \<open>intersect\<close>.\<close>

definition extensible_intersect ::
    "('a \<Rightarrow> 'a \<Rightarrow> 'a) \<Rightarrow> 'a extensible \<Rightarrow> 'a extensible \<Rightarrow> 'a extensible" where
  "extensible_intersect meet self other =
    (let ext = (case (ext_list self, ext_list other) of
                  (Some a, Some _) \<Rightarrow> Some a
                | _ \<Rightarrow> None);
         c = meet (constraint self) (constraint other)
     in case ext of Some x \<Rightarrow> new_extensible c x | None \<Rightarrow> extensible_new c)"

section \<open>Constraints\<close>

datatype type_constraint =
    CValue "value_constraint extensible"
  | CSize "size_constraint extensible"
  | CPermittedAlphabet "permitted_alphabet extensible"
  | CExtensible

record constraints =
  c_value :: "value_constraint extensible option"
  c_size :: "size_constraint extensible option"
  c_permitted_alphabet :: "permitted_alphabet extensible option"
  c_extensible :: bool

definition constraints_NONE :: constraints where
  "constraints_NONE =
    \<lparr>c_value = None, c_size = None, c_permitted_alphabet = None, c_extensible = False\<rparr>"

fun merge_opt :: "('a \<Rightarrow> 'a \<Rightarrow> 'a) \<Rightarrow> 'a option \<Rightarrow> 'a option \<Rightarrow> 'a option" where
  "merge_opt f (Some a) (Some b) = Some (f a b)"
| "merge_opt f (Some a) None = Some a"
| "merge_opt f None (Some b) = Some b"
| "merge_opt f None None = None"

text \<open>The body of the loop of \<open>Constraints::new\<close>.\<close>

fun add_constraint :: "type_constraint \<Rightarrow> constraints \<Rightarrow> constraints" where
  "add_constraint (CValue v) c =
    c\<lparr>c_value := merge_opt (extensible_intersect value_intersect) (c_value c) (Some v)\<rparr>"
| "add_constraint (CSize s) c =
    c\<lparr>c_size := merge_opt (extensible_intersect size_intersect) (c_size c) (Some s)\<rparr>"
| "add_constraint (CPermittedAlphabet p) c =
    c\<lparr>c_permitted_alphabet :=
        merge_opt (extensible_intersect alphabet_intersect) (c_permitted_alphabet c) (Some p)\<rparr>"
| "add_constraint CExtensible c = c\<lparr>c_extensible := True\<rparr>"

definition constraints_new :: "type_constraint list \<Rightarrow> constraints" where
  "constraints_new cs = fold add_constraint cs constraints_NONE"

definition constraints_intersect :: "constraints \<Rightarrow> constraints \<Rightarrow> constraints" where
  "constraints_intersect self rhs =
    \<lparr>c_value = merge_opt (extensible_intersect value_intersect) (c_value self) (c_value rhs),
     c_size = merge_opt (extensible_intersect size_intersect) (c_size self) (c_size rhs),
     c_permitted_alphabet =
       merge_opt (extensible_intersect alphabet_intersect)
         (c_permitted_alphabet self) (c_permitted_alphabet rhs),
     c_extensible = (c_extensible self \<or> c_extensible rhs)\<rparr>"

definition constraints_extensible :: "constraints \<Rightarrow> bool" where
  "constraints_extensible c =
    (if c_extensible c then True
     else if (case c_value c of Some v \<Rightarrow> ext_list v \<noteq> None | None \<Rightarrow> False) then True
     else if (case c_size c of Some s \<Rightarrow> ext_list s \<noteq> None | None \<Rightarrow> False) then True
     else if (case c_permitted_alphabet c of Some p \<Rightarrow> ext_list p \<noteq> None | None \<Rightarrow> False) then True
     else False)"

section \<open>Lemmas\<close>

text \<open>The bounds of a \<open>Bounded<t>\<close> are values of \<open>t\<close>.\<close>

fun bounded_in_type :: "int_type \<Rightarrow> int bounded \<Rightarrow> bool" where
  "bounded_in_type t BNone = True"
| "bounded_in_type t (Single v) = in_type t v"
| "bounded_in_type t (Range s e) =
    ((case s of None \<Rightarrow> True | Some v \<Rightarrow> in_type t v) \<and>
     (case e of None \<Rightarrow> True | Some v \<Rightarrow> in_type t v))"

lemma max_min_i128 [simp]: "max_i128 a b = max a b" "min_i128 a b = min a b"
    "max_unsigned a b = max a b"
  by (auto simp: max_i128_def min_i128_def max_unsigned_def)

lemma Usize_in_I128 [simp]: "in_type Usize v \<Longrightarrow> in_type I128 v"
  by (auto simp: in_type_def type_min_def type_max_def)

lemma within_start_iff [simp]:
  "within_start s v \<longleftrightarrow> (case s of None \<Rightarrow> True | Some s \<Rightarrow> v \<ge> s)"
  by (cases s) simp_all

lemma within_end_iff [simp]:
  "within_end e v \<longleftrightarrow> (case e of None \<Rightarrow> True | Some e \<Rightarrow> v \<le> e)"
  by (cases e) simp_all

lemma new_start_within:
  assumes "t = I128 \<or> t = Usize" "pred_option (in_type t) s" "pred_option (in_type t) s'"
  shows "within_start (new_start t s s') v \<longleftrightarrow> within_start s v \<and> within_start s' v"
    and "pred_option (in_type t) (new_start t s s')"
  using assms by (induction t s s' rule: new_start.induct) (auto simp: max_def)

lemma new_end_within:
  assumes "t = I128 \<or> t = Usize" "pred_option (in_type t) e" "pred_option (in_type t) e'"
  shows "within_end (new_end t e e') v \<longleftrightarrow> within_end e v \<and> within_end e' v"
    and "pred_option (in_type t) (new_end t e e')"
  using assms by (induction t e e' rule: new_end.induct) (auto simp: min_def)

lemma contains_Range: "contains (Range s e) v \<longleftrightarrow> within_start s v \<and> within_end e v"
  by simp

lemma bounded_in_type_Range:
  "bounded_in_type t (Range s e) \<longleftrightarrow> pred_option (in_type t) s \<and> pred_option (in_type t) e"
  by (cases s; cases e) simp_all

text \<open>The pairs of bounds the two-range case looks at: a \<open>None\<close> means an empty set.\<close>

lemma bounded_intersect_Range:
  "(case bounded_intersect t (Range s e) (Range s' e') of
      Some c \<Rightarrow> contains c v | None \<Rightarrow> False) \<longleftrightarrow>
    within_start (new_start t s s') v \<and> within_end (new_end t e e') v"
  by (auto split: option.splits)

lemma bounded_intersect_contains:
  assumes "t = I128 \<or> t = Usize" "bounded_in_type t a" "bounded_in_type t b"
  shows "(case bounded_intersect t a b of Some c \<Rightarrow> contains c v | None \<Rightarrow> False) \<longleftrightarrow>
    contains a v \<and> contains b v"
proof (cases "\<exists>s e s' e'. a = Range s e \<and> b = Range s' e'")
  case True
  then obtain s e s' e' where ab: "a = Range s e" "b = Range s' e'" by blast
  then have "pred_option (in_type t) s" "pred_option (in_type t) s'"
    "pred_option (in_type t) e" "pred_option (in_type t) e'"
    using assms(2,3) by (simp_all add: bounded_in_type_Range del: bounded_in_type.simps)
  with new_start_within(1) new_end_within(1) assms(1) show ?thesis
    unfolding ab bounded_intersect_Range contains_Range by blast
next
  case False
  then show ?thesis by (cases a; cases b) (auto split: option.splits)
qed

lemma bounded_intersect_in_type:
  assumes "t = I128 \<or> t = Usize" "bounded_in_type t a" "bounded_in_type t b"
    "bounded_intersect t a b = Some c"
  shows "bounded_in_type t c"
proof (cases "\<exists>s e s' e'. a = Range s e \<and> b = Range s' e'")
  case True
  then obtain s e s' e' where ab: "a = Range s e" "b = Range s' e'" by blast
  then have p: "pred_option (in_type t) s" "pred_option (in_type t) s'"
    "pred_option (in_type t) e" "pred_option (in_type t) e'"
    using assms(2,3) by (simp_all add: bounded_in_type_Range del: bounded_in_type.simps)
  have "c = Range (new_start t s s') (new_end t e e')"
    using assms(4) unfolding ab by (auto split: option.splits if_splits)
  with new_start_within(2) [OF assms(1) p(1,2)] new_end_within(2) [OF assms(1) p(3,4)]
  show ?thesis by (simp add: bounded_in_type_Range del: bounded_in_type.simps)
next
  case False
  then show ?thesis using assms by (cases a; cases b) (auto split: if_splits)
qed

definition value_wf :: "value_constraint \<Rightarrow> bool" where
  "value_wf v = (bounded_in_type I128 (vc_value v) \<and>
    (vc_signed v, vc_range v) = range_in_bytes (vc_value v))"

lemma value_new_wf: "bounded_in_type I128 b \<Longrightarrow> value_wf (value_new b)"
  by (simp add: value_new_def value_wf_def split: prod.splits)

lemma value_intersect_contains:
  assumes "value_wf a" "value_wf b"
  shows "contains (vc_value (value_intersect a b)) v \<longleftrightarrow>
    contains (vc_value a) v \<and> contains (vc_value b) v"
  using bounded_intersect_contains [of I128 "vc_value a" "vc_value b" v] assms
  by (auto simp: value_intersect_def Let_def value_wf_def split: prod.splits option.splits)

lemma value_intersect_wf:
  assumes "value_wf a" "value_wf b"
  shows "value_wf (value_intersect a b)"
proof -
  have "in_type I128 1" "in_type I128 (- 1)"
    by (simp_all add: in_type_def type_min_def type_max_def)
  then show ?thesis
    using bounded_intersect_in_type [of I128 "vc_value a" "vc_value b"] assms
    by (auto simp: value_intersect_def Let_def value_wf_def split: prod.splits option.splits)
qed

lemma constraint_extensible_intersect [simp]:
  "constraint (extensible_intersect m a b) = m (constraint a) (constraint b)"
  by (auto simp: extensible_intersect_def Let_def new_extensible_def extensible_new_def
      split: option.splits)

fun value_of :: "type_constraint \<Rightarrow> value_constraint option" where
  "value_of (CValue v) = Some (constraint v)"
| "value_of _ = None"

definition permits :: "constraints \<Rightarrow> int \<Rightarrow> bool" where
  "permits c v = (case c_value c of None \<Rightarrow> True | Some e \<Rightarrow> contains (vc_value (constraint e)) v)"

definition constraints_value_wf :: "constraints \<Rightarrow> bool" where
  "constraints_value_wf c = (case c_value c of None \<Rightarrow> True | Some e \<Rightarrow> value_wf (constraint e))"

lemma add_constraint_permits:
  assumes "constraints_value_wf c" "pred_option value_wf (value_of x)"
  shows "permits (add_constraint x c) v \<longleftrightarrow>
      permits c v \<and> pred_option (\<lambda>w. contains (vc_value w) v) (value_of x)"
    and "constraints_value_wf (add_constraint x c)"
  using assms
  by (cases x; cases "c_value c";
      force simp: permits_def constraints_value_wf_def value_intersect_contains value_intersect_wf)+

lemma fold_add_constraint_permits:
  assumes "constraints_value_wf c" "\<forall>x \<in> set cs. pred_option value_wf (value_of x)"
  shows "permits (fold add_constraint cs c) v \<longleftrightarrow>
      permits c v \<and> (\<forall>x \<in> set cs. pred_option (\<lambda>w. contains (vc_value w) v) (value_of x))"
  using assms
proof (induction cs arbitrary: c)
  case (Cons x cs)
  then show ?case
    using add_constraint_permits(1) [of c x v] add_constraint_permits(2) [of c x] by simp
qed simp

section \<open>Properties\<close>

text \<open>C34: \<open>Bounded::intersect\<close> is set intersection: for \<open>i128\<close> and \<open>usize\<close> bounds, a
  returned set contains exactly the values both operands contain, and \<open>None\<close> is
  returned only when no value is in both.\<close>

theorem bounded_intersect_is_intersection:
  assumes "t = I128 \<or> t = Usize" "bounded_in_type t a" "bounded_in_type t b"
  shows "(\<forall>c. bounded_intersect t a b = Some c \<longrightarrow>
            (\<forall>v. contains c v \<longleftrightarrow> contains a v \<and> contains b v)) \<and>
         (bounded_intersect t a b = None \<longrightarrow> (\<forall>v. \<not> (contains a v \<and> contains b v)))"
  using bounded_intersect_contains [OF assms]
  by (cases "bounded_intersect t a b") simp_all

theorem bounded_intersect_is_intersection_witness:
  "bounded_intersect Usize (Range (Some 1) (Some 10)) (Range (Some 5) None) =
     Some (Range (Some 5) (Some 10)) \<and>
   (\<forall>v. contains (Range (Some 5) (Some 10)) v \<longleftrightarrow>
     contains (Range (Some 1) (Some 10)) v \<and> contains (Range (Some 5) None) v)"
  using bounded_intersect_is_intersection [of Usize "Range (Some 1) (Some 10)" "Range (Some 5) None"]
  by (simp add: in_type_def type_min_def type_max_def)

text \<open>C35: \<open>Constraints::new\<close>: the value constraint it accumulates permits exactly the
  values that every value constraint of the list permits (an empty intersection
  becomes the impossible range 1..-1).\<close>

theorem constraints_new_permits:
  assumes "\<forall>x \<in> set cs. pred_option value_wf (value_of x)"
  shows "permits (constraints_new cs) v \<longleftrightarrow>
    (\<forall>x \<in> set cs. pred_option (\<lambda>w. contains (vc_value w) v) (value_of x))"
  using fold_add_constraint_permits [OF _ assms, of constraints_NONE v]
  by (simp add: constraints_new_def constraints_value_wf_def permits_def constraints_NONE_def)

theorem constraints_new_permits_witness:
  "permits (constraints_new [CValue (extensible_new (value_new (const_new 0 10))),
      CValue (extensible_new (value_new (start_from 4)))]) 7"
proof -
  have "pred_option value_wf (value_of (CValue (extensible_new (value_new (const_new 0 10)))))"
    "pred_option value_wf (value_of (CValue (extensible_new (value_new (start_from 4)))))"
    by (simp_all add: extensible_new_def const_new_def start_from_def value_new_wf in_type_def
        type_min_def type_max_def)
  then show ?thesis
    by (subst constraints_new_permits)
      (simp_all add: extensible_new_def value_new_def const_new_def start_from_def split: prod.splits)
qed

text \<open>\<open>in_bound\<close> agrees with \<open>contains\<close> on every integer, machine-sized or not,
  when the bounds are \<open>i128\<close> values.\<close>

theorem in_bound_iff_contains:
  assumes "bounded_in_type I128 b"
  shows "in_bound b v \<longleftrightarrow> contains b v"
  using assms by (cases b) (auto simp: try_into_def split: option.splits)

theorem in_bound_iff_contains_witness:
  "in_bound (Range (Some 3) None) (2 ^ 200) \<longleftrightarrow> contains (Range (Some 3) None) (2 ^ 200)"
  by (rule in_bound_iff_contains) (simp add: in_type_def type_min_def type_max_def)

lemma octet_size_by_range_iff:
  "octet_size_by_range v = Some n \<Longrightarrow> \<bar>v\<bar> < 256 ^ n"
  by (auto simp: octet_size_by_range_def Let_def unsigned_abs_def type_max_def split: if_splits)

lemma octet_size_by_range_minimal:
  "octet_size_by_range v = Some n \<Longrightarrow> m \<in> {1, 2, 4, 8} \<Longrightarrow> m < n \<Longrightarrow> 256 ^ m \<le> \<bar>v\<bar>"
  by (auto simp: octet_size_by_range_def Let_def unsigned_abs_def type_max_def split: if_splits)

text \<open>C36: the octet width OER derives from a value constraint without negative values
  is adequate and minimal: every permitted value fits that many octets, and (for a
  non-empty range) the next smaller width of 1, 2, 4, 8 does not hold the upper
  bound.\<close>

theorem range_in_bytes_unsigned:
  assumes "0 \<le> s" "s \<le> e" "in_type I128 e" "range_in_bytes (const_new s e) = (sg, Some n)"
  shows "\<not> sg \<and> (\<forall>v. contains (const_new s e) v \<longrightarrow> 0 \<le> v \<and> v < 256 ^ n) \<and>
    (\<forall>m \<in> {1, 2, 4, 8}. m < n \<longrightarrow> \<not> e < 256 ^ m)"
proof -
  have o: "octet_size_by_range e = Some n" "\<not> sg"
    using assms by (auto simp: const_new_def Let_def unsigned_abs_def max_def)
  have "e < 256 ^ n" using octet_size_by_range_iff [OF o(1)] assms by simp
  moreover have "\<forall>m \<in> {1, 2, 4, 8}. m < n \<longrightarrow> 256 ^ m \<le> e"
    using octet_size_by_range_minimal [OF o(1)] assms by force
  ultimately show ?thesis using o assms by (auto simp: const_new_def)
qed

theorem range_in_bytes_unsigned_witness:
  "range_in_bytes (const_new 3 (300 :: int)) = (False, Some 2) \<and> contains (const_new 3 (300 :: int)) 299 \<and>
    (299 :: int) < 256 ^ 2 \<and> \<not> (300 :: int) < 256 ^ 1"
proof -
  have r: "range_in_bytes (const_new 3 (300 :: int)) = (False, Some 2)"
    by (simp add: const_new_def octet_size_by_range_def unsigned_abs_def Let_def max_def in_type_def type_min_def type_max_def)
  have c: "contains (const_new 3 (300 :: int)) 299" by (simp add: const_new_def)
  show ?thesis
    using range_in_bytes_unsigned [OF _ _ _ r] r c
    by (force simp: in_type_def type_min_def type_max_def simp del: range_in_bytes.simps)
qed

text \<open>With a negative lower bound the width is taken from the absolute values alone,
  so it can be one octet where the range needs two: -200..200 is given one signed
  octet, which cannot hold 200 nor -200.\<close>

lemma range_in_bytes_signed_too_narrow:
  "range_in_bytes (const_new (- 200) 200) = (True, Some 1) \<and>
   contains (const_new (- 200) 200) 200 \<and> \<not> (200 :: int) < 2 ^ (8 * 1 - 1) \<and>
   contains (const_new (- 200) 200) (- 200) \<and> \<not> - (2 ^ (8 * 1 - 1)) \<le> (- 200 :: int)"
  by (simp add: const_new_def octet_size_by_range_def unsigned_abs_def Let_def max_def
      in_type_def type_min_def type_max_def)

lemma log2_le_iff:
  assumes "1 \<le> x" "in_type I128 x"
  shows "log2 x \<le> k \<longleftrightarrow> x \<le> 2 ^ k"
proof -
  have "0 \<le> x - 1" "x - 1 < 2 ^ BITS I128"
    using assms by (simp_all add: in_type_def type_max_def)
  moreover have "x - 1 < 2 ^ k \<longleftrightarrow> x \<le> 2 ^ k" by linarith
  ultimately show ?thesis using leading_zeros_iff [of "x - 1" I128 k] by (simp add: log2_def)
qed

lemma le_pow_log2: "1 \<le> x \<Longrightarrow> in_type I128 x \<Longrightarrow> x \<le> 2 ^ log2 x"
  using log2_le_iff [of x "log2 x"] by simp

lemma log2_one [simp]: "log2 1 = 0"
  using log2_le_iff [of 1 0] by (simp add: in_type_def type_min_def type_max_def)

text \<open>\<open>num::log2\<close> is the ceiling of the binary logarithm: the least number of bits
  that can count \<open>x\<close> values.\<close>

theorem log2_least:
  assumes "1 \<le> x" "in_type I128 x"
  shows "log2 x \<le> k \<longleftrightarrow> x \<le> 2 ^ k"
  using assms by (rule log2_le_iff)

theorem log2_least_witness: "log2 256 \<le> 8 \<longleftrightarrow> (256 :: int) \<le> 2 ^ 8"
  by (rule log2_least) (simp_all add: in_type_def type_min_def type_max_def)

end
