(* ===== verification/Errors.thy ===== *)
theory Errors
  imports Tags Constraints
begin

text \<open>
  \<open>codec.rs\<close> (the codec names), \<open>error/decode.rs\<close> and \<open>error/encode.rs\<close>: errors as
  values.  An error carries its kind and the codec that raised it.  Free-text
  messages and backtraces are dropped; they play no part in control flow.  Kinds
  of the text codec XER are outside the development.
\<close>

datatype codec = Aper | Ber | Cer | Der | Uper | Jer | Oer | Coer | Xer | Avn

text \<open>\<open>nom::Needed\<close>, \<open>nom::Err\<close> and the \<open>ErrorKind\<close>s that reach rasn.\<close>

datatype needed = Unknown | NeededSize nat

datatype nom_error_kind = KEof | KTag | KTooLarge | KOther

datatype nom_err = NomIncomplete needed | NomError nom_error_kind | NomFailure nom_error_kind

datatype permitted_alphabet_error =
    CharacterNotFound u32
  | IndexNotFound nat
  | InvalidData nat nat
  | InvalidRestrictedString u32
  | AlphabetOther

datatype ber_decode_error_kind =
    IndefiniteLengthNotAllowed
  | InvalidConstructedIdentifier
  | InvalidDate
  | InvalidObjectIdentifier
  | MismatchedTag tag tag

datatype der_decode_error_kind = ConstructedEncodingNotAllowed

datatype oer_decode_error_kind =
    InvalidTagClassOnChoice u8
  | InvalidTagNumberOnChoice u32
  | InvalidTagVariantOnChoice tag bool
  | InvalidExtensionHeader
  | InvalidOerBitString
  | InvalidPreamble

datatype coer_decode_error_kind = NotValidCanonicalEncoding

datatype jer_decode_error_kind =
    EndOfInput
  | TypeMismatch
  | InvalidJerOctetString
  | InvalidOIDString
  | InvalidEnumDiscriminant string

datatype avn_decode_error_kind =
    AvnEndOfInput
  | AvnTypeMismatch
  | InvalidHexString
  | InvalidBinString
  | InvalidOid
  | AvnInvalidEnumDiscriminant string
  | UnexpectedToken
  | UnterminatedString
  | IntegerParseError

datatype codec_decode_error =
    BerErr ber_decode_error_kind
  | DerErr der_decode_error_kind
  | OerErr oer_decode_error_kind
  | CoerErr coer_decode_error_kind
  | JerErr jer_decode_error_kind
  | AvnErr avn_decode_error_kind

datatype decode_error = DecodeError (err_kind: decode_error_kind) (err_codec: codec)
  and decode_error_kind =
    PermittedAlphabetError permitted_alphabet_error
  | SizeConstraintNotSatisfied "nat option"
  | ValueConstraintNotSatisfied int "int bounded"
  | InnerSubtypeConstraintNotSatisfied
  | CodecSpecific codec_decode_error
  | EnumerationIndexNotFound nat bool
  | ChoiceIndexNotFound nat "tag list"
  | ChoiceIndexExceedsPlatformWidth nat decode_error
  | Custom
  | DiscriminantValueNotFound int
  | DuplicateField string
  | ExceedsMaxLength int
  | LengthExceedsPlatformWidth
  | FieldError string decode_error
  | Incomplete needed
  | Eof
  | IncorrectItemNumberInSequence nat nat
  | IntegerOverflow nat
  | IntegerTypeConversionFailed
  | InvalidRealEncoding
  | RealNotSupported
  | InvalidBitString u8
  | InvalidBool u8
  | ZeroLengthOfLength
  | MismatchedLength nat nat
  | MissingField string
  | MissingTagClassOrValueInSequenceOrSet asn_class u32
  | RangeExceedsPlatformWidth nat nat
  | RequiredExtensionNotPresent tag
  | ParserFail
  | StringConversionFailed tag
  | FixedStringConversionFailed tag nat nat
  | NoValidChoice string
  | TypeNotExtensible
  | UnexpectedExtraData nat
  | UnknownField nat tag
  | UnexpectedEmptyInput
  | ExceedsMaxParseDepth

datatype ber_encode_error_kind = AnyInSet | EncInvalidObjectIdentifier "u32 list"

datatype coer_encode_error_kind = TooLongValue nat | InvalidConstrainedIntegerOctetSize

datatype jer_encode_error_kind =
    NoRootValueFound
  | JsonEncoder
  | ExceedsSupportedIntSize int
  | ExceedsSupportedRealRange
  | InvalidCharacter

datatype avn_encode_error_kind = AvnNoRootValueFound | AvnEncoder | AvnExceedsSupportedRealRange

datatype codec_encode_error =
    BerEncErr ber_encode_error_kind
  | CoerEncErr coer_encode_error_kind
  | JerEncErr jer_encode_error_kind
  | AvnEncErr avn_encode_error_kind

datatype encode_error_kind =
    FailedBitStringUnusedBitsToU8
  | InvalidLength nat "int bounded"
  | LengthExceedsPlatformSize
  | MoreBytesThanExpected nat nat
  | EncCustom
  | EncCodecSpecific codec_encode_error
  | AlphabetConstraintNotSatisfied permitted_alphabet_error
  | EncSizeConstraintNotSatisfied nat "int bounded"
  | EncValueConstraintNotSatisfied int "int bounded"
  | EncIntegerTypeConversionFailed
  | OpaqueConversionFailed
  | VariantNotInChoice
  | RealNotSuppored

datatype encode_error = EncodeError (enc_kind: encode_error_kind) (enc_codec: codec)

type_synonym 'a dec_result = "(decode_error, 'a) result"
type_synonym 'a enc_result = "(encode_error, 'a) result"

text \<open>\<open>from_codec_kind\<close> derives the codec from the codec-specific kind.\<close>

fun from_codec_kind :: "codec_decode_error \<Rightarrow> decode_error" where
  "from_codec_kind (BerErr k) = DecodeError (CodecSpecific (BerErr k)) Ber"
| "from_codec_kind (DerErr k) = DecodeError (CodecSpecific (DerErr k)) Der"
| "from_codec_kind (OerErr k) = DecodeError (CodecSpecific (OerErr k)) Oer"
| "from_codec_kind (CoerErr k) = DecodeError (CodecSpecific (CoerErr k)) Coer"
| "from_codec_kind (JerErr k) = DecodeError (CodecSpecific (JerErr k)) Jer"
| "from_codec_kind (AvnErr k) = DecodeError (CodecSpecific (AvnErr k)) Avn"

fun from_codec_encode_kind :: "codec_encode_error \<Rightarrow> encode_error" where
  "from_codec_encode_kind (BerEncErr k) = EncodeError (EncCodecSpecific (BerEncErr k)) Ber"
| "from_codec_encode_kind (CoerEncErr k) = EncodeError (EncCodecSpecific (CoerEncErr k)) Coer"
| "from_codec_encode_kind (JerEncErr k) = EncodeError (EncCodecSpecific (JerEncErr k)) Jer"
| "from_codec_encode_kind (AvnEncErr k) = EncodeError (EncCodecSpecific (AvnEncErr k)) Avn"

definition map_nom_err :: "nom_err \<Rightarrow> codec \<Rightarrow> decode_error" where
  "map_nom_err error c =
    (case error of
       NomIncomplete n \<Rightarrow> DecodeError (Incomplete n) c
     | NomFailure k \<Rightarrow> (if k = KEof then DecodeError Eof c else DecodeError ParserFail c)
     | NomError k \<Rightarrow> (if k = KEof then DecodeError Eof c else DecodeError ParserFail c))"

definition assert_length :: "nat \<Rightarrow> nat \<Rightarrow> codec \<Rightarrow> unit dec_result" where
  "assert_length expected actual c =
    (if expected = actual then Ok () else Err (DecodeError (MismatchedLength expected actual) c))"

definition assert_tag :: "tag \<Rightarrow> tag \<Rightarrow> unit dec_result" where
  "assert_tag expected actual =
    (if expected = actual then Ok () else Err (from_codec_kind (BerErr (MismatchedTag expected actual))))"

text \<open>\<open>matches_root_cause\<close> walks down the \<open>FieldError\<close> chain.\<close>

fun root_cause :: "decode_error \<Rightarrow> decode_error_kind" where
  "root_cause (DecodeError (FieldError nm nested) c) = root_cause nested"
| "root_cause (DecodeError k c) = k"

definition matches_root_cause :: "decode_error \<Rightarrow> (decode_error_kind \<Rightarrow> bool) \<Rightarrow> bool" where
  "matches_root_cause e predicate = predicate (root_cause e)"

definition check_length :: "nat \<Rightarrow> size_constraint \<Rightarrow> codec \<Rightarrow> unit enc_result" where
  "check_length len expected c =
    contains_or expected (int len) (EncodeError (InvalidLength len expected) c)"

lemma assert_length_iff [simp, result_iff]:
  "assert_length a b c = Inr u \<longleftrightarrow> a = b"
  "assert_length a b c = Inl e \<longleftrightarrow> a \<noteq> b \<and> e = DecodeError (MismatchedLength a b) c"
  by (auto simp: assert_length_def)

lemma assert_tag_iff [simp, result_iff]:
  "assert_tag a b = Inr u \<longleftrightarrow> a = b"
  by (auto simp: assert_tag_def)

lemma root_cause_not_field_error: "root_cause e \<noteq> FieldError nm nested"
  by (induction e rule: root_cause.induct) simp_all

end
