(* ===== verification/Integers.thy ===== *)
theory Integers
  imports Errors
begin

text \<open>
  \<open>types/integer.rs\<close>: the trait \<open>IntegerType\<close> for the primitive integers (the macro
  \<open>integer_type_impl\<close>), for \<open>BigInt\<close> and for \<open>Integer\<close>, the arithmetic of \<open>Integer\<close>
  with its promotion from \<open>isize\<close> to \<open>BigInt\<close>, and \<open>ConstrainedInteger\<close>.

  A \<open>BigInt\<close> is the integer it denotes.  Its conversions to and from octets belong to
  the crate \<open>num-bigint\<close>; they are the fields of the parameter \<open>num\<close>, and
  \<open>num_documented\<close> states what that crate documents about them.
\<close>

section \<open>Primitive integers\<close>

fun unsigned_pair :: "int_type \<Rightarrow> int_type" where
  "unsigned_pair I8 = U8" | "unsigned_pair I16 = U16" | "unsigned_pair I32 = U32"
| "unsigned_pair I64 = U64" | "unsigned_pair I128 = U128" | "unsigned_pair Isize = Usize"
| "unsigned_pair t = t"

fun signed_pair :: "int_type \<Rightarrow> int_type" where
  "signed_pair U8 = I16" | "signed_pair U16 = I32" | "signed_pair U32 = I64"
| "signed_pair U64 = I128" | "signed_pair U128 = I128" | "signed_pair Usize = I128"
| "signed_pair t = t"

definition BYTE_WIDTH :: "int_type \<Rightarrow> nat" where
  "BYTE_WIDTH t = BITS t div 8"

text \<open>The unsigned instance of \<open>try_from_unsigned_bytes\<close> and the signed instance of
  \<open>try_from_signed_bytes\<close> accumulate the octets by shifting; the other two instances
  go through the paired type.\<close>

definition from_unsigned_bytes :: "int_type \<Rightarrow> bytes \<Rightarrow> codec \<Rightarrow> int dec_result" where
  "from_unsigned_bytes t input c =
    (if input = [] then Err (DecodeError UnexpectedEmptyInput c)
     else if length input > BITS t div 8 then Err (DecodeError (IntegerOverflow (BITS t)) c)
     else
       let start_shift = (length input - 1) * 8 in
       Ok (fold (\<lambda>(i, byte) result. result OR shl t (cast t (uint byte)) (start_shift - i * 8))
             (enumerate 0 input) 0))"

definition from_signed_bytes :: "int_type \<Rightarrow> bytes \<Rightarrow> codec \<Rightarrow> int dec_result" where
  "from_signed_bytes t input c =
    (let BYTE_SIZE = BITS t div 8 in
     if input = [] then Err (DecodeError UnexpectedEmptyInput c)
     else if length input > BYTE_SIZE then Err (DecodeError (IntegerOverflow (BITS t)) c)
     else
       let result = shl t (cast t (uint (input ! 0))) ((BYTE_SIZE - 1) * 8);
           result = shr t result ((BYTE_SIZE - length input) * 8)
       in Ok (fold (\<lambda>(i, byte) result.
                 result OR shl t (cast t (uint byte)) (8 * (length input - 2 - i)))
               (enumerate 0 (drop 1 input)) result))"

definition try_from_signed_bytes :: "int_type \<Rightarrow> bytes \<Rightarrow> codec \<Rightarrow> int dec_result" where
  "try_from_signed_bytes t input c =
    (if signed_type t then from_signed_bytes t input c
     else and_then (from_signed_bytes (signed_pair t) input c)
       (\<lambda>v. ok_or (DecodeError IntegerTypeConversionFailed c) (try_into t v)))"

definition try_from_unsigned_bytes :: "int_type \<Rightarrow> bytes \<Rightarrow> codec \<Rightarrow> int dec_result" where
  "try_from_unsigned_bytes t input c =
    (if \<not> signed_type t then from_unsigned_bytes t input c
     else and_then (from_unsigned_bytes (unsigned_pair t) input c)
       (\<lambda>v. ok_or (DecodeError IntegerTypeConversionFailed c) (try_into t v)))"

definition try_from_bytes :: "int_type \<Rightarrow> bytes \<Rightarrow> codec \<Rightarrow> int dec_result" where
  "try_from_bytes t input c =
    (if signed_type t then try_from_signed_bytes t input c else try_from_unsigned_bytes t input c)"

text \<open>\<open>MinFixedSizeIntegerBytes\<close>.\<close>

definition signed_bytes_needed :: "int_type \<Rightarrow> int \<Rightarrow> nat" where
  "signed_bytes_needed t v =
    (let (t, v) = (if signed_type t then (t, v) else (signed_pair t, cast (signed_pair t) v));
         leading_bits = (if v < 0 then leading_ones t v else leading_zeros t v);
         full_bytes = BYTE_WIDTH t - leading_bits div 8;
         extra_byte = (if leading_bits mod 8 = 0 then 1 else 0)
     in full_bytes + extra_byte)"

definition unsigned_bytes_needed :: "int_type \<Rightarrow> int \<Rightarrow> nat" where
  "unsigned_bytes_needed t v =
    (let (t, v) = (if signed_type t then (unsigned_pair t, cast (unsigned_pair t) v) else (t, v)) in
     if v = 0 then 1
     else let significant_bits = BITS t - leading_zeros t v in (significant_bits + 7) div 8)"

definition needed_as_be_bytes :: "nat \<Rightarrow> int_type \<Rightarrow> int \<Rightarrow> bool \<Rightarrow> bytes \<times> nat" where
  "needed_as_be_bytes N t v is_signed =
    (let bytes = (if length (to_le_bytes t v) = N then to_le_bytes t v else replicate N 0);
         needed = (if is_signed then signed_bytes_needed t v else unsigned_bytes_needed t v);
         slice_reversed = fold (\<lambda>i s. s[i := bytes ! (needed - 1 - i)]) [0..<needed] (replicate N 0)
     in (slice_reversed, needed))"

definition to_signed_bytes_be :: "int_type \<Rightarrow> int \<Rightarrow> bytes \<times> nat" where
  "to_signed_bytes_be t v =
    (if signed_type t then needed_as_be_bytes (BYTE_WIDTH t) t v True
     else needed_as_be_bytes (BYTE_WIDTH (signed_pair t)) (signed_pair t) (cast (signed_pair t) v) True)"

definition to_unsigned_bytes_be :: "int_type \<Rightarrow> int \<Rightarrow> bytes \<times> nat" where
  "to_unsigned_bytes_be t v =
    (if signed_type t
     then needed_as_be_bytes (BYTE_WIDTH (unsigned_pair t)) (unsigned_pair t) (cast (unsigned_pair t) v) False
     else needed_as_be_bytes (BYTE_WIDTH t) t v False)"

definition wrapping_unsigned_add :: "int_type \<Rightarrow> int \<Rightarrow> int \<Rightarrow> int" where
  "wrapping_unsigned_add t a b =
    (if signed_type t then wrapping_add t a (cast t b) else wrapping_add t a b)"

text \<open>The slice the encoders take of the returned buffer, \<open>&bytes.as_ref()[..needed]\<close>.\<close>

definition needed_slice :: "bytes \<times> nat \<Rightarrow> bytes" where
  "needed_slice r = take (snd r) (fst r)"

section \<open>Integer\<close>

record num =
  num_from_signed_bytes_be :: "bytes \<Rightarrow> int"
  num_from_bytes_be :: "bytes \<Rightarrow> int"
  num_to_signed_bytes_be :: "int \<Rightarrow> bytes"
  num_to_bytes_be :: "int \<Rightarrow> bytes"

text \<open>
  What \<open>num-bigint\<close> documents: octets are read and written big-endian, in two's
  complement for \<open>BigInt\<close>; writing then reading is the identity (on the value
  written), with at least one octet.
\<close>

definition num_documented :: "num \<Rightarrow> bool" where
  "num_documented N \<longleftrightarrow>
    (\<forall>bs. num_from_signed_bytes_be N bs = be_sval bs) \<and>
    (\<forall>bs. num_from_bytes_be N bs = be_val bs) \<and>
    (\<forall>v. num_to_signed_bytes_be N v \<noteq> [] \<and> be_sval (num_to_signed_bytes_be N v) = v) \<and>
    (\<forall>v \<ge> 0. num_to_bytes_be N v \<noteq> [] \<and> be_val (num_to_bytes_be N v) = v)"

datatype integer_kind = Primitive int | Variable int

text \<open>The integer a value denotes; \<open>From<Integer> for BigInt\<close> and \<open>to_bigint\<close>.\<close>

fun to_bigint :: "integer_kind \<Rightarrow> int" where
  "to_bigint (Primitive v) = v"
| "to_bigint (Variable v) = v"

definition op_or_promote :: "int option \<Rightarrow> int \<Rightarrow> integer_kind" where
  "op_or_promote r promote = (case r of Some v \<Rightarrow> Primitive v | None \<Rightarrow> Variable promote)"

fun integer_eq :: "integer_kind \<Rightarrow> integer_kind \<Rightarrow> bool" where
  "integer_eq (Primitive l) (Primitive r) = (l = r)"
| "integer_eq (Variable l) (Variable r) = (l = r)"
| "integer_eq (Primitive l) (Variable r) = (l = r)"
| "integer_eq (Variable l) (Primitive r) = (l = r)"

text \<open>The derived \<open>Ord\<close>: the variants first, then the payloads.\<close>

definition cmp_int :: "int \<Rightarrow> int \<Rightarrow> ordering" where
  "cmp_int a b = (if a < b then Less else if a > b then Greater else Equal)"

fun integer_cmp :: "integer_kind \<Rightarrow> integer_kind \<Rightarrow> ordering" where
  "integer_cmp (Primitive l) (Primitive r) = cmp_int l r"
| "integer_cmp (Variable l) (Variable r) = cmp_int l r"
| "integer_cmp (Primitive l) (Variable r) = Less"
| "integer_cmp (Variable l) (Primitive r) = Greater"

fun integer_checked_add :: "integer_kind \<Rightarrow> integer_kind \<Rightarrow> integer_kind option" where
  "integer_checked_add (Primitive l) (Primitive r) =
    Some (op_or_promote (checked_add Isize l r) (l + r))"
| "integer_checked_add (Primitive l) (Variable r) = Some (Variable (r + l))"
| "integer_checked_add (Variable l) (Primitive r) = Some (Variable (l + r))"
| "integer_checked_add (Variable l) (Variable r) = Some (Variable (l + r))"

fun integer_checked_sub :: "integer_kind \<Rightarrow> integer_kind \<Rightarrow> integer_kind option" where
  "integer_checked_sub (Primitive l) (Primitive r) =
    Some (op_or_promote (checked_sub Isize l r) (l - r))"
| "integer_checked_sub (Primitive l) (Variable r) = Some (Variable (l - r))"
| "integer_checked_sub (Variable l) (Primitive r) = Some (Variable (l - r))"
| "integer_checked_sub (Variable l) (Variable r) = Some (Variable (l - r))"

definition unwrap_or_default :: "integer_kind option \<Rightarrow> integer_kind" where
  "unwrap_or_default r = (case r of Some v \<Rightarrow> v | None \<Rightarrow> Primitive 0)"

definition integer_add :: "integer_kind \<Rightarrow> integer_kind \<Rightarrow> integer_kind" where
  "integer_add a b = unwrap_or_default (integer_checked_add a b)"

definition integer_sub :: "integer_kind \<Rightarrow> integer_kind \<Rightarrow> integer_kind" where
  "integer_sub a b = unwrap_or_default (integer_checked_sub a b)"

text \<open>\<open>Add<$t>\<close> and \<open>Sub<$t>\<close>: the macros for types that always fit \<open>isize\<close> (a cast) and
  for those that may not (\<open>isize::try_from\<close>).\<close>

definition casts_to_isize :: "int_type \<Rightarrow> bool" where
  "casts_to_isize t = (t \<in> {U8, U16, U32, I8, I16, I32, I64, Isize})"

fun integer_add_prim :: "int_type \<Rightarrow> integer_kind \<Rightarrow> int \<Rightarrow> integer_kind" where
  "integer_add_prim t (Primitive l) r =
    (if casts_to_isize t then op_or_promote (checked_add Isize l (cast Isize r)) (l + r)
     else op_or_promote (Option.bind (try_into Isize r) (checked_add Isize l)) (l + r))"
| "integer_add_prim t (Variable l) r = Variable (l + r)"

fun integer_sub_prim :: "int_type \<Rightarrow> integer_kind \<Rightarrow> int \<Rightarrow> integer_kind" where
  "integer_sub_prim t (Primitive l) r =
    (if casts_to_isize t then op_or_promote (checked_sub Isize l (cast Isize r)) (l - r)
     else op_or_promote (Option.bind (try_into Isize r) (checked_sub Isize l)) (l - r))"
| "integer_sub_prim t (Variable l) r = Variable (l - r)"

definition integer_from :: "int_type \<Rightarrow> int \<Rightarrow> integer_kind" where
  "integer_from t v =
    (if casts_to_isize t then Primitive (cast Isize v) else op_or_promote (try_into Isize v) v)"

text \<open>\<open>TryFrom<Integer>\<close> for a primitive type; the error keeps the original value.\<close>

definition try_from_integer :: "int_type \<Rightarrow> integer_kind \<Rightarrow> (int, int) result" where
  "try_from_integer t i = ok_or (to_bigint i) (try_into t (to_bigint i))"

fun integer_to_i64 :: "integer_kind \<Rightarrow> int option" where
  "integer_to_i64 (Primitive v) = Some (cast I64 v)"
| "integer_to_i64 (Variable v) = try_into I64 v"

fun integer_to_u64 :: "integer_kind \<Rightarrow> int option" where
  "integer_to_u64 (Primitive v) = (if v \<ge> 0 then Some (cast U64 v) else None)"
| "integer_to_u64 (Variable v) = try_into U64 v"

fun integer_to_i128 :: "integer_kind \<Rightarrow> int option" where
  "integer_to_i128 (Primitive v) = Some (cast I128 v)"
| "integer_to_i128 (Variable v) = try_into I128 v"

text \<open>\<open>ConstrainedInteger::try_from\<close>.\<close>

definition constrained_try_from ::
    "int \<Rightarrow> int \<Rightarrow> int_type \<Rightarrow> int \<Rightarrow> (int, integer_kind) result" where
  "constrained_try_from START END t v =
    (if cast I128 v \<ge> START \<and> cast I128 v \<le> END then Ok (integer_from t v) else Err v)"

text \<open>\<open>IntegerType for BigInt\<close> and \<open>IntegerType for Integer\<close>.\<close>

definition bigint_try_from_bytes :: "num \<Rightarrow> bytes \<Rightarrow> codec \<Rightarrow> int dec_result" where
  "bigint_try_from_bytes N input c =
    (if input = [] then Err (DecodeError UnexpectedEmptyInput c)
     else Ok (num_from_signed_bytes_be N input))"

definition bigint_try_from_unsigned_bytes :: "num \<Rightarrow> bytes \<Rightarrow> codec \<Rightarrow> int dec_result" where
  "bigint_try_from_unsigned_bytes N input c =
    (if input = [] then Err (DecodeError UnexpectedEmptyInput c)
     else Ok (num_from_bytes_be N input))"

definition bigint_to_signed_bytes_be :: "num \<Rightarrow> int \<Rightarrow> bytes \<times> nat" where
  "bigint_to_signed_bytes_be N v =
    (let bytes = num_to_signed_bytes_be N v in (bytes, length bytes))"

definition bigint_to_unsigned_bytes_be :: "num \<Rightarrow> int \<Rightarrow> bytes \<times> nat" where
  "bigint_to_unsigned_bytes_be N v =
    (let bytes = num_to_bytes_be N (if v \<ge> 0 then v else 0) in (bytes, length bytes))"

definition integer_try_from_bytes :: "num \<Rightarrow> bytes \<Rightarrow> codec \<Rightarrow> integer_kind dec_result" where
  "integer_try_from_bytes N input c =
    (if input = [] then Err (DecodeError UnexpectedEmptyInput c)
     else or_else (map_ok Primitive (try_from_bytes Isize input c))
       (\<lambda>_. map_ok Variable (bigint_try_from_bytes N input c)))"

definition integer_try_from_unsigned_bytes :: "num \<Rightarrow> bytes \<Rightarrow> codec \<Rightarrow> integer_kind dec_result" where
  "integer_try_from_unsigned_bytes N input c =
    (if input = [] then Err (DecodeError UnexpectedEmptyInput c)
     else or_else (map_ok Primitive (try_from_unsigned_bytes Isize input c))
       (\<lambda>_. map_ok Variable (bigint_try_from_unsigned_bytes N input c)))"

fun integer_to_signed_bytes_be :: "num \<Rightarrow> integer_kind \<Rightarrow> bytes \<times> nat" where
  "integer_to_signed_bytes_be N (Primitive v) = to_signed_bytes_be Isize v"
| "integer_to_signed_bytes_be N (Variable v) = bigint_to_signed_bytes_be N v"

text \<open>The \<open>Variable\<close> branch calls \<open>to_signed_bytes_be\<close>.\<close>

fun integer_to_unsigned_bytes_be :: "num \<Rightarrow> integer_kind \<Rightarrow> bytes \<times> nat" where
  "integer_to_unsigned_bytes_be N (Primitive v) = to_unsigned_bytes_be Isize v"
| "integer_to_unsigned_bytes_be N (Variable v) = bigint_to_signed_bytes_be N v"

section \<open>Lemmas\<close>

lemma signed_pair_facts:
  "signed_type (signed_pair t)" "\<not> signed_type (unsigned_pair t)"
  "BITS (unsigned_pair t) = BITS t" "signed_type t \<Longrightarrow> signed_pair t = t"
  "\<not> signed_type t \<Longrightarrow> unsigned_pair t = t"
  by (cases t; simp)+

lemma octet_count:
  fixes lead B m :: nat
  assumes "lead \<le> 8 * B"
  shows "0 < B - lead div 8 + (if lead mod 8 = 0 then 1 else 0)"
    and "0 < lead \<Longrightarrow> 0 < m \<Longrightarrow>
      B - lead div 8 + (if lead mod 8 = 0 then 1 else 0) \<le> m \<longleftrightarrow> 8 * B - lead \<le> 8 * m - 1"
proof -
  define q r where "q = lead div 8" and "r = lead mod 8"
  have l: "lead = 8 * q + r" "r < 8" by (simp_all add: q_def r_def)
  then obtain d where B: "B = q + d" using assms by (metis le_iff_add le_trans le_add1 mult_le_cancel1 zero_less_numeral)
  have "0 < d + (if r = 0 then 1 else 0)" using l assms unfolding B by (cases d) auto
  then show "0 < B - lead div 8 + (if lead mod 8 = 0 then 1 else 0)"
    by (simp add: B q_def [symmetric] r_def [symmetric])
  assume "0 < lead" "0 < m"
  then have "d + (if r = 0 then 1 else 0) \<le> m \<longleftrightarrow> 8 * d - r \<le> 8 * m - 1"
    using l(2) by (cases "r = 0") (simp_all, linarith+)
  then show "B - lead div 8 + (if lead mod 8 = 0 then 1 else 0) \<le> m \<longleftrightarrow> 8 * B - lead \<le> 8 * m - 1"
    by (simp add: B q_def [symmetric] r_def [symmetric]) (simp add: l(1))
qed

lemma signed_bytes_needed_signed:
  assumes "signed_type t" "in_type t v" "0 < m"
  shows "signed_bytes_needed t v \<le> m \<longleftrightarrow> fits_signed m v"
proof -
  define lead where "lead = (if v < 0 then leading_ones t v else leading_zeros t v)"
  have le: "lead \<le> BITS t" by (simp add: lead_def leading_ones_le leading_zeros_le)
  have "(2 :: int) ^ (BITS t - 1) \<le> 2 ^ BITS t" by (intro power_increasing) simp_all
  then have b: "- (2 ^ BITS t) \<le> v" "v < 2 ^ BITS t"
    using assms(2) in_type_signed [OF assms(1), of v] by linarith+
  have iff: "BITS t - lead \<le> k \<longleftrightarrow> - (2 ^ k) \<le> v \<and> v < 2 ^ k" for k
  proof (cases "v < 0")
    case True
    moreover have "v < 2 ^ k" using True by (meson less_trans zero_less_power zero_less_numeral)
    ultimately show ?thesis
      using leading_ones_iff [of v t k] b by (simp add: lead_def)
  next
    case False
    moreover have "- (2 ^ k) \<le> v" using False by (smt (verit) zero_less_power)
    ultimately show ?thesis
      using leading_zeros_iff [of v t k] b by (simp add: lead_def)
  qed
  from iff [of "BITS t - 1"] have "BITS t - lead \<le> BITS t - 1"
    using assms(2) in_type_signed [OF assms(1)] by simp
  then have "0 < lead" using BITS_pos [of t] by linarith
  obtain B where B: "BITS t = 8 * B" using BITS_div8(1) by metis
  have "signed_bytes_needed t v = B - lead div 8 + (if lead mod 8 = 0 then 1 else 0)"
    using assms(1) B by (simp add: signed_bytes_needed_def lead_def BYTE_WIDTH_def)
  moreover have "B - lead div 8 + (if lead mod 8 = 0 then 1 else 0) \<le> m \<longleftrightarrow>
      BITS t - lead \<le> 8 * m - 1"
    using octet_count(2) [of lead B m] \<open>0 < lead\<close> le assms(3) unfolding B by simp
  ultimately show ?thesis using iff [of "8 * m - 1"] by (simp add: fits_signed_def)
qed

lemma unsigned_bytes_needed_unsigned:
  assumes "\<not> signed_type t" "in_type t v" "0 < m"
  shows "unsigned_bytes_needed t v \<le> m \<longleftrightarrow> v < 256 ^ m"
proof (cases "v = 0")
  case False
  have "BITS t - leading_zeros t v \<le> 8 * m \<longleftrightarrow> v < 256 ^ m"
    using leading_zeros_iff [of v t "8 * m"] assms(1,2) by (simp add: in_type_unsigned pow256)
  moreover have "(x + 7) div 8 \<le> m \<longleftrightarrow> x \<le> 8 * m" for x :: nat by linarith
  ultimately show ?thesis using False assms(1) by (simp add: unsigned_bytes_needed_def)
qed (use assms in \<open>simp add: unsigned_bytes_needed_def\<close>)

lemma signed_bytes_needed_pos: "signed_type t \<Longrightarrow> 0 < signed_bytes_needed t v"
proof -
  assume t: "signed_type t"
  define lead where "lead = (if v < 0 then leading_ones t v else leading_zeros t v)"
  have "lead \<le> BITS t" by (simp add: lead_def leading_ones_le leading_zeros_le)
  moreover obtain B where B: "BITS t = 8 * B" using BITS_div8(1) by metis
  ultimately have "0 < B - lead div 8 + (if lead mod 8 = 0 then 1 else 0)"
    using octet_count(1) by simp
  moreover have "signed_bytes_needed t v = B - lead div 8 + (if lead mod 8 = 0 then 1 else 0)"
    using t B by (simp add: signed_bytes_needed_def lead_def BYTE_WIDTH_def)
  ultimately show ?thesis by simp
qed

lemma signed_bytes_needed_le:
  assumes "signed_type t" "in_type t v"
  shows "signed_bytes_needed t v \<le> BYTE_WIDTH t"
  using assms in_type_signed [OF assms(1), of v]
  by (subst signed_bytes_needed_signed) (simp_all add: fits_signed_def BYTE_WIDTH_def BITS_div8)

lemma unsigned_bytes_needed_pos:
  assumes "\<not> signed_type t" "in_type t v"
  shows "0 < unsigned_bytes_needed t v"
proof (cases "v = 0")
  case False
  then have "\<not> v < 2 ^ 0" using assms by (simp add: in_type_unsigned)
  then have "0 < BITS t - leading_zeros t v"
    using leading_zeros_iff [of v t 0] assms by (simp add: in_type_unsigned)
  then show ?thesis using False assms(1) by (simp add: unsigned_bytes_needed_def)
qed (use assms in \<open>simp add: unsigned_bytes_needed_def\<close>)

lemma unsigned_bytes_needed_le:
  assumes "\<not> signed_type t" "in_type t v"
  shows "unsigned_bytes_needed t v \<le> BYTE_WIDTH t"
  using assms in_type_unsigned [OF assms(1), of v]
  by (subst unsigned_bytes_needed_unsigned) (simp_all add: BYTE_WIDTH_def pow256 BITS_div8)

text \<open>The reversing copy produces the low octets in big-endian order.\<close>

lemma fold_list_update:
  "n \<le> length xs \<Longrightarrow> fold (\<lambda>i s. s[i := f i]) [0..<n] xs = map f [0..<n] @ drop n xs"
proof (induction n)
  case (Suc n)
  then have "drop n xs = xs ! n # drop (Suc n) xs" by (simp add: Cons_nth_drop_Suc)
  with Suc show ?case by (simp add: list_update_append)
qed simp

lemma needed_slice_be_bytes:
  assumes "N = BYTE_WIDTH t"
    "(if s then signed_bytes_needed t v else unsigned_bytes_needed t v) \<le> N"
  shows "needed_slice (needed_as_be_bytes N t v s) =
    be_bytes (if s then signed_bytes_needed t v else unsigned_bytes_needed t v) v"
proof -
  define n where "n = (if s then signed_bytes_needed t v else unsigned_bytes_needed t v)"
  have n: "n \<le> N" "n \<le> BITS t div 8" using assms by (simp_all add: n_def BYTE_WIDTH_def)
  have "needed_slice (needed_as_be_bytes N t v s) =
      map (\<lambda>i. to_le_bytes t v ! (n - 1 - i)) [0..<n]"
    using assms(1) n
    by (simp add: needed_as_be_bytes_def needed_slice_def fold_list_update to_le_bytes_def
        BYTE_WIDTH_def n_def [symmetric] Let_def)
  also have "\<dots> = be_bytes n v"
    using n by (intro nth_equalityI) (auto simp: nth_be_bytes to_le_bytes_def)
  finally show ?thesis by (simp add: n_def)
qed

lemma length_needed_as_be_bytes: "length (fst (needed_as_be_bytes N t v s)) = N"
proof -
  have "length (fold (\<lambda>i s. s[i := f i]) is xs) = length xs" for f :: "nat \<Rightarrow> u8" and "is" xs
    by (induction "is" arbitrary: xs) simp_all
  then show ?thesis by (simp add: needed_as_be_bytes_def Let_def)
qed

lemma needed_slice_signed:
  assumes "signed_type t" "in_type t v"
  shows "needed_slice (to_signed_bytes_be t v) = be_bytes (signed_bytes_needed t v) v"
  using needed_slice_be_bytes [of _ t True v] signed_bytes_needed_le [OF assms] assms(1)
  by (simp add: to_signed_bytes_be_def)

lemma needed_slice_unsigned:
  assumes "\<not> signed_type t" "in_type t v"
  shows "needed_slice (to_unsigned_bytes_be t v) = be_bytes (unsigned_bytes_needed t v) v"
  using needed_slice_be_bytes [of _ t False v] unsigned_bytes_needed_le [OF assms] assms(1)
  by (simp add: to_unsigned_bytes_be_def)

text \<open>An unsigned value seen through its signed pair keeps its value, except \<open>u128\<close>
  from \<open>2 ^ 127\<close> on.\<close>

lemma cast_signed_pair:
  assumes "in_type t v" "t = U128 \<Longrightarrow> v < 2 ^ 127"
  shows "in_type (signed_pair t) v" "cast (signed_pair t) v = v"
proof -
  show "in_type (signed_pair t) v"
    using assms by (cases t) (simp_all add: in_type_def type_min_def type_max_def)
  then show "cast (signed_pair t) v = v" by simp
qed

lemma to_signed_bytes_pair:
  assumes "in_type t v" "t = U128 \<Longrightarrow> v < 2 ^ 127"
  shows "to_signed_bytes_be t v = to_signed_bytes_be (signed_pair t) v"
  using cast_signed_pair [OF assms] signed_pair_facts [of t] by (simp add: to_signed_bytes_be_def)

lemma to_unsigned_bytes_pair:
  assumes "in_type t v" "0 \<le> v"
  shows "to_unsigned_bytes_be t v = to_unsigned_bytes_be (unsigned_pair t) v"
    "in_type (unsigned_pair t) v"
proof -
  show u: "in_type (unsigned_pair t) v"
    using assms by (cases t) (simp_all add: in_type_def type_min_def type_max_def)
  then show "to_unsigned_bytes_be t v = to_unsigned_bytes_be (unsigned_pair t) v"
    using signed_pair_facts [of t] by (simp add: to_unsigned_bytes_be_def)
qed

lemma signed_slice_props:
  assumes "in_type t v" "t = U128 \<Longrightarrow> v < 2 ^ 127"
  defines "bs \<equiv> needed_slice (to_signed_bytes_be t v)"
  shows "be_sval bs = v" "bs \<noteq> []" "length bs \<le> BYTE_WIDTH (signed_pair t)"
    "\<And>m. 0 < m \<Longrightarrow> fits_signed m v \<Longrightarrow> length bs \<le> m"
proof -
  let ?t = "signed_pair t"
  have t: "signed_type ?t" "in_type ?t v"
    using cast_signed_pair [OF assms(1,2)] signed_pair_facts(1) by simp_all
  have bs: "bs = be_bytes (signed_bytes_needed ?t v) v"
    using needed_slice_signed [OF t] to_signed_bytes_pair [OF assms(1,2)] by (simp add: bs_def)
  have pos: "0 < signed_bytes_needed ?t v" using signed_bytes_needed_pos [OF t(1)] .
  then show "be_sval bs = v"
    using signed_bytes_needed_signed [OF t pos] bs be_sval_be_bytes by simp
  show "bs \<noteq> []" using bs pos by (metis length_be_bytes less_irrefl list.size(3))
  show "length bs \<le> BYTE_WIDTH ?t" using signed_bytes_needed_le [OF t] bs by simp
  show "length bs \<le> m" if "0 < m" "fits_signed m v" for m
    using signed_bytes_needed_signed [OF t that(1)] that(2) bs by simp
qed

lemma unsigned_slice_props:
  assumes "in_type t v" "0 \<le> v"
  defines "bs \<equiv> needed_slice (to_unsigned_bytes_be t v)"
  shows "be_val bs = v" "bs \<noteq> []" "length bs \<le> BYTE_WIDTH t"
    "\<And>m. 0 < m \<Longrightarrow> v < 256 ^ m \<Longrightarrow> length bs \<le> m"
proof -
  let ?t = "unsigned_pair t"
  have t: "\<not> signed_type ?t" "in_type ?t v"
    using to_unsigned_bytes_pair [OF assms(1,2)] signed_pair_facts(2) by simp_all
  have bs: "bs = be_bytes (unsigned_bytes_needed ?t v) v"
    using needed_slice_unsigned [OF t] to_unsigned_bytes_pair [OF assms(1,2)] by (simp add: bs_def)
  have pos: "0 < unsigned_bytes_needed ?t v" using unsigned_bytes_needed_pos [OF t] .
  then have "v < 256 ^ unsigned_bytes_needed ?t v"
    using unsigned_bytes_needed_unsigned [OF t pos] by simp
  then show "be_val bs = v" using bs assms(2) by (simp add: be_val_be_bytes)
  show "bs \<noteq> []" using bs pos by (metis length_be_bytes less_irrefl list.size(3))
  show "length bs \<le> BYTE_WIDTH t"
    using unsigned_bytes_needed_le [OF t] bs by (simp add: BYTE_WIDTH_def signed_pair_facts)
  show "length bs \<le> m" if "0 < m" "v < 256 ^ m" for m
    using unsigned_bytes_needed_unsigned [OF t that(1)] that(2) bs by simp
qed

text \<open>The shift-and-or loops compute the big-endian value.\<close>

lemma or_disjoint: "r OR push_bit n b = r + push_bit n b"
  if "take_bit (n + 8) r = 0" "0 \<le> b" "b < 256" for r b :: int
proof -
  have "take_bit 8 b = b" using that by (simp add: take_bit_int_eq_self_iff)
  then have "\<not> bit b i" if "8 \<le> i" for i using that by (metis bit_take_bit_iff not_le)
  moreover have "\<not> bit r i" if "i < n + 8" for i
    using that \<open>take_bit (n + 8) r = 0\<close> by (metis bit_0_eq bit_take_bit_iff bot_apply bot_bool_def)
  ultimately have "r AND push_bit n b = 0"
    by (intro bit_eqI) (auto simp: bit_and_iff bit_push_bit_iff, metis le_diff_conv2 not_le add.commute)
  then show ?thesis by (simp add: disjunctive_add_eq_or)
qed

lemma shift_or_loop:
  assumes "take_bit (8 * length bs) r = 0"
    "\<forall>b \<in> set bs. \<forall>j < length bs. shl t (cast t (uint b)) (8 * j) = push_bit (8 * j) (uint b)"
    "\<And>i. i < length bs \<Longrightarrow> sh (i + k) = 8 * (length bs - 1 - i)"
  shows "fold (\<lambda>(i, byte) result. result OR shl t (cast t (uint byte)) (sh i)) (enumerate k bs) r =
    r + be_val bs"
  using assms
proof (induction bs arbitrary: r k)
  case (Cons b bs)
  let ?r = "r OR push_bit (8 * length bs) (uint b)"
  have sh: "shl t (cast t (uint b)) (sh k) = push_bit (8 * length bs) (uint b)"
    using Cons.prems(2) Cons.prems(3) [of 0] by simp
  have r: "?r = r + push_bit (8 * length bs) (uint b)"
    using Cons.prems(1) uint_byte_bounds by (intro or_disjoint) (simp_all add: algebra_simps)
  have "take_bit (8 * length bs) r = 0"
    using Cons.prems(1) by (metis take_bit_of_0 take_bit_take_bit min.absorb1 length_Cons
        le_SucI mult_le_mono2 order_refl)
  then have "take_bit (8 * length bs) ?r = 0" by (simp add: take_bit_push_bit)
  moreover have "sh (i + Suc k) = 8 * (length bs - 1 - i)" if "i < length bs" for i
    using Cons.prems(3) [of "Suc i"] that by simp
  ultimately have "fold (\<lambda>(i, byte) result. result OR shl t (cast t (uint byte)) (sh i))
      (enumerate (Suc k) bs) ?r = ?r + be_val bs"
    using Cons.prems(2) by (intro Cons.IH) auto
  then show ?case
    using sh r by (simp add: be_val_Cons push_bit_eq_mult pow256)
qed simp

lemma from_unsigned_bytes_eq:
  assumes "\<not> signed_type t"
  shows "from_unsigned_bytes t bs c =
    (if bs = [] then Err (DecodeError UnexpectedEmptyInput c)
     else if BYTE_WIDTH t < length bs then Err (DecodeError (IntegerOverflow (BITS t)) c)
     else Ok (be_val bs))"
proof -
  have "shl t (cast t (uint b)) (8 * j) = push_bit (8 * j) (uint b)"
    if "j < length bs" "length bs \<le> BYTE_WIDTH t" for b :: u8 and j
  proof -
    have "8 + 8 * j \<le> BITS t" using that BITS_div8(1) [of t] by (simp add: BYTE_WIDTH_def)
    then have "(2 :: int) ^ 8 * 2 ^ (8 * j) \<le> 2 ^ BITS t" by (metis power_add power_increasing one_le_numeral)
    moreover have "uint b * 2 ^ (8 * j) < 2 ^ 8 * 2 ^ (8 * j)" using uint_byte_bounds(2) [of b] by simp
    ultimately have "uint b * 2 ^ (8 * j) < 2 ^ BITS t" by linarith
    then have "in_type t (push_bit (8 * j) (uint b))"
      using assms by (simp add: in_type_unsigned push_bit_eq_mult)
    moreover have "in_type t (uint b)"
      using uint_byte_bounds [of b] assms by (cases t) (simp_all add: in_type_unsigned)
    ultimately show ?thesis by (simp add: shl_def)
  qed
  then have "fold (\<lambda>(i, byte) result. result OR shl t (cast t (uint byte)) ((length bs - 1) * 8 - i * 8))
      (enumerate 0 bs) 0 = 0 + be_val bs" if "length bs \<le> BYTE_WIDTH t"
    using that by (intro shift_or_loop) auto
  then show ?thesis by (simp add: from_unsigned_bytes_def BYTE_WIDTH_def Let_def)
qed

lemma first_signed_byte:
  assumes "signed_type t" "0 < n" "n \<le> BYTE_WIDTH t"
  shows "shr t (shl t (cast t (uint b)) ((BYTE_WIDTH t - 1) * 8)) ((BYTE_WIDTH t - n) * 8) =
    sint (b :: u8) * 256 ^ (n - 1)"
proof -
  let ?k = "(BYTE_WIDTH t - 1) * 8"
  have k: "BITS t = 8 + ?k" "BITS t - 1 = 7 + ?k"
    using assms BITS_div8(1) [of t] by (simp_all add: BYTE_WIDTH_def)
  have s: "- 128 \<le> sint b" "sint b \<le> 127"
    using sint_range_size [of b] by (simp_all add: word_size)
  have "shl t (cast t (uint b)) ?k = sint b * 2 ^ ?k"
    unfolding shl_def cast_eq_iff_mod
  proof
    have "(- 128) * 2 ^ ?k \<le> sint b * 2 ^ ?k" "sint b * 2 ^ ?k \<le> 127 * 2 ^ ?k"
      using s by (intro mult_right_mono; simp)+
    then show "in_type t (sint b * 2 ^ ?k)"
      unfolding in_type_signed [OF assms(1)] k(2) power_add by simp
    have "cast t (uint b) mod 2 ^ BITS t = uint b mod 2 ^ BITS t"
      using cast_eq_iff_mod [of t "uint b" "cast t (uint b)"] by simp
    then have "cast t (uint b) mod 2 ^ 8 = uint b mod 2 ^ 8"
      using k(1) by (metis (no_types, opaque_lifting) le_add1 mod_mod_cancel power_le_dvd dvd_refl)
    also have "\<dots> = sint b mod 2 ^ 8"
      using uint_sint [of b] by (simp add: take_bit_eq_mod)
    finally show "push_bit ?k (cast t (uint b)) mod 2 ^ BITS t = sint b * 2 ^ ?k mod 2 ^ BITS t"
      unfolding k(1) power_add push_bit_eq_mult
      by (simp only: mult_mod_left [symmetric] mod_mult_mult2)
  qed
  moreover have "?k = (BYTE_WIDTH t - n) * 8 + 8 * (n - 1)"
    using assms by (simp add: algebra_simps)
  ultimately show ?thesis
    by (simp add: shr_def drop_bit_eq_div power_add pow256 mult.assoc [symmetric] mult.commute [of "2 ^ _" "2 ^ _"])
qed

lemma from_signed_bytes_eq:
  assumes "signed_type t"
  shows "from_signed_bytes t bs c =
    (if bs = [] then Err (DecodeError UnexpectedEmptyInput c)
     else if BYTE_WIDTH t < length bs then Err (DecodeError (IntegerOverflow (BITS t)) c)
     else Ok (be_sval bs))"
proof (cases bs)
  case (Cons b cs)
  have sh: "shl t (cast t (uint x)) (8 * j) = push_bit (8 * j) (uint x)"
    if "j < length cs" "length bs \<le> BYTE_WIDTH t" for x :: u8 and j
  proof -
    have "15 + 8 * j \<le> BITS t - 1"
      using that BITS_div8(1) [of t] Cons by (simp add: BYTE_WIDTH_def)
    then have "(2 :: int) ^ 15 * 2 ^ (8 * j) \<le> 2 ^ (BITS t - 1)"
      by (metis power_add power_increasing one_le_numeral)
    moreover have "(2 :: int) ^ 15 \<le> 2 ^ (BITS t - 1)"
      using \<open>15 + 8 * j \<le> BITS t - 1\<close> by (intro power_increasing) auto
    moreover have "uint x * 2 ^ (8 * j) < 2 ^ 15 * 2 ^ (8 * j)" "uint x < 2 ^ 15"
      using uint_byte_bounds(2) [of x] by simp_all
    ultimately have "in_type t (push_bit (8 * j) (uint x))" "in_type t (uint x)"
      using assms uint_byte_bounds(1) [of x] unfolding in_type_signed [OF assms] push_bit_eq_mult
      by (smt (verit) zero_le_power mult_nonneg_nonneg)+
    then show ?thesis by (simp add: shl_def)
  qed
  have "fold (\<lambda>(i, byte) result. result OR shl t (cast t (uint byte)) (8 * (length bs - 2 - i)))
      (enumerate 0 cs) (sint b * 256 ^ length cs) = sint b * 256 ^ length cs + be_val cs"
    if "length bs \<le> BYTE_WIDTH t"
    using that sh Cons by (intro shift_or_loop) (auto simp: pow256 take_bit_eq_mod)
  then show ?thesis
    using Cons first_signed_byte [OF assms, of "length bs" b]
    by (auto simp: from_signed_bytes_def BYTE_WIDTH_def Let_def)
qed (simp add: from_signed_bytes_def)

text \<open>The four instances together, and the round trips the codecs rely on.\<close>

lemma try_from_signed_bytes_Ok:
  "try_from_signed_bytes t bs c = Inr v \<longleftrightarrow>
    bs \<noteq> [] \<and> length bs \<le> BYTE_WIDTH (signed_pair t) \<and> be_sval bs = v \<and>
    (signed_type t \<or> in_type t v)"
  using signed_pair_facts [of t]
  by (auto simp: try_from_signed_bytes_def from_signed_bytes_eq result_iff split: if_splits)

lemma try_from_unsigned_bytes_Ok:
  "try_from_unsigned_bytes t bs c = Inr v \<longleftrightarrow>
    bs \<noteq> [] \<and> length bs \<le> BYTE_WIDTH t \<and> be_val bs = v \<and> (\<not> signed_type t \<or> in_type t v)"
  using signed_pair_facts [of t]
  by (auto simp: try_from_unsigned_bytes_def from_unsigned_bytes_eq result_iff BYTE_WIDTH_def
      split: if_splits)

lemma be_sval_in_type:
  assumes "bs \<noteq> []" "length bs \<le> BYTE_WIDTH t" "signed_type t"
  shows "in_type t (be_sval bs)"
proof -
  have "8 * length bs - 1 \<le> BITS t - 1"
    using assms(2) BITS_div8(1) [of t] by (simp add: BYTE_WIDTH_def)
  then have "(2 :: int) ^ (8 * length bs - 1) \<le> 2 ^ (BITS t - 1)" by (intro power_increasing) auto
  then show ?thesis
    using be_sval_fits [OF assms(1)] unfolding in_type_signed [OF assms(3)] fits_signed_def
    by linarith
qed

lemma signed_bytes_roundtrip:
  assumes "in_type t v" "t = U128 \<Longrightarrow> v < 2 ^ 127"
  shows "try_from_signed_bytes t (needed_slice (to_signed_bytes_be t v)) c = Inr v"
  using signed_slice_props(1-3) [OF assms] assms(1) by (simp add: try_from_signed_bytes_Ok)

lemma unsigned_bytes_roundtrip:
  assumes "in_type t v" "0 \<le> v"
  shows "try_from_unsigned_bytes t (needed_slice (to_unsigned_bytes_be t v)) c = Inr v"
  using unsigned_slice_props(1-3) [OF assms] assms(1) by (simp add: try_from_unsigned_bytes_Ok)

lemma op_or_promote_try_into [simp]: "to_bigint (op_or_promote (try_into t v) v) = v"
  by (simp add: op_or_promote_def try_into_def)

lemma casts_to_isize_id: "casts_to_isize t \<Longrightarrow> in_type t v \<Longrightarrow> in_type Isize v"
  by (auto simp: casts_to_isize_def in_type_def type_min_def type_max_def)

definition integer_wf :: "integer_kind \<Rightarrow> bool" where
  "integer_wf i = (case i of Primitive v \<Rightarrow> in_type Isize v | Variable _ \<Rightarrow> True)"

lemma op_or_promote_wf [simp]: "integer_wf (op_or_promote (try_into Isize v) w)"
  by (simp add: integer_wf_def op_or_promote_def try_into_def)

text \<open>A concrete \<open>num\<close>: shortest two's complement and shortest unsigned octets.\<close>

function signed_len :: "int \<Rightarrow> nat" where
  "signed_len v = (if - 128 \<le> v \<and> v < 128 then 1 else Suc (signed_len (v div 256)))"
  by auto
termination
  by (relation "measure (\<lambda>v. nat \<bar>v\<bar>)") (auto simp: nat_less_eq_zless)

function unsigned_len :: "int \<Rightarrow> nat" where
  "unsigned_len v = (if v < 256 then 1 else Suc (unsigned_len (v div 256)))"
  by auto
termination
  by (relation "measure (\<lambda>v. nat \<bar>v\<bar>)") auto

declare signed_len.simps [simp del] unsigned_len.simps [simp del]

definition ref_num :: num where
  "ref_num =
    \<lparr>num_from_signed_bytes_be = be_sval, num_from_bytes_be = be_val,
     num_to_signed_bytes_be = (\<lambda>v. be_bytes (signed_len v) v),
     num_to_bytes_be = (\<lambda>v. be_bytes (unsigned_len v) v)\<rparr>"

lemma signed_len_fits: "0 < signed_len v \<and> fits_signed (signed_len v) v"
proof (induction v rule: signed_len.induct)
  case (1 v)
  show ?case
  proof (cases "- 128 \<le> v \<and> v < 128")
    case True
    then show ?thesis by (subst (1 2) signed_len.simps) (simp add: fits_signed_def)
  next
    case False
    define n where "n = signed_len (v div 256)"
    with 1 False have n: "0 < n" "fits_signed n (v div 256)" by blast+
    have "8 * Suc n - 1 = 8 + (8 * n - 1)" using n(1) by simp
    then have "(2 :: int) ^ (8 * Suc n - 1) = 256 * 2 ^ (8 * n - 1)"
      by (simp only: power_add) simp
    with n(2) have "fits_signed (Suc n) v" unfolding fits_signed_def by linarith
    moreover have "signed_len v = Suc n" using signed_len.simps [of v] False by (simp only: if_False n_def)
    ultimately show ?thesis by simp
  qed
qed

lemma unsigned_len_fits: "0 \<le> v \<Longrightarrow> 0 < unsigned_len v \<and> v < 256 ^ unsigned_len v"
proof (induction v rule: unsigned_len.induct)
  case (1 v)
  show ?case
  proof (cases "v < 256")
    case True
    then show ?thesis by (subst (1 2) unsigned_len.simps) simp
  next
    case False
    with 1 have "v div 256 < 256 ^ unsigned_len (v div 256)" by simp
    then have "v < 256 * 256 ^ unsigned_len (v div 256)" by linarith
    then show ?thesis using False by (subst (1 2) unsigned_len.simps) simp
  qed
qed

lemma be_bytes_not_Nil: "0 < n \<Longrightarrow> be_bytes n v \<noteq> []"
  by (metis length_be_bytes less_irrefl list.size(3))

lemma ref_num_documented: "num_documented ref_num"
  using signed_len_fits unsigned_len_fits
  by (simp add: num_documented_def ref_num_def be_sval_be_bytes be_val_be_bytes be_bytes_not_Nil)

section \<open>Properties\<close>

text \<open>C29: \<open>to_signed_bytes_be\<close>, for every value of a primitive type but those of \<open>u128\<close> from
  \<open>2 ^ 127\<close> on, which the cast to \<open>i128\<close> changes: the returned slice is the two's complement
  encoding of the value, and no shorter one exists.\<close>

theorem to_signed_bytes_minimal:
  assumes "in_type t v" "t = U128 \<Longrightarrow> v < 2 ^ 127"
  shows "be_sval (needed_slice (to_signed_bytes_be t v)) = v \<and>
    (\<forall>bs. bs \<noteq> [] \<and> be_sval bs = v \<longrightarrow>
      length (needed_slice (to_signed_bytes_be t v)) \<le> length bs)"
  using signed_slice_props(1) [OF assms] signed_slice_props(4) [OF assms] be_sval_fits by fastforce

theorem to_signed_bytes_minimal_witness:
  "be_sval (needed_slice (to_signed_bytes_be U8 200)) = 200 \<and>
    length (needed_slice (to_signed_bytes_be U8 200)) \<le> length ([0, 200] :: u8 list)"
proof -
  have "be_sval ([0, 200] :: u8 list) = 200" by code_simp
  moreover have "in_type U8 200" "U8 = U128 \<Longrightarrow> (200 :: int) < 2 ^ 127"
    by (simp_all add: in_type_def type_min_def type_max_def)
  note m = to_signed_bytes_minimal [OF this]
  ultimately show ?thesis using conjunct1 [OF m] spec [OF conjunct2 [OF m], of "[0, 200]"] by blast
qed

text \<open>\<open>to_unsigned_bytes_be\<close> on non-negative values: the shortest big-endian encoding.\<close>

theorem to_unsigned_bytes_minimal:
  assumes "in_type t v" "0 \<le> v"
  shows "be_val (needed_slice (to_unsigned_bytes_be t v)) = v \<and>
    (\<forall>bs. bs \<noteq> [] \<and> be_val bs = v \<longrightarrow>
      length (needed_slice (to_unsigned_bytes_be t v)) \<le> length bs)"
  using unsigned_slice_props(1) [OF assms] unsigned_slice_props(4) [OF assms] be_val_less by fastforce

theorem to_unsigned_bytes_minimal_witness:
  "be_val (needed_slice (to_unsigned_bytes_be I32 300)) = 300 \<and>
    length (needed_slice (to_unsigned_bytes_be I32 300)) \<le> length ([1, 44] :: u8 list)"
proof -
  have "be_val ([1, 44] :: u8 list) = 300" by code_simp
  moreover have "in_type I32 300" "0 \<le> (300 :: int)"
    by (simp_all add: in_type_def type_min_def type_max_def)
  note m = to_unsigned_bytes_minimal [OF this]
  ultimately show ?thesis using conjunct1 [OF m] spec [OF conjunct2 [OF m], of "[1, 44]"] by blast
qed

text \<open>C30: \<open>try_from_signed_bytes\<close>, every primitive type and every input: no octets and
  too many octets are errors; otherwise the two's complement value is returned if the
  type holds it, and a conversion error if it does not.\<close>

theorem try_from_signed_bytes_spec:
  "try_from_signed_bytes t bs c =
    (if bs = [] then Err (DecodeError UnexpectedEmptyInput c)
     else if BYTE_WIDTH (signed_pair t) < length bs
       then Err (DecodeError (IntegerOverflow (BITS (signed_pair t))) c)
     else if signed_type t \<or> in_type t (be_sval bs) then Ok (be_sval bs)
     else Err (DecodeError IntegerTypeConversionFailed c))"
  using signed_pair_facts [of t]
  by (auto simp: try_from_signed_bytes_def from_signed_bytes_eq try_into_def)

text \<open>Decoding the octets that the encoder wrote returns the value: the signed octets for every
  value of a primitive type but those of \<open>u128\<close> from \<open>2 ^ 127\<close> on, the unsigned octets for every
  value that is not negative.\<close>

lemma integer_bytes_roundtrip:
  assumes "in_type t v"
  shows "(t \<noteq> U128 \<or> v < 2 ^ 127 \<longrightarrow>
      try_from_signed_bytes t (needed_slice (to_signed_bytes_be t v)) c = Ok v) \<and>
    (0 \<le> v \<longrightarrow> try_from_unsigned_bytes t (needed_slice (to_unsigned_bytes_be t v)) c = Ok v)"
  using signed_bytes_roundtrip [OF assms] unsigned_bytes_roundtrip [OF assms] by blast

text \<open>C32: the arithmetic of \<open>Integer\<close> is exact: \<open>+\<close> and \<open>-\<close> between integers, and with a
  primitive operand, denote the sum and the difference and keep a \<open>Primitive\<close> within
  \<open>isize\<close>; overflow promotes to \<open>Variable\<close>.\<close>

theorem integer_arithmetic_exact:
  assumes "integer_wf a" "integer_wf b" "in_type t r"
  shows "to_bigint (integer_add a b) = to_bigint a + to_bigint b \<and> integer_wf (integer_add a b) \<and>
    to_bigint (integer_sub a b) = to_bigint a - to_bigint b \<and> integer_wf (integer_sub a b) \<and>
    to_bigint (integer_add_prim t a r) = to_bigint a + r \<and> integer_wf (integer_add_prim t a r) \<and>
    to_bigint (integer_sub_prim t a r) = to_bigint a - r \<and> integer_wf (integer_sub_prim t a r)"
  using assms casts_to_isize_id [of t r]
  by (cases a; cases b) (auto simp: integer_add_def integer_sub_def unwrap_or_default_def
      checked_add_def checked_sub_def try_into_def op_or_promote_def integer_wf_def)

theorem integer_arithmetic_exact_witness:
  "to_bigint (integer_add (Primitive (2 ^ 63 - 1)) (Primitive 1)) = 2 ^ 63"
  using integer_arithmetic_exact [of "Primitive (2 ^ 63 - 1)" "Primitive 1" U8 0]
  by (simp add: integer_wf_def in_type_def type_min_def type_max_def)

text \<open>\<open>Integer\<close> round trips through its signed octets, small values in \<open>isize\<close> and large
  ones through \<open>BigInt\<close>.\<close>

theorem integer_signed_roundtrip:
  assumes "num_documented N" "integer_wf i"
  shows "\<exists>j. integer_try_from_bytes N (needed_slice (integer_to_signed_bytes_be N i)) c = Ok j \<and>
    integer_eq j i \<and> integer_wf j"
proof (cases i)
  case (Primitive v)
  then have v: "in_type Isize v" using assms(2) by (simp add: integer_wf_def)
  then have "try_from_signed_bytes Isize (needed_slice (to_signed_bytes_be Isize v)) c = Inr v"
    "needed_slice (to_signed_bytes_be Isize v) \<noteq> []"
    using signed_bytes_roundtrip [OF v, of c] signed_slice_props(2) [OF v] by simp_all
  then show ?thesis
    using Primitive v by (simp add: integer_try_from_bytes_def try_from_bytes_def integer_wf_def)
next
  case (Variable v)
  define bs where "bs = num_to_signed_bytes_be N v"
  have bs: "bs \<noteq> []" "be_sval bs = v" "num_from_signed_bytes_be N bs = v"
    "needed_slice (integer_to_signed_bytes_be N i) = bs"
    using assms(1) Variable
    by (simp_all add: bs_def num_documented_def bigint_to_signed_bytes_be_def needed_slice_def Let_def)
  show ?thesis
  proof (cases "length bs \<le> BYTE_WIDTH Isize")
    case True
    then have "try_from_bytes Isize bs c = Inr v" "in_type Isize v"
      using be_sval_in_type [OF bs(1), of Isize] bs(1,2)
      by (simp_all add: try_from_bytes_def try_from_signed_bytes_Ok)
    then show ?thesis
      using bs Variable by (simp add: integer_try_from_bytes_def integer_wf_def)
  next
    case False
    then have "\<exists>e. try_from_bytes Isize bs c = Inl e"
      using bs(1) by (simp add: try_from_bytes_def try_from_signed_bytes_def from_signed_bytes_eq)
    then show ?thesis
      using bs Variable
      by (auto simp: integer_try_from_bytes_def integer_wf_def bigint_try_from_bytes_def)
  qed
qed

theorem integer_signed_roundtrip_witness:
  "\<exists>j. integer_try_from_bytes ref_num (needed_slice (integer_to_signed_bytes_be ref_num (Variable (2 ^ 70)))) Der
      = Ok j \<and> integer_eq j (Variable (2 ^ 70)) \<and> integer_wf j"
  by (rule integer_signed_roundtrip) (simp_all add: ref_num_documented integer_wf_def)

text \<open>The derived order of \<open>Integer\<close> is not the order of the integers: it puts every
  \<open>Primitive\<close> below every \<open>Variable\<close>, so it contradicts the hand-written equality and
  the values.\<close>

lemma integer_cmp_not_numeric:
  "integer_eq (Primitive 0) (Variable 0) \<and> integer_cmp (Primitive 0) (Variable 0) \<noteq> Equal \<and>
   integer_cmp (Primitive 0) (Variable (- (2 ^ 70))) = Less \<and> to_bigint (Variable (- (2 ^ 70))) < 0"
  by simp

text \<open>\<open>Integer::to_unsigned_bytes_be\<close> returns the signed octets of a \<open>Variable\<close>:
  \<open>2 ^ 64 - 1\<close> takes nine octets, where the trait promises the minimum (eight).\<close>

theorem integer_unsigned_not_minimal:
  assumes "num_documented N"
  shows "9 \<le> length (needed_slice (integer_to_unsigned_bytes_be N (Variable (2 ^ 64 - 1)))) \<and>
    be_val [255, 255, 255, 255, 255, 255, 255, 255] = 2 ^ 64 - 1"
proof
  let ?bs = "num_to_signed_bytes_be N (2 ^ 64 - 1)"
  have bs: "?bs \<noteq> []" "be_sval ?bs = 2 ^ 64 - 1" using assms by (simp_all add: num_documented_def)
  have "9 \<le> length ?bs"
  proof (rule ccontr)
    assume "\<not> 9 \<le> length ?bs"
    then have "in_type I64 (be_sval ?bs)"
      using be_sval_in_type [OF bs(1), of I64] by (simp add: BYTE_WIDTH_def)
    then show False using bs(2) by (simp add: in_type_def type_max_def)
  qed
  then show "9 \<le> length (needed_slice (integer_to_unsigned_bytes_be N (Variable (2 ^ 64 - 1))))"
    by (simp add: bigint_to_signed_bytes_be_def needed_slice_def Let_def)
  show "be_val [255, 255, 255, 255, 255, 255, 255, 255] = 2 ^ 64 - 1" by (simp add: be_val_def)
qed

theorem integer_unsigned_not_minimal_witness:
  "9 \<le> length (needed_slice (integer_to_unsigned_bytes_be ref_num (Variable (2 ^ 64 - 1)))) \<and>
    be_val [255, 255, 255, 255, 255, 255, 255, 255] = 2 ^ 64 - 1"
  by (rule integer_unsigned_not_minimal) (rule ref_num_documented)

end
