(* ===== verification/Ber_Common.thy ===== *)
theory Ber_Common
  imports Integers
begin

text \<open>
  \<open>ber/identifier.rs\<close>, \<open>ber/rules.rs\<close>, \<open>ber/de/config.rs\<close> and \<open>ber/enc/config.rs\<close>:
  identifiers, the three sets of encoding rules (BER, CER, DER) and the options of
  encoder and decoder.
\<close>

record ber_identifier =
  id_tag :: tag
  id_constructed :: bool

definition identifier_new :: "asn_class \<Rightarrow> bool \<Rightarrow> u32 \<Rightarrow> ber_identifier" where
  "identifier_new c constructed v = \<lparr>id_tag = Tag c v, id_constructed = constructed\<rparr>"

definition from_tag :: "tag \<Rightarrow> bool \<Rightarrow> ber_identifier" where
  "from_tag t constructed = \<lparr>id_tag = t, id_constructed = constructed\<rparr>"

definition identifier_tag :: "ber_identifier \<Rightarrow> u32 \<Rightarrow> ber_identifier" where
  "identifier_tag self v = \<lparr>id_tag = set_value (id_tag self) v, id_constructed = id_constructed self\<rparr>"

definition is_primitive :: "ber_identifier \<Rightarrow> bool" where
  "is_primitive self = (\<not> id_constructed self)"

datatype encoding_rules = RBer | RCer | RDer

definition is_cer :: "encoding_rules \<Rightarrow> bool" where "is_cer r = (r = RCer)"

definition is_der :: "encoding_rules \<Rightarrow> bool" where "is_der r = (r = RDer)"

definition allows_constructed_strings :: "encoding_rules \<Rightarrow> bool" where
  "allows_constructed_strings r = (r = RBer \<or> r = RCer)"

definition allows_indefinite :: "encoding_rules \<Rightarrow> bool" where
  "allows_indefinite r = (r = RBer \<or> r = RCer)"

definition usize_MAX :: nat where "usize_MAX = 2 ^ 64 - 1"

fun max_string_length :: "encoding_rules \<Rightarrow> nat" where
  "max_string_length RCer = 1000"
| "max_string_length _ = usize_MAX"

fun rules_codec :: "encoding_rules \<Rightarrow> codec" where
  "rules_codec RBer = Ber"
| "rules_codec RCer = Cer"
| "rules_codec RDer = Der"

record decoder_options =
  d_rules :: encoding_rules
  remaining_depth :: nat

definition decoder_options_ber :: decoder_options where
  "decoder_options_ber = \<lparr>d_rules = RBer, remaining_depth = 128\<rparr>"

definition decoder_options_cer :: decoder_options where
  "decoder_options_cer = \<lparr>d_rules = RCer, remaining_depth = 128\<rparr>"

definition decoder_options_der :: decoder_options where
  "decoder_options_der = \<lparr>d_rules = RDer, remaining_depth = 128\<rparr>"

definition current_codec :: "decoder_options \<Rightarrow> codec" where
  "current_codec cfg = rules_codec (d_rules cfg)"

end
