(* ===== verification/Ber_Encoder.thy ===== *)
theory Ber_Encoder
  imports Ber_Common
begin

text \<open>
  \<open>ber/enc.rs\<close>: the encoder of BER, CER and DER.  The encoder is a record threaded
  through its operations; an \<open>encode_fn\<close> closure or an \<open>Encode\<close> implementation is a
  function from encoder to result.  In SET mode every completed value is moved from
  the output to the ordered map \<open>set_buffer\<close>.
\<close>

record ber_encoder =
  out :: bytes
  config :: encoding_rules
  is_set_encoding :: bool
  set_buffer :: "(tag \<times> bytes) list"

type_synonym encode_fn = "ber_encoder \<Rightarrow> ber_encoder enc_result"

abbreviation START_OF_CONTENTS :: u8 where "START_OF_CONTENTS \<equiv> 0x80"
abbreviation END_OF_CONTENTS :: bytes where "END_OF_CONTENTS \<equiv> [0, 0]"

definition encoder_new :: "encoding_rules \<Rightarrow> ber_encoder" where
  "encoder_new cfg = \<lparr>out = [], config = cfg, is_set_encoding = False, set_buffer = []\<rparr>"

definition encoder_new_set :: "encoding_rules \<Rightarrow> ber_encoder" where
  "encoder_new_set cfg = \<lparr>out = [], config = cfg, is_set_encoding = True, set_buffer = []\<rparr>"

definition encoder_output :: "ber_encoder \<Rightarrow> bytes" where
  "encoder_output self =
    (if is_set_encoding self
     then fold (\<lambda>field acc. acc @ field) (map snd (set_buffer self)) []
     else out self)"

datatype byte_or_bytes = SingleByte u8 | Many bytes

fun bytes_of :: "byte_or_bytes \<Rightarrow> bytes" where
  "bytes_of (SingleByte b) = [b]"
| "bytes_of (Many bs) = bs"

definition append_output :: "bytes \<Rightarrow> ber_encoder \<Rightarrow> ber_encoder" where
  "append_output bs self = self\<lparr>out := out self @ bs\<rparr>"

definition append_byte_or_bytes :: "byte_or_bytes \<Rightarrow> ber_encoder \<Rightarrow> ber_encoder" where
  "append_byte_or_bytes b self = append_output (bytes_of b) self"

section \<open>Identifiers and lengths\<close>

text \<open>The \<open>while\<close> loop of \<open>encode_as_base128\<close> over \<open>bits_left\<close> = 35, 28, ..., 7.\<close>

function base128_loop :: "u32 \<Rightarrow> nat \<Rightarrow> bool \<Rightarrow> bytes \<Rightarrow> bytes" where
  "base128_loop number bits_left cont buffer =
    (if bits_left > 0 then
       let bits_left = bits_left - 7;
           n = (ucast (drop_bit bits_left number) :: u8) AND 0x7F
       in if n > 0 \<or> cont
          then base128_loop number bits_left True
                 (buffer @ [(if bits_left > 0 then 0x80 else 0) OR (n AND 0x7F)])
          else base128_loop number bits_left cont buffer
     else buffer)"
  by auto
termination by (relation "measure (\<lambda>(_, b, _, _). b)") auto

declare base128_loop.simps [simp del]

definition encode_as_base128 :: "u32 \<Rightarrow> bytes \<Rightarrow> bytes" where
  "encode_as_base128 number buffer =
    (if number < 0x80 then buffer @ [ucast number] else base128_loop number 35 False buffer)"

definition encode_identifier :: "ber_identifier \<Rightarrow> byte_or_bytes" where
  "encode_identifier ident =
    (let tag = id_tag ident;
         tag_number = tag_value tag;
         tag_byte = push_bit 1 (class_as_u8 (tag_class tag));
         tag_byte = tag_byte OR
           (if tag = Tag Universal 8 \<or> tag = SEQUENCE \<or> tag = SET then 1
            else if id_constructed ident then 1 else 0);
         tag_byte = push_bit 5 tag_byte
     in if tag_number \<ge> 31
        then Many (encode_as_base128 tag_number [tag_byte OR 31])
        else SingleByte (tag_byte OR ucast tag_number))"

function definite_length_loop :: "nat \<Rightarrow> bytes \<Rightarrow> bytes" where
  "definite_length_loop len length_buffer =
    (if len \<noteq> 0
     then definite_length_loop (drop_bit 8 len) (word_of_nat (len AND 0xff) # length_buffer)
     else length_buffer)"
  by auto
termination by (relation "measure fst") (auto simp: drop_bit_eq_div)

declare definite_length_loop.simps [simp del]

definition encode_definite_length :: "nat \<Rightarrow> byte_or_bytes" where
  "encode_definite_length len =
    (if len \<le> 127 then SingleByte (word_of_nat len)
     else let length_buffer = definite_length_loop len []
          in Many ((word_of_nat (length length_buffer) OR 0x80) # length_buffer))"

definition encode_length :: "ber_identifier \<Rightarrow> bytes \<Rightarrow> ber_encoder \<Rightarrow> ber_encoder" where
  "encode_length ident val self =
    (if is_primitive ident \<or> \<not> is_cer (config self)
     then append_output val (append_byte_or_bytes (encode_definite_length (length val)) self)
     else append_output END_OF_CONTENTS (append_output val (append_output [START_OF_CONTENTS] self)))"

section \<open>Values\<close>

definition encode_to_set :: "tag \<Rightarrow> ber_encoder \<Rightarrow> ber_encoder" where
  "encode_to_set t self =
    (if is_set_encoding self
     then self\<lparr>set_buffer := bt_insert t (out self) (set_buffer self), out := []\<rparr>
     else self)"

definition encode_value :: "ber_identifier \<Rightarrow> bytes \<Rightarrow> ber_encoder \<Rightarrow> ber_encoder" where
  "encode_value ident val self =
    (let self = append_byte_or_bytes (encode_identifier ident) self;
         self = encode_length ident val self
     in encode_to_set (id_tag ident) self)"

definition encode_primitive :: "tag \<Rightarrow> bytes \<Rightarrow> ber_encoder \<Rightarrow> ber_encoder" where
  "encode_primitive t val self = encode_value (from_tag t False) val self"

definition encode_constructed :: "tag \<Rightarrow> bytes \<Rightarrow> ber_encoder \<Rightarrow> ber_encoder" where
  "encode_constructed t val self = encode_value (from_tag t True) val self"

text \<open>\<open>slice::chunks\<close>.\<close>

function chunks :: "nat \<Rightarrow> 'a list \<Rightarrow> 'a list list" where
  "chunks n xs = (if xs = [] \<or> n = 0 then [] else take n xs # chunks n (drop n xs))"
  by auto
termination by (relation "measure (length \<circ> snd)") auto

declare chunks.simps [simp del]

definition encode_string :: "tag \<Rightarrow> tag \<Rightarrow> bytes \<Rightarrow> encode_fn" where
  "encode_string t nested_tag val self =
    (let max_len = max_string_length (config self) in
     if length val > max_len then
       let self = append_byte_or_bytes (encode_identifier (from_tag t True)) self;
           self = append_output [START_OF_CONTENTS] self;
           self = fold (encode_primitive nested_tag) (chunks max_len val) self;
           self = append_output END_OF_CONTENTS self
       in Ok (encode_to_set t self)
     else Ok (encode_primitive t val self))"

definition encode_octet_string_inner :: "tag \<Rightarrow> bytes \<Rightarrow> encode_fn" where
  "encode_octet_string_inner t val self = encode_string t OCTET_STRING val self"

text \<open>\<open>first * 40 + second\<close> is \<open>u32\<close> arithmetic (wrapping in a release build).\<close>

definition object_identifier_as_bytes :: "u32 list \<Rightarrow> bytes enc_result" where
  "object_identifier_as_bytes oid =
    (if length oid < 2 then Err (from_codec_encode_kind (BerEncErr (EncInvalidObjectIdentifier oid)))
     else
       let first = oid ! 0; second = oid ! 1 in
       if first > 2 then Err (from_codec_encode_kind (BerEncErr (EncInvalidObjectIdentifier oid)))
       else Ok (fold encode_as_base128 (drop 2 oid) (encode_as_base128 (first * (39 + 1) + second) [])))"

section \<open>The Encoder trait\<close>

definition encode_any :: "tag \<Rightarrow> bytes \<Rightarrow> encode_fn" where
  "encode_any t inner self =
    (if is_set_encoding self then Err (from_codec_encode_kind (BerEncErr AnyInSet))
     else if inner = [] then Ok self
     else if t \<noteq> EOC then
       let inner_constructed = (inner ! 0) AND 0x20 \<noteq> 0;
           ident = from_tag t inner_constructed;
           self = append_byte_or_bytes (encode_identifier ident) self;
           self = encode_length ident inner self
       in Ok (encode_to_set (id_tag ident) self)
     else Ok (append_output inner self))"

text \<open>
  A bit string is its list of bits; \<open>as_raw_slice\<close> of the \<open>bitvec\<close> crate, the octets that
  store the bits from the most significant one on, is the parameter \<open>raw\<close>.
\<close>

definition encode_bit_string :: "(bool list \<Rightarrow> bytes) \<Rightarrow> tag \<Rightarrow> bool list \<Rightarrow> encode_fn" where
  "encode_bit_string raw t val self =
    (let bit_length = length val;
         bytes = raw val
     in case try_into U8 (int (length bytes * 8) - int bit_length) of
          None \<Rightarrow> Err (EncodeError FailedBitStringUnusedBitsToU8 (rules_codec (config self)))
        | Some unused_bits \<Rightarrow> encode_string t BIT_STRING (word_of_int unused_bits # bytes) self)"

definition encode_bool :: "tag \<Rightarrow> bool \<Rightarrow> encode_fn" where
  "encode_bool t val self = Ok (encode_primitive t [if val then 0xff else 0x00] self)"

definition encode_choice :: "(ber_encoder \<Rightarrow> (tag \<times> ber_encoder) enc_result) \<Rightarrow> encode_fn" where
  "encode_choice encode_fn self = map_ok snd (encode_fn self)"

text \<open>The octets of an \<open>IntegerType\<close> are its \<open>to_signed_bytes_be\<close> pair.\<close>

definition encode_integer :: "tag \<Rightarrow> bytes \<times> nat \<Rightarrow> encode_fn" where
  "encode_integer t be self = Ok (encode_primitive t (needed_slice be) self)"

definition encode_enumerated :: "tag \<Rightarrow> int \<Rightarrow> encode_fn" where
  "encode_enumerated t discriminant self =
    encode_integer t (to_signed_bytes_be Isize discriminant) self"

definition encode_real :: "encode_fn" where
  "encode_real self = Err (EncodeError RealNotSuppored (rules_codec (config self)))"

definition encode_null :: "tag \<Rightarrow> encode_fn" where
  "encode_null t self = Ok (encode_primitive t [] self)"

definition encode_object_identifier :: "tag \<Rightarrow> u32 list \<Rightarrow> encode_fn" where
  "encode_object_identifier t oid self =
    and_then (object_identifier_as_bytes oid) (\<lambda>bytes. Ok (encode_primitive t bytes self))"

definition encode_octet_string :: "tag \<Rightarrow> bytes \<Rightarrow> encode_fn" where
  "encode_octet_string t val self = encode_octet_string_inner t val self"

definition encode_none_with_tag :: "encode_fn" where
  "encode_none_with_tag self = Ok self"

text \<open>Elements are encoded one after another into the same encoder.\<close>

fun encode_all :: "encode_fn list \<Rightarrow> encode_fn" where
  "encode_all [] self = Ok self"
| "encode_all (v # vs) self = and_then (v self) (encode_all vs)"

definition encode_sequence_of :: "tag \<Rightarrow> encode_fn list \<Rightarrow> encode_fn" where
  "encode_sequence_of t values self =
    and_then (encode_all values (encoder_new (config self)))
      (\<lambda>sequence_encoder. Ok (encode_constructed t (out sequence_encoder) self))"

text \<open>\<open>bits::octet_string_ascending\<close> and \<open>sort_by\<close> with it (a stable sort).\<close>

fun compare_prefix :: "bytes \<Rightarrow> bytes \<Rightarrow> ordering" where
  "compare_prefix (x # xs) (y # ys) =
    (if x < y then Less else if x > y then Greater else compare_prefix xs ys)"
| "compare_prefix _ _ = Equal"

definition octet_string_ascending :: "bytes \<Rightarrow> bytes \<Rightarrow> ordering" where
  "octet_string_ascending a b =
    (case compare_prefix a b of
       Equal \<Rightarrow> (if length a < length b then Less else if length a > length b then Greater else Equal)
     | ord \<Rightarrow> ord)"

fun insert_by :: "('a \<Rightarrow> 'a \<Rightarrow> ordering) \<Rightarrow> 'a \<Rightarrow> 'a list \<Rightarrow> 'a list" where
  "insert_by cmp x [] = [x]"
| "insert_by cmp x (y # ys) = (if cmp x y = Greater then y # insert_by cmp x ys else x # y # ys)"

definition sort_by :: "('a \<Rightarrow> 'a \<Rightarrow> ordering) \<Rightarrow> 'a list \<Rightarrow> 'a list" where
  "sort_by cmp xs = foldr (insert_by cmp) xs []"

fun collect_results :: "('e, 'a) result list \<Rightarrow> ('e, 'a list) result" where
  "collect_results [] = Ok []"
| "collect_results (r # rs) = and_then r (\<lambda>x. and_then (collect_results rs) (\<lambda>xs. Ok (x # xs)))"

definition encode_set_of :: "tag \<Rightarrow> encode_fn list \<Rightarrow> encode_fn" where
  "encode_set_of t values self =
    and_then (collect_results (map (\<lambda>val. map_ok out (val (encoder_new (config self)))) values))
      (\<lambda>encoded_values.
         let sorted_elements = concat (sort_by octet_string_ascending encoded_values)
         in Ok (encode_constructed t sorted_elements self))"

definition encode_explicit_prefix :: "tag \<Rightarrow> bool \<Rightarrow> encode_fn \<Rightarrow> encode_fn" where
  "encode_explicit_prefix t is_present val self =
    (if is_present then
       and_then (val (encoder_new (config self)))
         (\<lambda>encoder. Ok (encode_constructed t (out encoder) self))
     else Ok self)"

definition encode_sequence :: "tag \<Rightarrow> encode_fn \<Rightarrow> encode_fn" where
  "encode_sequence t encoder_scope self =
    and_then (encoder_scope (encoder_new (config self)))
      (\<lambda>encoder. Ok (encode_constructed t (out encoder) self))"

definition encode_set :: "tag \<Rightarrow> encode_fn \<Rightarrow> encode_fn" where
  "encode_set t encoder_scope self =
    and_then (encoder_scope (encoder_new_set (config self)))
      (\<lambda>encoder. Ok (encode_constructed t (encoder_output encoder) self))"

text \<open>\<open>ber::encode\<close>, \<open>cer::encode\<close> and \<open>der::encode\<close>.\<close>

definition encode_with :: "encoding_rules \<Rightarrow> encode_fn \<Rightarrow> bytes enc_result" where
  "encode_with rules val = and_then (val (encoder_new rules)) (\<lambda>enc. Ok (encoder_output enc))"

definition ber_encode :: "encode_fn \<Rightarrow> bytes enc_result" where "ber_encode = encode_with RBer"
definition cer_encode :: "encode_fn \<Rightarrow> bytes enc_result" where "cer_encode = encode_with RCer"
definition der_encode :: "encode_fn \<Rightarrow> bytes enc_result" where "der_encode = encode_with RDer"

end
