(* ===== verification/Ber_Parser.thy ===== *)
theory Ber_Parser
  imports Ber_Common
begin

text \<open>
  \<open>ber/de/parser.rs\<close>: identifiers, lengths and contents.  The streaming combinators of
  the crate \<open>nom\<close> are the parameter \<open>N\<close>; \<open>nom_documented\<close> states what the crate
  documents of \<open>take\<close>, \<open>take_while\<close> and \<open>tag\<close>.
\<close>

type_synonym 'a iresult = "(nom_err, bytes \<times> 'a) result"

record nom =
  nom_take :: "nat \<Rightarrow> bytes \<Rightarrow> bytes iresult"
  nom_take_while :: "(u8 \<Rightarrow> bool) \<Rightarrow> bytes \<Rightarrow> bytes iresult"
  nom_tag :: "bytes \<Rightarrow> bytes \<Rightarrow> bytes iresult"

definition nom_documented :: "nom \<Rightarrow> bool" where
  "nom_documented N \<longleftrightarrow>
    (\<forall>n input. n \<le> length input \<longrightarrow> nom_take N n input = Ok (drop n input, take n input)) \<and>
    (\<forall>n input. length input < n \<longrightarrow> (\<exists>k. nom_take N n input = Err (NomIncomplete k))) \<and>
    (\<forall>p input. (\<exists>b \<in> set input. \<not> p b) \<longrightarrow>
       nom_take_while N p input = Ok (dropWhile p input, takeWhile p input)) \<and>
    (\<forall>p input. (\<forall>b \<in> set input. p b) \<longrightarrow>
       (\<exists>k. nom_take_while N p input = Err (NomIncomplete k))) \<and>
    (\<forall>t input. take (length t) input = t \<longrightarrow>
       nom_tag N t input = Ok (drop (length t) input, t)) \<and>
    (\<forall>t input. take (length t) input \<noteq> t \<longrightarrow>
       (\<exists>e. nom_tag N t input = Err e))"

text \<open>\<open>checked_shl\<close> fails only for shift amounts of 32 and more.\<close>

definition checked_shl :: "u32 \<Rightarrow> nat \<Rightarrow> u32 option" where
  "checked_shl n k = (if k < 32 then Some (push_bit k n) else None)"

datatype parse_number_error = PNom nom_err | POverflow

type_synonym 'a pnum_result = "(parse_number_error, 'a) result"

fun concat_loop :: "u32 \<Rightarrow> bytes \<Rightarrow> u32 pnum_result" where
  "concat_loop number [] = Ok number"
| "concat_loop number (byte # body) =
    (case checked_shl number 7 of
       None \<Rightarrow> Err POverflow
     | Some n \<Rightarrow> concat_loop (n OR ucast (byte AND 0x7F)) body)"

definition concat_number :: "bytes \<Rightarrow> u8 \<Rightarrow> u32 pnum_result" where
  "concat_number body start =
    (let start = ucast start in
     if body = [] then Ok start
     else and_then (concat_loop (ucast (body ! 0 AND 0x7F)) (drop 1 body))
       (\<lambda>number. case checked_shl number 7 of
          None \<Rightarrow> Err POverflow
        | Some number \<Rightarrow> Ok (number OR start)))"

definition parse_encoded_number :: "nom \<Rightarrow> bytes \<Rightarrow> (bytes \<times> u32) pnum_result" where
  "parse_encoded_number N input =
    and_then (map_err PNom (nom_take_while N (\<lambda>i. i AND 0x80 \<noteq> 0) input)) (\<lambda>(input, body).
    and_then (map_err PNom (nom_take N 1 input)) (\<lambda>(input, end).
    and_then (concat_number body (end ! 0)) (\<lambda>n. Ok (input, n))))"

definition parse_base128_number :: "nom \<Rightarrow> bytes \<Rightarrow> (bytes \<times> u32) pnum_result" where
  "parse_base128_number N input =
    and_then (map_err PNom (nom_take_while N (\<lambda>i. i AND 0x80 \<noteq> 0) input)) (\<lambda>(input, body).
    and_then (map_err PNom (nom_take N 1 input)) (\<lambda>(input, end).
    and_then (concat_loop 0 body) (\<lambda>number.
    case checked_shl number 7 of
      None \<Rightarrow> Err POverflow
    | Some number \<Rightarrow> Ok (input, number OR ucast (end ! 0)))))"

text \<open>\<open>Class::from_u8\<close> cannot panic here: two bits are left after the shift.\<close>

definition parse_initial_octet :: "nom \<Rightarrow> bytes \<Rightarrow> ber_identifier iresult" where
  "parse_initial_octet N input =
    and_then (nom_take N 1 input) (\<lambda>(input, octet).
      let initial_octet = octet ! 0;
          class_bits = drop_bit 6 (initial_octet AND 0xC0);
          c = the (class_from_u8 class_bits);
          constructed = (initial_octet AND 0x20) \<noteq> 0;
          tag = ucast (initial_octet AND 0x1f)
      in Ok (input, identifier_new c constructed tag))"

definition parse_identifier_octet :: "nom \<Rightarrow> bytes \<Rightarrow> (bytes \<times> ber_identifier) pnum_result" where
  "parse_identifier_octet N input =
    and_then (map_err PNom (parse_initial_octet N input)) (\<lambda>(input, ident).
      if id_tag ident = EOC then Err (PNom (NomFailure KEof))
      else if tag_value (id_tag ident) \<ge> 0x1f then
        and_then (parse_encoded_number N input) (\<lambda>(input, tag).
          case try_into U32 (uint tag) of
            Some v \<Rightarrow> Ok (input, identifier_tag ident (word_of_int v))
          | None \<Rightarrow> Err (PNom (NomFailure KTooLarge)))
      else Ok (input, identifier_tag ident (tag_value (id_tag ident))))"

text \<open>\<open>nom::error::context\<close> passes the failure on.\<close>

definition take_contents :: "nom \<Rightarrow> bytes \<Rightarrow> u8 \<Rightarrow> bytes iresult" where
  "take_contents N input len =
    (if len = 0xff then Err (NomFailure KTag)
     else if len = 0 then Ok (input, [])
     else if 1 \<le> len \<and> len \<le> 0x7f then nom_take N (unat len) input
     else
       let len = len XOR 0x80 in
       and_then (nom_take N (unat len) input) (\<lambda>(input, length_slice).
         case try_from_bytes Usize length_slice Ber of
           Inr n \<Rightarrow> nom_take N (nat n) input
         | Inl _ \<Rightarrow> Err (NomFailure KTag)))"

definition parse_contents ::
    "nom \<Rightarrow> decoder_options \<Rightarrow> ber_identifier \<Rightarrow> bytes \<Rightarrow> bytes option iresult" where
  "parse_contents N cfg ident input =
    and_then (nom_take N 1 input) (\<lambda>(input, len).
      let len = len ! 0 in
      if len = 0x80 then
        (if is_primitive ident \<or> \<not> allows_indefinite (d_rules cfg) then Err (NomFailure KTag)
         else Ok (input, None))
      else and_then (take_contents N input len) (\<lambda>(input, contents). Ok (input, Some contents)))"

definition map_parse_number_err :: "decoder_options \<Rightarrow> parse_number_error \<Rightarrow> decode_error" where
  "map_parse_number_err cfg e =
    (case e of
       PNom e \<Rightarrow> map_nom_err e (current_codec cfg)
     | POverflow \<Rightarrow> DecodeError (IntegerOverflow 32) (current_codec cfg))"

definition parse_value ::
    "nom \<Rightarrow> decoder_options \<Rightarrow> bytes \<Rightarrow> tag option \<Rightarrow>
     (bytes \<times> ber_identifier \<times> bytes option) dec_result" where
  "parse_value N cfg input t =
    and_then (map_err (map_parse_number_err cfg) (parse_identifier_octet N input)) (\<lambda>(input, ident).
    and_then (case t of Some t \<Rightarrow> assert_tag t (id_tag ident) | None \<Rightarrow> Ok ()) (\<lambda>_.
    and_then (map_err (\<lambda>e. map_nom_err e (current_codec cfg)) (parse_contents N cfg ident input))
      (\<lambda>(input, contents). Ok (input, ident, contents))))"

text \<open>
  \<open>parse_encoded_value\<close> calls itself inside a loop.  The pair below carries fuel; the
  outer \<open>None\<close> means that the fuel ran out (or that \<open>contents.unwrap()\<close> would panic), and
  \<open>parse_encoded_value_returns\<close> shows that the fuel \<open>length slice + 1\<close> of
  \<open>parse_encoded_value\<close> is always enough.  \<open>Appendable\<close> is the pair of its \<open>new\<close> and
  \<open>append\<close>; for octets and for bits that is list concatenation.
\<close>

fun encoded_value :: "nat \<Rightarrow> nom \<Rightarrow> decoder_options \<Rightarrow> (bytes \<Rightarrow> codec \<Rightarrow> 'a list dec_result) \<Rightarrow>
      bytes \<Rightarrow> tag \<Rightarrow> (bytes \<times> 'a list) dec_result option"
  and encoded_loop :: "nat \<Rightarrow> nom \<Rightarrow> decoder_options \<Rightarrow> (bytes \<Rightarrow> codec \<Rightarrow> 'a list dec_result) \<Rightarrow>
      bytes \<Rightarrow> 'a list \<Rightarrow> (bytes \<times> 'a list) dec_result option" where
  "encoded_value 0 N cfg cb input0 t = None"
| "encoded_value (Suc n) N cfg cb input0 t =
    (case parse_value N cfg input0 (Some t) of
       Inl e \<Rightarrow> Some (Err e)
     | Inr (input, ident, contents) \<Rightarrow>
         if is_primitive ident then
           (case contents of
              None \<Rightarrow> None
            | Some contents \<Rightarrow>
                Some (and_then (cb contents (current_codec cfg)) (\<lambda>rv. Ok (input, rv))))
         else if allows_constructed_strings (d_rules cfg) then
           (case encoded_loop n N cfg cb input [] of
              None \<Rightarrow> None
            | Some (Inl e) \<Rightarrow> Some (Err e)
            | Some (Inr (input, container)) \<Rightarrow>
                if contents = None then
                  Some (and_then (map_err (\<lambda>e. map_nom_err e (current_codec cfg)) (nom_tag N [0, 0] input))
                    (\<lambda>(i, _). Ok (i, container)))
                else Some (Ok (input, container)))
         else Some (Err (from_codec_kind (DerErr ConstructedEncodingNotAllowed))))"
| "encoded_loop 0 N cfg cb input container = None"
| "encoded_loop (Suc n) N cfg cb input container =
    (if input \<noteq> [] \<and> take 2 input \<noteq> [0, 0] then
       (case map_err (map_parse_number_err cfg) (parse_identifier_octet N input) of
          Inl e \<Rightarrow> Some (Err e)
        | Inr (_, ident) \<Rightarrow>
            (case encoded_value n N cfg cb input (id_tag ident) of
               None \<Rightarrow> None
             | Some (Inl e) \<Rightarrow> Some (Err e)
             | Some (Inr (i, child)) \<Rightarrow> encoded_loop n N cfg cb i (container @ child)))
     else Some (Ok (input, container)))"

definition parse_encoded_value ::
    "nom \<Rightarrow> decoder_options \<Rightarrow> bytes \<Rightarrow> tag \<Rightarrow> (bytes \<Rightarrow> codec \<Rightarrow> 'a list dec_result) \<Rightarrow>
     (bytes \<times> 'a list) dec_result option" where
  "parse_encoded_value N cfg input0 t cb = encoded_value (length input0 + 1) N cfg cb input0 t"

section \<open>The concrete combinators\<close>

text \<open>A \<open>nom\<close> that behaves as documented, for the witnesses.\<close>

definition ref_nom :: nom where
  "ref_nom =
    \<lparr>nom_take = (\<lambda>n input. if n \<le> length input then Ok (drop n input, take n input)
        else Err (NomIncomplete (NeededSize (n - length input)))),
     nom_take_while = (\<lambda>p input. if list_all p input then Err (NomIncomplete (NeededSize 1))
        else Ok (dropWhile p input, takeWhile p input)),
     nom_tag = (\<lambda>t input. if take (length t) input = t then Ok (drop (length t) input, t)
        else Err (NomError KTag))\<rparr>"

lemma ref_nom_documented: "nom_documented ref_nom"
  by (auto simp: nom_documented_def ref_nom_def list_all_iff)

end
