(* ===== verification/Base128.thy ===== *)
theory Base128
  imports Ber_Encoder Ber_Parser
begin

text \<open>
  Numbers in base 128 (\<open>encode_as_base128\<close> against \<open>parse_encoded_number\<close> and
  \<open>parse_base128_number\<close>), as used by long tags and by object identifiers.
\<close>

lemma and_7F: "(x :: u8) AND 0x7F = take_bit 7 x"
  by (simp add: take_bit_eq_mask mask_eq_exp_minus_1)

lemma push_drop_take: "push_bit m (drop_bit m x) OR take_bit m x = (x :: 'a::len word)"
  by (intro bit_eqI) (auto simp: bit_simps)

lemma bit_80: "bit (0x80 :: u8) n \<longleftrightarrow> n = 7" "bit (0x80 :: int) n \<longleftrightarrow> n = 7"
  using bit_exp_iff [of 7 n, where 'a = u8] bit_exp_iff [of 7 n, where 'a = int] by auto

text \<open>The five groups of seven bits, and their value.\<close>

definition digits :: "u32 \<Rightarrow> bytes" where
  "digits n = map (\<lambda>k. take_bit 7 (ucast (drop_bit k n))) [28, 21, 14, 7, 0]"

definition group_value :: "u32 \<Rightarrow> bytes \<Rightarrow> u32" where
  "group_value a ds = foldl (\<lambda>a d. push_bit 7 a OR ucast (take_bit 7 d)) a ds"

definition mark :: "bytes \<Rightarrow> bytes" where
  "mark ds = map (\<lambda>d. 0x80 OR d) (butlast ds) @ [last ds]"

lemma ucast_digit: "(ucast (take_bit 7 (ucast (x :: u32) :: u8)) :: u32) = take_bit 7 x"
  by (intro bit_eqI) (auto simp: bit_simps)

lemma group_value_digits: "group_value 0 (digits n) = n"
proof -
  have top: "take_bit 7 (drop_bit 28 n) = drop_bit 28 n"
    by (intro bit_eqI) (auto simp: bit_simps dest: bit_imp_le_length)
  have step: "push_bit 7 (drop_bit (k + 7) n) OR take_bit 7 (drop_bit k n) = drop_bit k n" for k
    using push_drop_take [of 7 "drop_bit k n"] by (simp add: add.commute)
  show ?thesis
    using step [of 21] step [of 14] step [of 7] step [of 0]
    by (simp add: group_value_def digits_def ucast_digit top)
qed

lemma group_value_dropWhile: "group_value 0 (dropWhile (\<lambda>d. d = 0) ds) = group_value 0 ds"
  by (induction ds) (simp_all add: group_value_def)

lemma base128_loop_digits:
  assumes "n \<ge> 0x80"
  shows "base128_loop n 35 False buf = buf @ mark (dropWhile (\<lambda>d. d = 0) (digits n))"
    and "dropWhile (\<lambda>d. d = 0) (digits n) \<noteq> []"
proof -
  show ne: "dropWhile (\<lambda>d. d = 0) (digits n) \<noteq> []"
  proof
    assume "dropWhile (\<lambda>d. d = 0) (digits n) = []"
    then have "group_value 0 [] = n"
      using group_value_digits [of n] group_value_dropWhile [of "digits n"] by metis
    then show False using assms by (simp add: group_value_def)
  qed
  show "base128_loop n 35 False buf = buf @ mark (dropWhile (\<lambda>d. d = 0) (digits n))"
    using ne
    by (simp add: base128_loop.simps digits_def mark_def and_7F word_gt_0 Let_def split: if_splits)
qed

text \<open>The marked octets are split again at the first octet without the eighth bit.\<close>

lemma digit_small: "d \<in> set (digits n) \<Longrightarrow> d AND 0x80 = 0" "d \<in> set (digits n) \<Longrightarrow> take_bit 7 d = d"
proof -
  have "take_bit 7 x AND 0x80 = 0" for x :: u8
    by (intro bit_eqI) (auto simp: bit_and_iff bit_or_iff bit_take_bit_iff bit_ucast_iff bit_80)
  then show "d \<in> set (digits n) \<Longrightarrow> d AND 0x80 = 0" by (auto simp: digits_def)
  show "d \<in> set (digits n) \<Longrightarrow> take_bit 7 d = d" by (auto simp: digits_def)
qed

lemma marked_octet:
  fixes d :: u8
  shows "(0x80 OR d) AND 0x80 \<noteq> 0" and "take_bit 7 (0x80 OR d) = take_bit 7 d"
proof -
  have "bit ((0x80 OR d) AND 0x80) 7" by (simp add: bit_and_iff bit_or_iff bit_take_bit_iff bit_ucast_iff bit_80)
  then show "(0x80 OR d) AND 0x80 \<noteq> 0" by force
  show "take_bit 7 (0x80 OR d) = take_bit 7 d"
    by (intro bit_eqI) (auto simp: bit_and_iff bit_or_iff bit_take_bit_iff bit_ucast_iff bit_80)
qed

definition continues :: "u8 \<Rightarrow> bool" where "continues i = (i AND 0x80 \<noteq> 0)"

lemma split_marked:
  assumes "ds \<noteq> []" "last ds AND 0x80 = 0"
  shows "takeWhile continues (mark ds @ rest) = map (\<lambda>d. 0x80 OR d) (butlast ds)"
    and "dropWhile continues (mark ds @ rest) = last ds # rest"
    and "\<not> (\<forall>b \<in> set (mark ds @ rest). continues b)"
  using assms marked_octet(1)
  by (auto simp: mark_def continues_def takeWhile_append dropWhile_append)

lemma concat_loop_value: "concat_loop a body = Ok (group_value a body)"
  by (induction body arbitrary: a) (simp_all add: checked_shl_def group_value_def and_7F)

lemma group_value_mark:
  assumes "ds \<noteq> []"
  shows "push_bit 7 (group_value a (map (\<lambda>d. 0x80 OR d) (butlast ds))) OR ucast (take_bit 7 (last ds)) =
    group_value a ds"
proof -
  have "group_value a (map (\<lambda>d. 0x80 OR d) ds') = group_value a ds'" for a ds'
    by (induction ds' arbitrary: a) (simp_all add: group_value_def marked_octet(2))
  moreover have "group_value a (butlast ds @ [last ds]) =
      push_bit 7 (group_value a (butlast ds)) OR ucast (take_bit 7 (last ds))"
    by (simp add: group_value_def)
  ultimately show ?thesis using assms by simp
qed

lemma concat_number_marked:
  assumes "ds \<noteq> []" "take_bit 7 (last ds) = last ds"
  shows "concat_number (map (\<lambda>d. 0x80 OR d) (butlast ds)) (last ds) = Ok (group_value 0 ds)"
proof (cases "butlast ds")
  case Nil
  then obtain d where "ds = [d]" using assms(1) by (metis append_butlast_last_id append_Nil)
  then show ?thesis using assms by (simp add: concat_number_def group_value_def)
next
  case (Cons d ds')
  have "group_value 0 (map (\<lambda>d. 0x80 OR d) (butlast ds)) =
      group_value (ucast ((0x80 OR d) AND 0x7F)) (map (\<lambda>d. 0x80 OR d) ds')"
    using Cons by (simp add: group_value_def and_7F)
  then show ?thesis
    using group_value_mark [OF assms(1), of 0] Cons assms(2)
    by (simp add: concat_number_def concat_loop_value checked_shl_def)
qed

lemma encode_as_base128_eq:
  obtains ds where "ds \<noteq> []" "encode_as_base128 n buf = buf @ mark ds" "group_value 0 ds = n"
    "last ds AND 0x80 = 0" "take_bit 7 (last ds) = last ds"
proof (cases "n < 0x80")
  case True
  then have "unat n < 2 ^ 7" by (simp add: word_less_nat_alt)
  then have t: "take_bit 7 n = n"
    by (metis take_bit_nat_eq_self unsigned_take_bit_eq unsigned_word_eqI)
  have c: "take_bit 7 (ucast n :: u8) = ucast (take_bit 7 n)"
    by (intro bit_eqI) (auto simp: bit_simps)
  have "(ucast n :: u8) AND 0x80 = 0"
    by (subst t [symmetric]) (intro bit_eqI, auto simp: bit_and_iff bit_or_iff bit_take_bit_iff bit_ucast_iff bit_80)
  then show ?thesis
    using that [of "[ucast n]"] True ucast_digit [of n] t c
    by (simp add: encode_as_base128_def mark_def group_value_def)
next
  case False
  then have "encode_as_base128 n buf = buf @ mark (dropWhile (\<lambda>d. d = 0) (digits n))"
    "dropWhile (\<lambda>d. d = 0) (digits n) \<noteq> []"
    using base128_loop_digits(1) [of n buf] base128_loop_digits(2) [of n]
    unfolding encode_as_base128_def by auto
  moreover have "last (dropWhile (\<lambda>d. d = 0) (digits n)) \<in> set (digits n)"
    using calculation(2) by (meson last_in_set set_dropWhileD)
  ultimately show ?thesis
    using that digit_small group_value_dropWhile [of "digits n"] group_value_digits [of n] by metis
qed

section \<open>Parsing back\<close>

lemma nom_takeD:
  assumes "nom_documented N"
  shows "n \<le> length input \<Longrightarrow> nom_take N n input = Ok (drop n input, take n input)"
    and "nom_take N n input = Ok r \<longleftrightarrow> n \<le> length input \<and> r = (drop n input, take n input)"
proof -
  show *: "n \<le> length input \<Longrightarrow> nom_take N n input = Ok (drop n input, take n input)"
    using assms by (simp add: nom_documented_def)
  show "nom_take N n input = Ok r \<longleftrightarrow> n \<le> length input \<and> r = (drop n input, take n input)"
  proof (cases "n \<le> length input")
    case False
    then obtain k where "nom_take N n input = Err (NomIncomplete k)"
      using assms unfolding nom_documented_def by (meson not_le)
    then show ?thesis using False by simp
  qed (use * in auto)
qed

lemma nom_take_whileD:
  assumes "nom_documented N"
  shows "nom_take_while N p input = Ok r \<longleftrightarrow>
    (\<exists>b \<in> set input. \<not> p b) \<and> r = (dropWhile p input, takeWhile p input)"
proof (cases "\<exists>b \<in> set input. \<not> p b")
  case True
  then show ?thesis using assms by (auto simp: nom_documented_def)
next
  case False
  then obtain k where "nom_take_while N p input = Err (NomIncomplete k)"
    using assms unfolding nom_documented_def by meson
  then show ?thesis using False by simp
qed

lemma parse_encoded_number_marked:
  assumes "nom_documented N" "ds \<noteq> []" "last ds AND 0x80 = 0" "take_bit 7 (last ds) = last ds"
  shows "parse_encoded_number N (mark ds @ rest) = Ok (rest, group_value 0 ds)"
proof -
  have "nom_take_while N (\<lambda>i. i AND 0x80 \<noteq> 0) (mark ds @ rest) =
      Ok (last ds # rest, map (\<lambda>d. 0x80 OR d) (butlast ds))"
    using nom_take_whileD [OF assms(1), of continues "mark ds @ rest"] split_marked [OF assms(2,3)]
    by (auto simp: continues_def [abs_def])
  then show ?thesis
    using concat_number_marked [OF assms(2,4)]
    by (simp add: parse_encoded_number_def nom_takeD [OF assms(1)])
qed

lemma parse_base128_number_marked:
  assumes "nom_documented N" "ds \<noteq> []" "last ds AND 0x80 = 0" "take_bit 7 (last ds) = last ds"
  shows "parse_base128_number N (mark ds @ rest) = Ok (rest, group_value 0 ds)"
proof -
  have "nom_take_while N (\<lambda>i. i AND 0x80 \<noteq> 0) (mark ds @ rest) =
      Ok (last ds # rest, map (\<lambda>d. 0x80 OR d) (butlast ds))"
    using nom_take_whileD [OF assms(1), of continues "mark ds @ rest"] split_marked [OF assms(2,3)]
    by (auto simp: continues_def [abs_def])
  then show ?thesis
    using group_value_mark [OF assms(2), of 0] assms(4)
    by (simp add: parse_base128_number_def nom_takeD [OF assms(1)] concat_loop_value checked_shl_def)
qed

lemma base128_append: "encode_as_base128 n buf = buf @ encode_as_base128 n []"
proof (cases "n < 0x80")
  case False
  then show ?thesis
    using base128_loop_digits(1) [of n buf] base128_loop_digits(1) [of n "[]"]
    unfolding encode_as_base128_def by auto
qed (simp add: encode_as_base128_def)

lemma parse_encoded_base128:
  assumes "nom_documented N"
  shows "parse_encoded_number N (encode_as_base128 n [] @ rest) = Ok (rest, n)"
    and "parse_base128_number N (encode_as_base128 n [] @ rest) = Ok (rest, n)"
proof -
  obtain ds where "ds \<noteq> []" "encode_as_base128 n [] = [] @ mark ds" "group_value 0 ds = n"
    "last ds AND 0x80 = 0" "take_bit 7 (last ds) = last ds"
    by (rule encode_as_base128_eq)
  with parse_encoded_number_marked [OF assms] parse_base128_number_marked [OF assms]
  show "parse_encoded_number N (encode_as_base128 n [] @ rest) = Ok (rest, n)"
    "parse_base128_number N (encode_as_base128 n [] @ rest) = Ok (rest, n)"
    by auto
qed

lemma encode_as_base128_not_Nil: "encode_as_base128 n [] \<noteq> []"
  by (rule encode_as_base128_eq [of n "[]"]) (auto simp: mark_def)

text \<open>No input makes the number parsers report an overflow.\<close>

lemma concat_number_no_overflow: "concat_number body b \<noteq> Err e"
  by (simp add: concat_number_def concat_loop_value checked_shl_def Let_def)

end
