(* ===== verification/Ber_Framing.thy ===== *)
theory Ber_Framing
  imports Base128
begin

text \<open>
  The framing of a BER value: the identifier and length octets the encoder writes are
  read back by the parser, and \<open>parse_value\<close> inverts \<open>encode_value\<close>.
\<close>

section \<open>Identifiers\<close>

text \<open>The encoder sets the constructed bit of EXTERNAL, SEQUENCE and SET by itself.\<close>

definition written_identifier :: "ber_identifier \<Rightarrow> ber_identifier" where
  "written_identifier ident =
    from_tag (id_tag ident)
      (id_tag ident = Tag Universal 8 \<or> id_tag ident = SEQUENCE \<or> id_tag ident = SET \<or>
       id_constructed ident)"

definition lead_octet :: "asn_class \<Rightarrow> bool \<Rightarrow> u8" where
  "lead_octet c constructed = push_bit 5 (push_bit 1 (class_as_u8 c) OR (if constructed then 1 else 0))"

lemma encode_identifier_eq:
  "bytes_of (encode_identifier ident) =
    (let c = tag_class (id_tag ident); n = tag_value (id_tag ident);
         k = lead_octet c (id_constructed (written_identifier ident))
     in if n \<ge> 31 then (k OR 31) # encode_as_base128 n [] else [k OR ucast n])"
  using base128_append [of "tag_value (id_tag ident)" "[x]" for x]
  by (auto simp: encode_identifier_def lead_octet_def written_identifier_def from_tag_def Let_def)

lemma lead_octet_fields:
  assumes "low AND 31 = low"
  shows "drop_bit 6 ((lead_octet c k OR low) AND 0xC0) = class_as_u8 c"
    and "(lead_octet c k OR low) AND 0x20 \<noteq> 0 \<longleftrightarrow> k"
    and "(lead_octet c k OR low) AND 0x1f = low"
proof -
  have "low AND 0xC0 = (low AND 31) AND 0xC0" "low AND 0x20 = (low AND 31) AND 0x20"
    using assms by simp_all
  then have z: "low AND 0xC0 = 0" "low AND 0x20 = 0" by (simp_all add: and.assoc)
  show "drop_bit 6 ((lead_octet c k OR low) AND 0xC0) = class_as_u8 c"
    using z by (cases c; cases k)
      (simp_all add: lead_octet_def bit.conj_disj_distrib2 push_bit_eq_mult drop_bit_eq_div)
  show "(lead_octet c k OR low) AND 0x20 \<noteq> 0 \<longleftrightarrow> k"
    using z by (cases c; cases k)
      (simp_all add: lead_octet_def bit.conj_disj_distrib2 push_bit_eq_mult)
  show "(lead_octet c k OR low) AND 0x1f = low"
    using assms by (cases c; cases k)
      (simp_all add: lead_octet_def bit.conj_disj_distrib2 push_bit_eq_mult)
qed

lemma and_1F: "(x :: u8) AND 31 = take_bit 5 x"
  by (simp add: take_bit_eq_mask mask_eq_exp_minus_1)

lemma uint_in_U32 [simp]: "in_type U32 (uint (w :: u32))"
  using uint_bounded [of w] by (simp add: in_type_def type_min_def type_max_def)

lemma small_tag_number:
  assumes "n < (31 :: u32)"
  shows "(ucast n :: u8) AND 31 = ucast n" "(ucast (ucast n :: u8) :: u32) = n"
proof -
  have "unat n < 2 ^ 5" using assms by (simp add: word_less_nat_alt)
  then have t: "take_bit 5 n = n"
    by (metis take_bit_nat_eq_self unsigned_take_bit_eq unsigned_word_eqI)
  have "take_bit 5 (ucast n :: u8) = ucast (take_bit 5 n)"
    by (intro bit_eqI) (auto simp: bit_simps)
  with t show "(ucast n :: u8) AND 31 = ucast n"
    by (simp add: and_1F)
  have "(ucast (ucast (take_bit 5 n) :: u8) :: u32) = take_bit 5 n"
    by (intro bit_eqI) (auto simp: bit_simps)
  with t show "(ucast (ucast n :: u8) :: u32) = n" by simp
qed

lemma parse_initial_octet_lead:
  assumes "nom_documented N" "low AND 31 = low"
  shows "parse_initial_octet N ((lead_octet c k OR low) # rest) = Ok (rest, identifier_new c k (ucast low))"
  using lead_octet_fields [OF assms(2), of c k]
  by (simp add: parse_initial_octet_def nom_takeD [OF assms(1)] Let_def)

lemma parse_encode_identifier:
  assumes "nom_documented N" "id_tag ident \<noteq> EOC"
  shows "parse_identifier_octet N (bytes_of (encode_identifier ident) @ rest) =
    Ok (rest, written_identifier ident)"
proof (cases "tag_value (id_tag ident) \<ge> 31")
  case True
  then show ?thesis
    using parse_initial_octet_lead [OF assms(1), of 31] parse_encoded_base128(1) [OF assms(1)]
    by (cases "id_tag ident")
      (simp add: encode_identifier_eq parse_identifier_octet_def identifier_new_def identifier_tag_def
        EOC_def written_identifier_def from_tag_def Let_def
        try_into_def)
next
  case False
  then have n: "tag_value (id_tag ident) < 31" by simp
  then show ?thesis
    using parse_initial_octet_lead [OF assms(1) small_tag_number(1) [OF n]] small_tag_number(2) [OF n]
      assms(2)
    by (cases "id_tag ident")
      (auto simp: encode_identifier_eq parse_identifier_octet_def identifier_new_def identifier_tag_def
        EOC_def written_identifier_def from_tag_def Let_def)
qed

section \<open>Lengths\<close>

text \<open>The number of octets the loop writes.\<close>

function octets :: "nat \<Rightarrow> nat" where
  "octets n = (if n = 0 then 0 else Suc (octets (n div 256)))"
  by auto
termination by (relation "measure id") auto

declare octets.simps [simp del]

lemma octets_0 [simp]: "octets 0 = 0"
  by (simp add: octets.simps)

lemma octets_pos [simp]: "0 < n \<Longrightarrow> 0 < octets n"
  by (subst octets.simps) simp

lemma less_256_octets: "n < 256 ^ octets n"
proof (induction n rule: octets.induct)
  case (1 n)
  show ?case
  proof (cases "n = 0")
    case False
    with 1 have "n div 256 < 256 ^ octets (n div 256)" by simp
    then have "n < 256 * 256 ^ octets (n div 256)" by linarith
    then show ?thesis using False by (subst octets.simps) simp
  qed simp
qed

lemma octets_le: "n < 256 ^ k \<Longrightarrow> octets n \<le> k"
proof (induction n arbitrary: k rule: octets.induct)
  case (1 n)
  show ?case
  proof (cases "n = 0")
    case False
    then obtain j where k: "k = Suc j" using "1.prems" by (cases k) auto
    then have "n div 256 < 256 ^ j" using "1.prems" by (simp add: less_mult_imp_div_less mult.commute)
    with 1 False k show ?thesis by (subst octets.simps) simp
  qed simp
qed

lemma low_octet: "(word_of_nat (len AND 0xff) :: u8) = word_of_int (int len)"
proof -
  have "len AND 0xff = take_bit 8 len" by (simp add: take_bit_eq_mask mask_eq_exp_minus_1)
  then show ?thesis
    by (intro bit_eqI) (auto simp: bit_simps)
qed

lemma definite_length_loop_eq:
  "definite_length_loop len buf = be_bytes (octets len) (int len) @ buf"
proof (induction len buf rule: definite_length_loop.induct)
  case (1 len buf)
  show ?case
  proof (cases "len = 0")
    case False
    then have "definite_length_loop len buf =
        definite_length_loop (drop_bit 8 len) (word_of_nat (len AND 0xff) # buf)"
      by (subst definite_length_loop.simps) simp
    also have "\<dots> = be_bytes (octets (len div 256)) (int (len div 256)) @ word_of_int (int len) # buf"
      using 1 False by (simp add: low_octet drop_bit_eq_div)
    also have "\<dots> = be_bytes (octets len) (int len) @ buf"
      using False by (subst (2) octets.simps) (simp add: zdiv_int)
    finally show ?thesis .
  qed (simp add: definite_length_loop.simps)
qed

lemma be_val_octets: "be_val (be_bytes (octets len) (int len)) = int len"
  using less_256_octets [of len] by (simp add: be_val_be_bytes of_nat_less_iff [symmetric] del: of_nat_less_iff)

lemma encode_definite_length_bytes:
  "bytes_of (encode_definite_length len) =
    (if len \<le> 127 then [word_of_nat len]
     else (word_of_nat (octets len) OR 0x80) # be_bytes (octets len) (int len))"
  by (simp add: encode_definite_length_def definite_length_loop_eq Let_def)

lemma long_length_octet:
  assumes "0 < k" "k \<le> 8"
  shows "(word_of_nat k OR 0x80 :: u8) \<noteq> 0xff" "(word_of_nat k OR 0x80 :: u8) \<noteq> 0x80"
    "(word_of_nat k OR 0x80 :: u8) \<noteq> 0" "\<not> (word_of_nat k OR 0x80 :: u8) \<le> 0x7f"
    "unat ((word_of_nat k OR 0x80 :: u8) XOR 0x80) = k"
proof -
  have "k \<in> {1, 2, 3, 4, 5, 6, 7, 8}" using assms by auto
  then show "(word_of_nat k OR 0x80 :: u8) \<noteq> 0xff" "(word_of_nat k OR 0x80 :: u8) \<noteq> 0x80"
    "(word_of_nat k OR 0x80 :: u8) \<noteq> 0" "\<not> (word_of_nat k OR 0x80 :: u8) \<le> 0x7f"
    "unat ((word_of_nat k OR 0x80 :: u8) XOR 0x80) = k"
    by auto
qed

lemma short_length_octet:
  assumes "len \<le> 127"
  shows "(word_of_nat len :: u8) \<noteq> 0xff" "(word_of_nat len :: u8) \<noteq> 0x80"
    "unat (word_of_nat len :: u8) = len" "(word_of_nat len :: u8) \<le> 0x7f"
    "(word_of_nat len :: u8) = 0 \<longleftrightarrow> len = 0"
proof -
  show u: "unat (word_of_nat len :: u8) = len"
    using assms by (simp add: unsigned_of_nat take_bit_nat_eq_self)
  show "(word_of_nat len :: u8) \<noteq> 0xff" "(word_of_nat len :: u8) \<noteq> 0x80"
    using u assms by (auto dest: arg_cong [where f = unat])
  show "(word_of_nat len :: u8) \<le> 0x7f" using u assms by (simp add: word_le_nat_alt)
  show "(word_of_nat len :: u8) = 0 \<longleftrightarrow> len = 0" using u by (metis unat_eq_zero)
qed

lemma length_octets_usize:
  assumes "len \<le> usize_MAX"
  shows "octets len \<le> 8"
  using assms by (intro octets_le) (simp add: usize_MAX_def)

lemma take_contents_encoded:
  assumes "nom_documented N" "len = length val" "len \<le> usize_MAX"
    "bytes_of (encode_definite_length len) = b # lens"
  shows "take_contents N (lens @ val @ rest) b = Ok (rest, val) \<and> b \<noteq> 0x80"
proof (cases "len \<le> 127")
  case True
  then have "b = word_of_nat len" "lens = []"
    using assms(4) by (simp_all add: encode_definite_length_bytes)
  then show ?thesis
    using short_length_octet [OF True] assms(2)
    by (auto simp: take_contents_def nom_takeD [OF assms(1)] word_le_nat_alt Suc_le_eq)
next
  case False
  then have b: "b = word_of_nat (octets len) OR 0x80" "lens = be_bytes (octets len) (int len)"
    using assms(4) by (simp_all add: encode_definite_length_bytes)
  have k: "0 < octets len" "octets len \<le> 8"
    using False assms(3) length_octets_usize by simp_all
  have "lens \<noteq> []" using b(2) k(1) be_bytes_not_Nil by simp
  then have "try_from_bytes Usize lens Ber = Ok (int len)"
    using b(2) k(2) be_val_octets [of len]
    by (simp add: try_from_bytes_def try_from_unsigned_bytes_Ok BYTE_WIDTH_def)
  then show ?thesis
    using long_length_octet [OF k] b assms(2)
    by (simp add: take_contents_def nom_takeD [OF assms(1)] Let_def)
qed

lemma definite_length_Cons: obtains b lens where "bytes_of (encode_definite_length len) = b # lens"
  by (simp add: encode_definite_length_bytes) (metis (full_types))

section \<open>Values\<close>

text \<open>The octets of a value in definite form.\<close>

definition tlv :: "ber_identifier \<Rightarrow> bytes \<Rightarrow> bytes" where
  "tlv ident val = bytes_of (encode_identifier ident) @ bytes_of (encode_definite_length (length val)) @ val"

definition indefinite_tlv :: "ber_identifier \<Rightarrow> bytes \<Rightarrow> bytes" where
  "indefinite_tlv ident val = bytes_of (encode_identifier ident) @ [0x80] @ val @ [0, 0]"

definition frame :: "encoding_rules \<Rightarrow> ber_identifier \<Rightarrow> bytes \<Rightarrow> bytes" where
  "frame rules ident val =
    (if is_primitive ident \<or> \<not> is_cer rules then tlv ident val else indefinite_tlv ident val)"

lemma encode_value_out:
  "\<not> is_set_encoding enc \<Longrightarrow>
    encode_value ident val enc = enc\<lparr>out := out enc @ frame (config enc) ident val\<rparr>"
  by (simp add: encode_value_def encode_length_def append_byte_or_bytes_def append_output_def
      encode_to_set_def frame_def tlv_def indefinite_tlv_def Let_def)

lemma parse_contents_definite:
  assumes "nom_documented N" "length val \<le> usize_MAX"
  shows "parse_contents N cfg ident (bytes_of (encode_definite_length (length val)) @ val @ rest) =
    Ok (rest, Some val)"
proof -
  obtain b lens where bl: "bytes_of (encode_definite_length (length val)) = b # lens"
    by (rule definite_length_Cons)
  with take_contents_encoded [OF assms(1) refl assms(2) bl, of rest] show ?thesis
    by (simp add: parse_contents_def nom_takeD [OF assms(1)] Let_def)
qed

definition tag_matches :: "tag option \<Rightarrow> tag \<Rightarrow> bool" where
  "tag_matches t u = (case t of None \<Rightarrow> True | Some t \<Rightarrow> t = u)"

lemma parse_value_tlv:
  assumes "nom_documented N" "id_tag ident \<noteq> EOC" "length val \<le> usize_MAX" "tag_matches t (id_tag ident)"
  shows "parse_value N cfg (tlv ident val @ rest) t = Ok (rest, written_identifier ident, Some val)"
proof -
  have "id_tag (written_identifier ident) = id_tag ident"
    by (simp add: written_identifier_def from_tag_def)
  then show ?thesis
    using parse_encode_identifier [OF assms(1,2)] parse_contents_definite [OF assms(1,3)] assms(4)
    by (auto simp: parse_value_def tlv_def tag_matches_def assert_tag_def split: option.splits)
qed

lemma parse_value_indefinite:
  assumes "nom_documented N" "id_tag ident \<noteq> EOC" "tag_matches t (id_tag ident)"
    "\<not> is_primitive ident" "allows_indefinite (d_rules cfg)"
  shows "parse_value N cfg (indefinite_tlv ident val @ rest) t =
    Ok (val @ [0, 0] @ rest, written_identifier ident, None)"
proof -
  have "id_tag (written_identifier ident) = id_tag ident" "\<not> is_primitive (written_identifier ident)"
    using assms(4) by (simp_all add: written_identifier_def from_tag_def is_primitive_def)
  then show ?thesis
    using parse_encode_identifier [OF assms(1,2)] assms(3,5)
    by (auto simp: parse_value_def indefinite_tlv_def tag_matches_def assert_tag_def
        parse_contents_def nom_takeD [OF assms(1)] split: option.splits)
qed

end
