(* ===== verification/Asn_Fields.thy ===== *)
theory Asn_Fields
  imports Tags
begin

text \<open>
  \<open>types/fields.rs\<close>: the static description of the fields of a SEQUENCE or SET,
  with the exchange sort that puts them into canonical tag order at compile time.
\<close>

datatype field_presence = Required | Optional | Default

record field =
  index :: nat
  f_tag :: tag
  tag_tree :: tag_tree
  presence :: field_presence
  name :: string

record fields =
  fields_list :: "field list"
  has_required :: bool
  number_optional_default :: nat

definition new_field :: "field_presence \<Rightarrow> nat \<Rightarrow> tag \<Rightarrow> tag_tree \<Rightarrow> string \<Rightarrow> field" where
  "new_field p i t tt nm = \<lparr>index = i, f_tag = t, tag_tree = tt, presence = p, name = nm\<rparr>"

definition new_required :: "nat \<Rightarrow> tag \<Rightarrow> tag_tree \<Rightarrow> string \<Rightarrow> field" where
  "new_required = new_field Required"

definition new_optional :: "nat \<Rightarrow> tag \<Rightarrow> tag_tree \<Rightarrow> string \<Rightarrow> field" where
  "new_optional = new_field Optional"

definition new_default :: "nat \<Rightarrow> tag \<Rightarrow> tag_tree \<Rightarrow> string \<Rightarrow> field" where
  "new_default = new_field Default"

definition is_optional_or_default :: "field \<Rightarrow> bool" where
  "is_optional_or_default f = (presence f = Optional \<or> presence f = Default)"

definition is_not_optional_or_default :: "field \<Rightarrow> bool" where
  "is_not_optional_or_default f = (\<not> is_optional_or_default f)"

text \<open>The counting loop of \<open>Fields::from_static\<close>.\<close>

definition from_static :: "field list \<Rightarrow> fields" where
  "from_static fs =
    (let (required, number_opts) =
       fold (\<lambda>f (required, number_opts).
               if is_not_optional_or_default f then (True, number_opts)
               else (required, number_opts + 1)) fs (False, 0)
     in \<lparr>fields_list = fs, has_required = required, number_optional_default = number_opts\<rparr>)"

definition optional_and_default_fields :: "fields \<Rightarrow> field list" where
  "optional_and_default_fields self = filter is_optional_or_default (fields_list self)"

definition identifiers :: "fields \<Rightarrow> string list" where
  "identifiers self = map name (fields_list self)"

text \<open>One comparison of the double loop, the inner loop over \<open>j\<close>, the outer over \<open>i\<close>.\<close>

definition exchange :: "nat \<Rightarrow> nat \<Rightarrow> field list \<Rightarrow> field list" where
  "exchange i j fs =
    (let tag_i = smallest_tag (tag_tree (fs ! i));
         tag_j = smallest_tag (tag_tree (fs ! j))
     in if const_cmp tag_i tag_j = Greater then fs[i := fs ! j, j := fs ! i] else fs)"

definition sort_pass :: "nat \<Rightarrow> field list \<Rightarrow> field list" where
  "sort_pass i fs = fold (exchange i) [i + 1..<length fs] fs"

definition canonical_sort :: "fields \<Rightarrow> fields" where
  "canonical_sort self =
    self\<lparr>fields_list := fold sort_pass [0..<length (fields_list self)] (fields_list self)\<rparr>"

definition canonised :: "fields \<Rightarrow> fields" where
  "canonised self = canonical_sort self"

section \<open>Lemmas\<close>

abbreviation key :: "field \<Rightarrow> tag" where "key f \<equiv> smallest_tag (tag_tree f)"

lemma length_exchange [simp]: "length (exchange i j fs) = length fs"
  by (simp add: exchange_def Let_def)

lemma mset_exchange: "i < length fs \<Longrightarrow> j < length fs \<Longrightarrow> mset (exchange i j fs) = mset fs"
  by (simp add: exchange_def Let_def mset_swap)

lemma nth_exchange:
  assumes "i < j" "j < length fs"
  shows "key (exchange i j fs ! i) = min (key (fs ! i)) (key (fs ! j))"
    and "key (exchange i j fs ! j) = max (key (fs ! i)) (key (fs ! j))"
    and "k \<noteq> i \<Longrightarrow> k \<noteq> j \<Longrightarrow> exchange i j fs ! k = fs ! k"
  using assms by (auto simp: exchange_def Let_def min_def max_def nth_list_update)

text \<open>After the inner loop has reached \<open>n\<close>, entry \<open>i\<close> is a lower bound of \<open>i..<n\<close>.\<close>

lemma inner_loop:
  assumes "i < n" "n \<le> length fs"
  defines "gs \<equiv> fold (exchange i) [i + 1..<n] fs"
  shows "length gs = length fs" and "mset gs = mset fs"
    and "\<forall>k < i. gs ! k = fs ! k" and "\<forall>k. i \<le> k \<longrightarrow> k < n \<longrightarrow> key (gs ! i) \<le> key (gs ! k)"
    and "mset (drop i gs) = mset (drop i fs)"
proof -
  define P where "P n gs \<longleftrightarrow> length gs = length fs \<and> mset gs = mset fs \<and>
    (\<forall>k < i. gs ! k = fs ! k) \<and> (\<forall>k. i \<le> k \<longrightarrow> k < n \<longrightarrow> key (gs ! i) \<le> key (gs ! k))" for n gs
  have step: "P n gs \<Longrightarrow> i < n \<Longrightarrow> n < length fs \<Longrightarrow> P (Suc n) (exchange i n gs)" for n gs
    by (auto simp: P_def mset_exchange nth_exchange less_Suc_eq le_eq_less_or_eq min_def)
  have "P n (fold (exchange i) [i + 1..<n] fs)"
    using assms(1,2)
  proof (induction n)
    case (Suc n)
    then show ?case
      by (cases "i = n") (auto simp: P_def step [unfolded P_def] le_less_Suc_eq)
  qed simp
  then have p: "P n gs" by (simp add: gs_def)
  then show "length gs = length fs" "mset gs = mset fs" "\<forall>k < i. gs ! k = fs ! k"
    "\<forall>k. i \<le> k \<longrightarrow> k < n \<longrightarrow> key (gs ! i) \<le> key (gs ! k)"
    by (auto simp: P_def)
  have "take i gs = take i fs"
    using p assms(1,2) by (intro nth_equalityI) (auto simp: P_def)
  then show "mset (drop i gs) = mset (drop i fs)"
    using p by (metis P_def add_left_cancel append_take_drop_id mset_append)
qed

text \<open>After \<open>i\<close> passes, the first \<open>i\<close> entries are in their final places.\<close>

definition sorted_upto :: "nat \<Rightarrow> field list \<Rightarrow> bool" where
  "sorted_upto i fs = (\<forall>a b. a < i \<longrightarrow> a < b \<longrightarrow> b < length fs \<longrightarrow> key (fs ! a) \<le> key (fs ! b))"

lemma sort_pass_sorted_upto:
  assumes "sorted_upto i fs" "i < length fs"
  shows "sorted_upto (Suc i) (sort_pass i fs)" "mset (sort_pass i fs) = mset fs"
proof -
  let ?gs = "sort_pass i fs"
  note il = inner_loop [of i "length fs" fs, folded sort_pass_def, OF assms(2) order_refl]
  show "mset ?gs = mset fs" by (rule il(2))
  have later: "key (fs ! a) \<le> key (?gs ! b)" if "a < i" "i \<le> b" "b < length fs" for a b
  proof -
    have "?gs ! b \<in> set (drop i ?gs)"
      using that il(1) by (metis in_set_drop_nth)
    then have "?gs ! b \<in> set (drop i fs)" using il(5) by (metis mset_eq_setD)
    then obtain c where "i \<le> c" "c < length fs" "?gs ! b = fs ! c"
      by (metis in_set_drop_nth)
    with assms(1) that show ?thesis by (auto simp: sorted_upto_def)
  qed
  show "sorted_upto (Suc i) ?gs"
    unfolding sorted_upto_def
  proof (intro allI impI)
    fix a b assume ab: "a < Suc i" "a < b" "b < length ?gs"
    consider "a = i" | "a < i" "b < i" | "a < i" "i \<le> b" using ab by linarith
    then show "key (?gs ! a) \<le> key (?gs ! b)"
    proof cases
      case 1
      then show ?thesis using il(1,4) ab by auto
    next
      case 2
      then show ?thesis using il(1,3) ab assms(1) by (auto simp: sorted_upto_def)
    next
      case 3
      then show ?thesis using il(1,3) ab later by simp
    qed
  qed
qed

lemma outer_loop:
  "n \<le> length fs \<Longrightarrow> sorted_upto n (fold sort_pass [0..<n] fs) \<and>
    mset (fold sort_pass [0..<n] fs) = mset fs"
proof (induction n)
  case (Suc n)
  let ?gs = "fold sort_pass [0..<n] fs"
  have "n < length ?gs" using Suc by (metis Suc_le_lessD Suc_leD size_mset)
  with Suc sort_pass_sorted_upto [of n ?gs] show ?case by simp
qed (simp add: sorted_upto_def)

lemma sorted_upto_length: "sorted_upto (length fs) fs \<longleftrightarrow> sorted (map key fs)"
  by (auto simp: sorted_upto_def sorted_iff_nth_mono_less)

lemma from_static_fold:
  "fold (\<lambda>f (r, n). if is_not_optional_or_default f then (True, n) else (r, n + 1)) fs (r0, n0) =
    (r0 \<or> list_ex is_not_optional_or_default fs,
     n0 + length (filter is_optional_or_default fs))"
  by (induction fs arbitrary: r0 n0) (auto simp: is_not_optional_or_default_def)

section \<open>Properties\<close>

text \<open>C40: \<open>Fields::canonical_sort\<close> returns the same fields, in ascending order of the
  smallest tag of their tag trees.\<close>

theorem canonical_sort_sorted:
  "sorted (map (\<lambda>f. smallest_tag (tag_tree f)) (fields_list (canonical_sort fs))) \<and>
   mset (fields_list (canonical_sort fs)) = mset (fields_list fs)"
proof -
  let ?l = "fields_list fs"
  note o = outer_loop [of "length ?l" ?l, OF order_refl]
  have "length (fold sort_pass [0..<length ?l] ?l) = length ?l"
    using o by (metis size_mset)
  then show ?thesis
    using o sorted_upto_length by (metis canonical_sort_def fields.select_convs(1)
        fields.surjective fields.update_convs(1))
qed

text \<open>\<open>Fields::from_static\<close>: the flag and the counter it stores describe the fields:
  a required field exists iff one is neither optional nor default, and the counter
  is the number of entries \<open>optional_and_default_fields\<close> iterates over.\<close>

theorem from_static_counts:
  "has_required (from_static fs) = (\<exists>f \<in> set fs. presence f = Required) \<and>
   number_optional_default (from_static fs) =
     length (optional_and_default_fields (from_static fs))"
proof -
  have "is_not_optional_or_default f \<longleftrightarrow> presence f = Required" for f
    by (cases "presence f") (simp_all add: is_not_optional_or_default_def is_optional_or_default_def)
  then show ?thesis
    using from_static_fold [of fs False 0]
    by (simp add: from_static_def optional_and_default_fields_def list_ex_iff)
qed

end
