(* ===== verification/Ber_Decoder.thy ===== *)
theory Ber_Decoder
  imports Ber_Parser Asn_Fields
begin

text \<open>
  \<open>ber/de.rs\<close>: the decoder of BER, CER and DER.  A decoding operation maps the decoder to
  a result and the decoder it leaves behind, also when it fails: the loops of SEQUENCE
  OF, SET OF and SET go on after an error with whatever input is left.  The outer
  \<open>option\<close> is \<open>None\<close> for a run that does not return.  \<open>Decode\<close> implementations and
  closures are functions of that type.
\<close>

record ber_decoder =
  d_input :: bytes
  d_config :: decoder_options
  initial_len :: nat

type_synonym 'a decode_fn = "ber_decoder \<Rightarrow> ('a dec_result \<times> ber_decoder) option"

definition decoder_new :: "bytes \<Rightarrow> decoder_options \<Rightarrow> ber_decoder" where
  "decoder_new input cfg = \<lparr>d_input = input, d_config = cfg, initial_len = length input\<rparr>"

definition decoded_len :: "ber_decoder \<Rightarrow> nat" where
  "decoded_len self = initial_len self - length (d_input self)"

definition d_codec :: "ber_decoder \<Rightarrow> codec" where
  "d_codec self = current_codec (d_config self)"

section \<open>Sequencing\<close>

definition dret :: "'a \<Rightarrow> 'a decode_fn" where "dret x self = Some (Ok x, self)"

definition derr :: "decode_error \<Rightarrow> 'a decode_fn" where "derr e self = Some (Err e, self)"

definition dlift :: "'a dec_result \<Rightarrow> 'a decode_fn" where "dlift r self = Some (r, self)"

definition dbind :: "'a decode_fn \<Rightarrow> ('a \<Rightarrow> 'b decode_fn) \<Rightarrow> 'b decode_fn" where
  "dbind m f self =
    (case m self of
       None \<Rightarrow> None
     | Some (Inl e, self') \<Rightarrow> Some (Err e, self')
     | Some (Inr x, self') \<Rightarrow> f x self')"

definition set_input :: "bytes \<Rightarrow> unit decode_fn" where
  "set_input i self = Some (Ok (), self\<lparr>d_input := i\<rparr>)"

section \<open>Helpers of the decoder\<close>

definition peek_tag :: "nom \<Rightarrow> tag decode_fn" where
  "peek_tag N self =
    dlift (and_then (map_err (map_parse_number_err (d_config self)) (parse_identifier_octet N (d_input self)))
      (\<lambda>(_, ident). Ok (id_tag ident))) self"

definition decode_optional_with_check :: "nom \<Rightarrow> tag \<Rightarrow> 'a decode_fn \<Rightarrow> 'a option decode_fn" where
  "decode_optional_with_check N t f self =
    (if d_input self = [] then dret None self
     else if 2 \<le> length (d_input self) \<and> take 2 (d_input self) = [0, 0] \<and> \<not> is_der (d_rules (d_config self))
       then dret None self
     else if t \<noteq> EOC then
       dbind (peek_tag N) (\<lambda>upcoming_tag.
         if t \<noteq> upcoming_tag then dret None else dbind f (\<lambda>x. dret (Some x))) self
     else dbind f (\<lambda>x. dret (Some x)) self)"

definition parse_eoc :: "nom \<Rightarrow> unit decode_fn" where
  "parse_eoc N self =
    (case map_err (\<lambda>e. map_nom_err e (d_codec self)) (nom_tag N [0, 0] (d_input self)) of
       Inl e \<Rightarrow> derr e self
     | Inr (i, _) \<Rightarrow> set_input i self)"

definition dec_parse_value :: "nom \<Rightarrow> tag \<Rightarrow> (ber_identifier \<times> bytes option) decode_fn" where
  "dec_parse_value N t self =
    (case parse_value N (d_config self) (d_input self) (Some t) of
       Inl e \<Rightarrow> derr e self
     | Inr (input, ident, contents) \<Rightarrow> dret (ident, contents) (self\<lparr>d_input := input\<rparr>))"

definition parse_primitive_value :: "nom \<Rightarrow> tag \<Rightarrow> (ber_identifier \<times> bytes) decode_fn" where
  "parse_primitive_value N t =
    dbind (dec_parse_value N t) (\<lambda>(ident, contents).
      case contents of
        Some contents \<Rightarrow> dret (ident, contents)
      | None \<Rightarrow> derr (from_codec_kind (BerErr IndefiniteLengthNotAllowed)))"

definition check_recursion_depth :: "unit decode_fn" where
  "check_recursion_depth self =
    (if remaining_depth (d_config self) = 0
     then derr (DecodeError ExceedsMaxParseDepth (d_codec self)) self
     else dret () self)"

text \<open>The inner decoder gets the contents and one level of depth less.\<close>

definition inner_decoder :: "bytes \<Rightarrow> decoder_options \<Rightarrow> ber_decoder" where
  "inner_decoder contents cfg =
    decoder_new contents (cfg\<lparr>remaining_depth := remaining_depth cfg - 1\<rparr>)"

definition parse_constructed_contents :: "nom \<Rightarrow> tag \<Rightarrow> bool \<Rightarrow> 'a decode_fn \<Rightarrow> 'a decode_fn" where
  "parse_constructed_contents N t check_identifier decode_fn =
    dbind check_recursion_depth (\<lambda>_.
    dbind (dec_parse_value N t) (\<lambda>(ident, contents).
    dbind (dlift (assert_tag t (id_tag ident))) (\<lambda>_.
    if check_identifier \<and> is_primitive ident
    then derr (from_codec_kind (BerErr InvalidConstructedIdentifier))
    else (\<lambda>self.
      let (streaming, contents) =
            (case contents of Some contents \<Rightarrow> (False, contents) | None \<Rightarrow> (True, d_input self))
      in case decode_fn (inner_decoder contents (d_config self)) of
           None \<Rightarrow> None
         | Some (Inl e, _) \<Rightarrow> derr e self
         | Some (Inr result, inner) \<Rightarrow>
             if streaming
             then dbind (parse_eoc N) (\<lambda>_. dret result) (self\<lparr>d_input := d_input inner\<rparr>)
             else if d_input inner \<noteq> []
             then derr (DecodeError (UnexpectedExtraData (length (d_input inner))) (d_codec self)) self
             else dret result self))))"

text \<open>Object identifiers: the first subidentifier carries two arcs.  The result is the
  list of arcs; \<open>ObjectIdentifier::new\<close> accepts it if it is not empty and its first arc is
  at most 2.\<close>

definition is_valid_oid :: "u32 list \<Rightarrow> bool" where
  "is_valid_oid oid = (oid \<noteq> [] \<and> oid ! 0 \<le> 2)"

definition object_identifier_new :: "u32 list \<Rightarrow> u32 list option" where
  "object_identifier_new vec = (if is_valid_oid vec then Some vec else None)"

partial_function (option) oid_loop ::
    "nom \<Rightarrow> decoder_options \<Rightarrow> bytes \<Rightarrow> u32 list \<Rightarrow> u32 list dec_result option" where
  "oid_loop N cfg contents buffer =
    (if contents \<noteq> [] then
       (case map_err (map_parse_number_err cfg) (parse_base128_number N contents) of
          Inl e \<Rightarrow> Some (Err e)
        | Inr (c, number) \<Rightarrow> oid_loop N cfg c (buffer @ [number]))
     else Some (Ok buffer))"

declare oid_loop.simps [code]

definition split_root_octets :: "u32 \<Rightarrow> u32 \<times> u32" where
  "split_root_octets root_octets =
    (if root_octets > 2 * (39 + 1) + 39 then (2, root_octets - 2 * (39 + 1))
     else let second = root_octets mod (39 + 1); first = (root_octets - second) div (39 + 1)
          in (first, second))"

definition decode_object_identifier_from_bytes ::
    "nom \<Rightarrow> decoder_options \<Rightarrow> bytes \<Rightarrow> u32 list dec_result option" where
  "decode_object_identifier_from_bytes N cfg data =
    (case map_err (map_parse_number_err cfg) (parse_base128_number N data) of
       Inl e \<Rightarrow> Some (Err e)
     | Inr (contents, root_octets) \<Rightarrow>
         let (first, second) = split_root_octets root_octets in
         Option.bind (oid_loop N cfg contents [first, second]) (\<lambda>r.
           Some (and_then r (\<lambda>buffer.
             ok_or (from_codec_kind (BerErr InvalidObjectIdentifier)) (object_identifier_new buffer)))))"

section \<open>Primitive types\<close>

text \<open>\<open>Vec::from\<close> as primitive callback.\<close>

definition bytes_callback :: "bytes \<Rightarrow> codec \<Rightarrow> bytes dec_result" where
  "bytes_callback input c = Ok input"

definition decode_any :: "nom \<Rightarrow> tag \<Rightarrow> bytes decode_fn" where
  "decode_any N t self =
    (let t = (if t = EOC then None else Some t) in
     case parse_value N (d_config self) (d_input self) t of
       Inl e \<Rightarrow> derr e self
     | Inr (input, ident, contents) \<Rightarrow>
         Option.bind
           (case contents of
              Some definitive_contents \<Rightarrow> Some (Ok (input, definitive_contents))
            | None \<Rightarrow> parse_encoded_value N (d_config self) (d_input self) (id_tag ident) bytes_callback)
           (\<lambda>r. case r of
              Inl e \<Rightarrow> derr e self
            | Inr (input, contents) \<Rightarrow>
                let any = (if t = None then take (length (d_input self) - length input) (d_input self)
                           else contents)
                in dret any (self\<lparr>d_input := input\<rparr>)))"

definition decode_bool :: "nom \<Rightarrow> tag \<Rightarrow> bool decode_fn" where
  "decode_bool N t =
    dbind (parse_primitive_value N t) (\<lambda>(_, contents) self.
    dbind (dlift (assert_length 1 (length contents) (d_codec self))) (\<lambda>_ self.
      if contents ! 0 = 0 then dret False self
      else if contents ! 0 = 0xFF then dret True self
      else if d_rules (d_config self) = RBer then dret True self
      else derr (DecodeError (InvalidBool (contents ! 0)) (d_codec self)) self) self)"

text \<open>\<open>width\<close> is \<open>I::WIDTH\<close> and \<open>from_bytes\<close> is \<open>I::try_from_bytes\<close>.\<close>

definition decode_integer ::
    "nom \<Rightarrow> nat \<Rightarrow> (bytes \<Rightarrow> codec \<Rightarrow> 'i dec_result) \<Rightarrow> tag \<Rightarrow> 'i decode_fn" where
  "decode_integer N width from_bytes t =
    dbind (parse_primitive_value N t) (\<lambda>(_, primitive_bytes) self.
      let integer_width = width div 8 in
      if length primitive_bytes > integer_width then
        let leading_byte = (if primitive_bytes ! 0 AND 0x80 = 0x80 then 0xFF else 0x00);
            data_length = length (dropWhile (\<lambda>n. n = leading_byte) primitive_bytes)
        in dlift (from_bytes (drop (length primitive_bytes - data_length) primitive_bytes) (d_codec self)) self
      else dlift (from_bytes primitive_bytes (d_codec self)) self)"

definition decode_enumerated :: "nom \<Rightarrow> (int \<Rightarrow> 'e option) \<Rightarrow> tag \<Rightarrow> 'e decode_fn" where
  "decode_enumerated N from_discriminant t =
    dbind (decode_integer N (BITS Isize) (try_from_bytes Isize) t) (\<lambda>discriminant self.
      dlift (ok_or (DecodeError (DiscriminantValueNotFound discriminant) (d_codec self))
        (from_discriminant discriminant)) self)"

definition decode_real :: "'r decode_fn" where
  "decode_real self = derr (DecodeError RealNotSupported (d_codec self)) self"

text \<open>The two loops of \<open>decode_octet_string\<close>.\<close>

partial_function (option) octet_string_definite ::
    "nom \<Rightarrow> decoder_options \<Rightarrow> bytes \<Rightarrow> bytes \<Rightarrow> bytes dec_result option" where
  "octet_string_definite N cfg contents buffer =
    (if contents \<noteq> [] then
       Option.bind (parse_encoded_value N cfg contents OCTET_STRING bytes_callback) (\<lambda>r.
         case r of
           Inl e \<Rightarrow> Some (Err e)
         | Inr (c, vec) \<Rightarrow> octet_string_definite N cfg c (buffer @ vec))
     else Some (Ok buffer))"

declare octet_string_definite.simps [code]

partial_function (option) octet_string_indefinite ::
    "nom \<Rightarrow> bytes \<Rightarrow> ber_decoder \<Rightarrow> (bytes dec_result \<times> ber_decoder) option" where
  "octet_string_indefinite N buffer self =
    (if take 2 (d_input self) \<noteq> [0, 0] then
       Option.bind (parse_encoded_value N (d_config self) (d_input self) OCTET_STRING bytes_callback) (\<lambda>r.
         case r of
           Inl e \<Rightarrow> Some (Err e, self)
         | Inr (c, vec) \<Rightarrow> octet_string_indefinite N (buffer @ vec) (self\<lparr>d_input := c\<rparr>))
     else Some (Ok buffer, self))"

declare octet_string_indefinite.simps [code]

definition decode_octet_string :: "nom \<Rightarrow> tag \<Rightarrow> bytes decode_fn" where
  "decode_octet_string N t =
    dbind (dec_parse_value N t) (\<lambda>(ident, contents) self.
      if is_primitive ident then
        (case contents of
           Some c \<Rightarrow> dret c self
         | None \<Rightarrow> derr (from_codec_kind (BerErr IndefiniteLengthNotAllowed)) self)
      else if id_constructed ident \<and> is_der (d_rules (d_config self))
      then derr (from_codec_kind (DerErr ConstructedEncodingNotAllowed)) self
      else
        (case contents of
           Some contents \<Rightarrow>
             Option.bind (octet_string_definite N (d_config self) contents []) (\<lambda>r. dlift r self)
         | None \<Rightarrow>
             dbind (octet_string_indefinite N []) (\<lambda>buffer. dbind (parse_eoc N) (\<lambda>_. dret buffer)) self))"

definition decode_null :: "nom \<Rightarrow> tag \<Rightarrow> unit decode_fn" where
  "decode_null N t =
    dbind (parse_primitive_value N t) (\<lambda>(_, contents) self.
      dlift (assert_length 0 (length contents) (d_codec self)) self)"

definition decode_object_identifier :: "nom \<Rightarrow> tag \<Rightarrow> u32 list decode_fn" where
  "decode_object_identifier N t =
    dbind (parse_primitive_value N t) (\<lambda>(_, contents) self.
      Option.bind (decode_object_identifier_from_bytes N (d_config self) contents) (\<lambda>r. dlift r self))"

text \<open>\<open>BitString::from_vec\<close> of the \<open>bitvec\<close> crate is the parameter \<open>from_vec\<close>.\<close>

definition bit_string_callback :: "(bytes \<Rightarrow> bool list) \<Rightarrow> bytes \<Rightarrow> codec \<Rightarrow> bool list dec_result" where
  "bit_string_callback from_vec input c =
    (case input of
       [] \<Rightarrow> Err (DecodeError UnexpectedEmptyInput c)
     | unused_bits # rest \<Rightarrow>
         if unused_bits \<le> 7 then
           let buffer = (if rest = [] then []
                 else rest[length rest - 1 := last rest AND NOT (push_bit (unat unused_bits) 1 - 1)]);
               string = from_vec buffer
           in if unat unused_bits \<le> length string
              then Ok (take (length string - unat unused_bits) string)
              else Err (DecodeError (InvalidBitString unused_bits) c)
         else Err (DecodeError (InvalidBitString unused_bits) c))"

definition decode_bit_string :: "nom \<Rightarrow> (bytes \<Rightarrow> bool list) \<Rightarrow> tag \<Rightarrow> bool list decode_fn" where
  "decode_bit_string N from_vec t self =
    Option.bind (parse_encoded_value N (d_config self) (d_input self) t (bit_string_callback from_vec))
      (\<lambda>r. case r of
         Inl e \<Rightarrow> derr e self
       | Inr (input, bs) \<Rightarrow> dret bs (self\<lparr>d_input := input\<rparr>))"

section \<open>Constructed types\<close>

definition depth_exceeded :: "decode_error \<Rightarrow> bool" where
  "depth_exceeded e = matches_root_cause e (\<lambda>kind. kind = ExceedsMaxParseDepth)"

text \<open>\<open>decoder.config.remaining_depth = decoder.config.remaining_depth.saturating_sub(1)\<close>.\<close>

definition reduce_depth :: "ber_decoder \<Rightarrow> ber_decoder" where
  "reduce_depth self =
    self\<lparr>d_config := (d_config self)\<lparr>remaining_depth := remaining_depth (d_config self) - 1\<rparr>\<rparr>"

partial_function (option) sequence_of_loop ::
    "'a decode_fn \<Rightarrow> 'a list \<Rightarrow> ber_decoder \<Rightarrow> ('a list dec_result \<times> ber_decoder) option" where
  "sequence_of_loop decode items self =
    Option.bind (decode self) (\<lambda>(r, self).
      case r of
        Inr item \<Rightarrow>
          if d_input self = [] then Some (Ok (items @ [item]), self)
          else sequence_of_loop decode (items @ [item]) self
      | Inl e \<Rightarrow> if depth_exceeded e then Some (Err e, self) else Some (Ok items, self))"

declare sequence_of_loop.simps [code]

definition decode_sequence_of :: "nom \<Rightarrow> 'a decode_fn \<Rightarrow> tag \<Rightarrow> 'a list decode_fn" where
  "decode_sequence_of N decode t =
    parse_constructed_contents N t True (\<lambda>decoder.
      let decoder = reduce_depth decoder in
      if d_input decoder = [] then dret [] decoder else sequence_of_loop decode [] decoder)"

text \<open>The loop shared by SET OF and SET: it only ends at an error.\<close>

partial_function (option) until_error_loop ::
    "'a decode_fn \<Rightarrow> 'a list \<Rightarrow> ber_decoder \<Rightarrow> ('a list dec_result \<times> ber_decoder) option" where
  "until_error_loop decode items self =
    Option.bind (decode self) (\<lambda>(r, self).
      case r of
        Inr item \<Rightarrow> until_error_loop decode (items @ [item]) self
      | Inl e \<Rightarrow> if depth_exceeded e then Some (Err e, self) else Some (Ok items, self))"

declare until_error_loop.simps [code]

definition decode_set_of :: "nom \<Rightarrow> 'a decode_fn \<Rightarrow> tag \<Rightarrow> 'a list decode_fn" where
  "decode_set_of N decode t =
    parse_constructed_contents N t True (\<lambda>decoder. until_error_loop decode [] (reduce_depth decoder))"

definition decode_sequence ::
    "nom \<Rightarrow> fields \<Rightarrow> fields option \<Rightarrow> 'a option \<Rightarrow> 'a decode_fn \<Rightarrow> tag \<Rightarrow> 'a decode_fn" where
  "decode_sequence N FIELDS EXTENDED_FIELDS default_initializer decode_fn t =
    parse_constructed_contents N t True (\<lambda>decoder.
      if fields_list FIELDS = [] \<and> EXTENDED_FIELDS = None \<or>
         length (fields_list FIELDS) = number_optional_default FIELDS \<and> d_input decoder = []
      then
        (case default_initializer of
           Some d \<Rightarrow> dret d decoder
         | None \<Rightarrow> derr (DecodeError UnexpectedEmptyInput (d_codec decoder)) decoder)
      else decode_fn decoder)"

definition decode_explicit_prefix :: "nom \<Rightarrow> 'a decode_fn \<Rightarrow> tag \<Rightarrow> 'a decode_fn" where
  "decode_explicit_prefix N decode t = parse_constructed_contents N t False decode"

text \<open>Any error becomes \<open>None\<close>; the input consumed so far stays consumed.\<close>

definition decode_optional_with_explicit_prefix ::
    "nom \<Rightarrow> 'a decode_fn \<Rightarrow> tag \<Rightarrow> 'a option decode_fn" where
  "decode_optional_with_explicit_prefix N decode t self =
    (case decode_explicit_prefix N decode t self of
       None \<Rightarrow> None
     | Some (Inr x, self') \<Rightarrow> Some (Ok (Some x), self')
     | Some (Inl _, self') \<Rightarrow> Some (Ok None, self'))"

definition decode_set ::
    "nom \<Rightarrow> 'f decode_fn \<Rightarrow> ('f list \<Rightarrow> 'a dec_result) \<Rightarrow> tag \<Rightarrow> 'a decode_fn" where
  "decode_set N decode_field field_fn t =
    parse_constructed_contents N t True
      (dbind (until_error_loop decode_field []) (\<lambda>fields. dlift (field_fn fields)))"

definition decode_choice :: "nom \<Rightarrow> (tag \<Rightarrow> 'a decode_fn) \<Rightarrow> 'a decode_fn" where
  "decode_choice N choice_from_tag self =
    (case map_err (map_parse_number_err (d_config self)) (parse_identifier_octet N (d_input self)) of
       Inl e \<Rightarrow> derr e self
     | Inr (_, ident) \<Rightarrow> choice_from_tag (id_tag ident) self)"

text \<open>\<open>ber::decode\<close> (and \<open>cer\<close>, \<open>der\<close>) and \<open>decode_with_remainder\<close>.\<close>

definition decode_with :: "decoder_options \<Rightarrow> 'a decode_fn \<Rightarrow> bytes \<Rightarrow> 'a dec_result option" where
  "decode_with cfg decode input = map_option fst (decode (decoder_new input cfg))"

definition decode_with_remainder ::
    "decoder_options \<Rightarrow> 'a decode_fn \<Rightarrow> bytes \<Rightarrow> ('a \<times> bytes) dec_result option" where
  "decode_with_remainder cfg decode input =
    map_option (\<lambda>(r, decoder). and_then r (\<lambda>x. Ok (x, d_input decoder))) (decode (decoder_new input cfg))"

end
