(* ===== verification/Ber_Termination.thy ===== *)
theory Ber_Termination
  imports Ber_Framing Ber_Decoder
begin

text \<open>
  What the parser consumes, and that the recursive parts of the BER decoder return on
  every input: \<open>parse_encoded_value\<close> with the fuel it is given, and the loops over the
  contents of object identifiers and octet strings.
\<close>

lemma parse_initial_octet_Ok:
  assumes "nom_documented N" "parse_initial_octet N input = Ok (i, ident)"
  shows "length i + 1 = length input"
  using assms(2) by (auto simp: parse_initial_octet_def result_iff nom_takeD [OF assms(1)] Let_def)

lemma dropWhile_less: "Suc 0 \<le> length (dropWhile p xs) \<Longrightarrow> length (dropWhile p xs) - Suc 0 < length xs"
  using length_dropWhile_le [of p xs] by linarith

lemma parse_encoded_number_Ok:
  assumes "nom_documented N" "parse_encoded_number N input = Ok (i, n)"
  shows "length i < length input"
  using assms(2)
  by (auto simp: parse_encoded_number_def result_iff nom_takeD [OF assms(1)]
      nom_take_whileD [OF assms(1)] dropWhile_less)

lemma parse_base128_number_Ok:
  assumes "nom_documented N" "parse_base128_number N input = Ok (i, n)"
  shows "length i < length input"
  using assms(2)
  by (auto simp: parse_base128_number_def result_iff nom_takeD [OF assms(1)]
      nom_take_whileD [OF assms(1)] concat_loop_value checked_shl_def dropWhile_less)

lemma parse_identifier_octet_Ok:
  assumes "nom_documented N" "parse_identifier_octet N input = Ok (i, ident)"
  shows "length i < length input"
  using assms(2) parse_initial_octet_Ok [OF assms(1), of input] parse_encoded_number_Ok [OF assms(1)]
  by (fastforce simp: parse_identifier_octet_def result_iff split: if_splits option.splits)

lemma take_contents_Ok:
  assumes "nom_documented N" "take_contents N input len = Ok (i, c)"
  shows "length i + length c \<le> length input"
  using assms(2)
  by (auto simp: take_contents_def result_iff nom_takeD [OF assms(1)] Let_def
      split: if_splits sum.splits)

lemma parse_contents_Ok:
  assumes "nom_documented N" "parse_contents N cfg ident input = Ok (i, c)"
  shows "length i + 1 \<le> length input" and "is_primitive ident \<Longrightarrow> c \<noteq> None"
  using assms(2) take_contents_Ok [OF assms(1)]
  by (fastforce simp: parse_contents_def result_iff nom_takeD [OF assms(1)] Let_def
      split: if_splits)+

lemma parse_value_Ok:
  assumes "nom_documented N" "parse_value N cfg input t = Ok (i, ident, c)"
  shows "length i + 2 \<le> length input" and "is_primitive ident \<Longrightarrow> c \<noteq> None"
proof -
  from assms(2) obtain j where
    j: "parse_identifier_octet N input = Ok (j, ident)" "parse_contents N cfg ident j = Ok (i, c)"
    by (auto simp: parse_value_def result_iff)
  show "length i + 2 \<le> length input"
    using parse_identifier_octet_Ok [OF assms(1) j(1)] parse_contents_Ok(1) [OF assms(1) j(2)] by simp
  show "is_primitive ident \<Longrightarrow> c \<noteq> None" using parse_contents_Ok(2) [OF assms(1) j(2)] .
qed

lemma nom_tag_Ok:
  assumes "nom_documented N" "nom_tag N t input = Ok (i, x)"
  shows "i = drop (length t) input" "take (length t) input = t"
proof -
  show "take (length t) input = t"
    using assms unfolding nom_documented_def by (metis Inl_Inr_False)
  then show "i = drop (length t) input"
    using assms unfolding nom_documented_def by (metis Pair_inject sum.inject(2))
qed

section \<open>Enough fuel\<close>

definition returns_within :: "nat \<Rightarrow> bytes \<Rightarrow> (bytes \<times> 'a) dec_result option \<Rightarrow> bool" where
  "returns_within k input r =
    (case r of None \<Rightarrow> False | Some (Inl e) \<Rightarrow> True | Some (Inr (i, _)) \<Rightarrow> length i + k \<le> length input)"

lemma encoded_value_step:
  assumes "nom_documented N" "length input0 \<le> n"
    and loop: "\<And>i. length i + 1 < n \<Longrightarrow> returns_within 0 i (encoded_loop n N cfg cb i [])"
  shows "returns_within 2 input0 (encoded_value (Suc n) N cfg cb input0 t)"
proof (cases "parse_value N cfg input0 (Some t)")
  case (Inr r)
  obtain i ident c where r: "r = (i, ident, c)" by (cases r) auto
  note pv = parse_value_Ok [OF assms(1) Inr [unfolded r]]
  show ?thesis
  proof (cases "is_primitive ident")
    case True
    then show ?thesis
      using pv Inr r by (auto simp: returns_within_def and_then_eq_Ok split: option.splits sum.splits
          elim!: and_then.elims)
  next
    case False
    have l: "returns_within 0 i (encoded_loop n N cfg cb i [])"
      using pv(1) assms(2) by (intro loop) linarith
    show ?thesis
      using l pv False Inr r nom_tag_Ok(1) [OF assms(1), of "[0, 0]"]
      by (fastforce simp: returns_within_def result_iff split: option.splits sum.splits prod.splits)
  qed
qed (simp add: returns_within_def)

lemma encoded_loop_step:
  assumes "nom_documented N"
    and ev: "\<And>i t. length i < n \<Longrightarrow> returns_within 2 i (encoded_value n N cfg cb i t)"
    and loop: "\<And>i c. length i + 1 < n \<Longrightarrow> returns_within 0 i (encoded_loop n N cfg cb i c)"
    and len: "length input < n"
  shows "returns_within 0 input (encoded_loop (Suc n) N cfg cb input container)"
proof (cases "input \<noteq> [] \<and> take 2 input \<noteq> [0, 0]")
  case True
  show ?thesis
  proof (cases "map_err (map_parse_number_err cfg) (parse_identifier_octet N input)")
    case (Inr r)
    obtain x ident where r: "r = (x, ident)" by (cases r)
    have v: "returns_within 2 input (encoded_value n N cfg cb input (id_tag ident))"
      using ev len by blast
    show ?thesis
    proof (cases "encoded_value n N cfg cb input (id_tag ident)")
      case (Some res)
      show ?thesis
      proof (cases res)
        case (Inr y)
        obtain i child where y: "y = (i, child)" by (cases y)
        have i: "length i + 2 \<le> length input" using v Some Inr y by (simp add: returns_within_def)
        have "returns_within 0 i (encoded_loop n N cfg cb i (container @ child))"
          using i len by (intro loop) linarith
        then show ?thesis
          using i True \<open>map_err _ _ = Inr r\<close> r Some Inr y
          by (auto simp: returns_within_def split: option.splits sum.splits)
      qed (use True Inr r Some in \<open>simp add: returns_within_def\<close>)
    qed (use v in \<open>simp add: returns_within_def\<close>)
  qed (use True in \<open>simp add: returns_within_def\<close>)
qed (auto simp: returns_within_def)

lemma encoded_value_returns:
  assumes "nom_documented N"
  shows "(\<forall>i t. length i < n \<longrightarrow> returns_within 2 i (encoded_value n N cfg cb i t)) \<and>
    (\<forall>i c. length i + 1 < n \<longrightarrow> returns_within 0 i (encoded_loop n N cfg cb i c))"
proof (induction n)
  case (Suc n)
  then have ev: "\<And>i t. length i < n \<Longrightarrow> returns_within 2 i (encoded_value n N cfg cb i t)"
    and loop: "\<And>i c. length i + 1 < n \<Longrightarrow> returns_within 0 i (encoded_loop n N cfg cb i c)"
    by blast+
  show ?case
    using encoded_value_step [OF assms _ loop] encoded_loop_step [OF assms ev loop]
    by (metis Suc_eq_plus1 less_Suc_eq_le Suc_less_eq)
qed simp

lemma parse_encoded_value_returns:
  assumes "nom_documented N"
  shows "returns_within 2 input0 (parse_encoded_value N cfg input0 t cb)"
  using encoded_value_returns [OF assms, of "length input0 + 1" cfg cb]
  unfolding parse_encoded_value_def by (meson less_add_one)

lemma oid_loop_returns:
  assumes "nom_documented N"
  shows "\<exists>r. oid_loop N cfg contents buffer = Some r"
proof (induction contents arbitrary: buffer rule: length_induct)
  case (1 contents)
  show ?case
  proof (cases "map_err (map_parse_number_err cfg) (parse_base128_number N contents)")
    case (Inr r)
    obtain c n where r: "r = (c, n)" by (cases r)
    then have "length c < length contents"
      using Inr parse_base128_number_Ok [OF assms] by (simp add: result_iff)
    then show ?thesis
      using 1 Inr r by (subst oid_loop.simps) simp
  qed (subst oid_loop.simps, simp)
qed

lemma parse_encoded_value_cases:
  assumes "nom_documented N"
  obtains e where "parse_encoded_value N cfg input0 t cb = Some (Err e)"
  | i rv where "parse_encoded_value N cfg input0 t cb = Some (Ok (i, rv))" "length i < length input0"
proof -
  from parse_encoded_value_returns [OF assms, of input0 cfg t cb]
  show ?thesis
    by (cases "parse_encoded_value N cfg input0 t cb")
      (auto simp: returns_within_def split: sum.splits intro: that)
qed

lemma octet_string_definite_returns:
  assumes "nom_documented N"
  shows "\<exists>r. octet_string_definite N cfg contents buffer = Some r"
proof (induction contents arbitrary: buffer rule: length_induct)
  case (1 contents)
  show ?case
    by (rule parse_encoded_value_cases [OF assms, of cfg contents OCTET_STRING bytes_callback])
      (use 1 in \<open>subst octet_string_definite.simps, simp\<close>)+
qed

lemma octet_string_indefinite_returns:
  assumes "nom_documented N"
  shows "\<exists>r. octet_string_indefinite N buffer d = Some r"
proof (induction "d_input d" arbitrary: d buffer rule: length_induct)
  case 1
  show ?case
  proof (rule parse_encoded_value_cases [OF assms, of "d_config d" "d_input d" OCTET_STRING bytes_callback])
    fix i rv
    assume p: "parse_encoded_value N (d_config d) (d_input d) OCTET_STRING bytes_callback = Some (Ok (i, rv))"
      "length i < length (d_input d)"
    have "\<exists>r. octet_string_indefinite N (buffer @ rv) (d\<lparr>d_input := i\<rparr>) = Some r"
      using 1 p(2) by simp
    then show ?thesis using p(1) by (subst octet_string_indefinite.simps) simp
  qed (subst octet_string_indefinite.simps, simp)
qed

text \<open>A decoding operation is total if it returns from every decoder.\<close>

definition total :: "'a decode_fn \<Rightarrow> bool" where
  "total m = (\<forall>d. m d \<noteq> None)"

named_theorems total_rules \<open>operations that always return\<close>

lemma total_dbind [total_rules]: "total m \<Longrightarrow> (\<And>x. total (f x)) \<Longrightarrow> total (dbind m f)"
  by (auto simp: total_def dbind_def split: option.splits sum.splits prod.splits)

lemma total_dret [total_rules]: "total (dret x)" by (simp add: total_def dret_def)
lemma total_derr [total_rules]: "total (derr e)" by (simp add: total_def derr_def)
lemma total_dlift [total_rules]: "total (dlift r)" by (simp add: total_def dlift_def)

lemma total_parse_eoc [total_rules]: "total (parse_eoc N)"
  by (auto simp: total_def parse_eoc_def derr_def set_input_def split: sum.splits)

lemma total_dec_parse_value [total_rules]: "total (dec_parse_value N t)"
  by (auto simp: total_def dec_parse_value_def derr_def dret_def split: sum.splits)

lemma total_parse_primitive_value [total_rules]: "total (parse_primitive_value N t)"
  unfolding parse_primitive_value_def
  by (intro total_rules) (auto simp: total_def derr_def dret_def split: option.splits)

lemma totalD: "total m \<Longrightarrow> \<exists>r d'. m d = Some (r, d')"
  by (auto simp: total_def)

lemma total_decode_octet_string:
  assumes "nom_documented N"
  shows "total (decode_octet_string N t)"
proof -
  have "total (octet_string_indefinite N buffer)" for buffer
    using octet_string_indefinite_returns [OF assms] by (simp add: total_def)
  then have i: "total (dbind (octet_string_indefinite N []) (\<lambda>buffer. dbind (parse_eoc N) (\<lambda>_. dret buffer)))"
    by (intro total_rules)
  have d: "Option.bind (octet_string_definite N (d_config d) c []) (\<lambda>r. dlift r d) \<noteq> None" for d c
    using octet_string_definite_returns [OF assms, of "d_config d" c "[]"] by (auto simp: dlift_def)
  show ?thesis
    unfolding decode_octet_string_def
    by (rule total_dbind [OF total_dec_parse_value])
      (use i d in \<open>auto simp: total_def dret_def derr_def split: option.splits\<close>)
qed

lemma oid_from_bytes_returns:
  assumes "nom_documented N"
  shows "decode_object_identifier_from_bytes N cfg c \<noteq> None"
proof (cases "map_err (map_parse_number_err cfg) (parse_base128_number N c)")
  case (Inr r)
  obtain contents root where r: "r = (contents, root)" by (cases r)
  obtain a b where ab: "split_root_octets root = (a, b)" by (cases "split_root_octets root")
  obtain s where "oid_loop N cfg contents [a, b] = Some s" using oid_loop_returns [OF assms] by blast
  then show ?thesis using Inr r ab by (simp add: decode_object_identifier_from_bytes_def)
qed (simp add: decode_object_identifier_from_bytes_def)

lemma total_decode_object_identifier:
  assumes "nom_documented N"
  shows "total (decode_object_identifier N t)"
proof -
  have "total (\<lambda>self. Option.bind (decode_object_identifier_from_bytes N (d_config self) c)
      (\<lambda>r. dlift r self))" for c
    using oid_from_bytes_returns [OF assms] by (simp add: total_def dlift_def Option.bind_eq_None_conv del: not_None_eq)
  then show ?thesis
    unfolding decode_object_identifier_def
    by (intro total_dbind [OF total_parse_primitive_value]) (simp split: prod.splits)
qed

section \<open>Properties\<close>

text \<open>C27: decoding an octet string returns on every input: the nested parsing of constructed
  and of indefinite-length strings never runs forever.\<close>

theorem decode_octet_string_terminates:
  assumes "nom_documented N"
  shows "\<exists>r d'. decode_octet_string N t d = Some (r, d')"
  by (rule totalD) (rule total_decode_octet_string [OF assms])

theorem decode_octet_string_terminates_witness:
  "\<exists>r d'. decode_octet_string ref_nom OCTET_STRING (decoder_new [0x24, 0x80, 0x04, 0x01, 0x07, 0, 0]
     decoder_options_ber) = Some (r, d')"
  by (rule decode_octet_string_terminates) (rule ref_nom_documented)

text \<open>Decoding an object identifier returns on every input.\<close>

theorem decode_object_identifier_terminates:
  assumes "nom_documented N"
  shows "\<exists>r d'. decode_object_identifier N t d = Some (r, d')"
  by (rule totalD) (rule total_decode_object_identifier [OF assms])

theorem decode_object_identifier_terminates_witness:
  "\<exists>r d'. decode_object_identifier ref_nom OBJECT_IDENTIFIER
     (decoder_new [0x06, 0x03, 0x2a, 0x86, 0x48] decoder_options_der) = Some (r, d')"
  by (rule decode_object_identifier_terminates) (rule ref_nom_documented)

end
