(* ===== verification/Ber_Codec.thy ===== *)
theory Ber_Codec
  imports Ber_Termination
begin

text \<open>
  The contract between an \<open>Encode\<close> implementation and its \<open>Decode\<close> implementation under
  BER, CER and DER, as a locale: the encoder appends the octets of the value, the
  decoder takes exactly those octets off its input and returns the value, and at the end
  of the contents (no input, or end-of-contents octets) it fails without consuming
  anything.  Whole messages, SEQUENCE OF, SET OF, SEQUENCE and explicit tags are proved
  once, for every codec that keeps the contract.
\<close>

section \<open>Reading framed values\<close>

lemma parse_value_at_end:
  assumes "nom_documented N" "input = [] \<or> take 2 input = [0, 0]"
  shows "\<exists>e. parse_value N cfg input t = Err e \<and> \<not> depth_exceeded e"
proof (cases input)
  case Nil
  obtain k where "nom_take N 1 [] = Err (NomIncomplete k)"
    using assms(1) unfolding nom_documented_def by (metis length_0_conv less_one)
  then show ?thesis
    using Nil by (simp add: parse_value_def parse_identifier_octet_def parse_initial_octet_def
        map_parse_number_err_def map_nom_err_def depth_exceeded_def matches_root_cause_def)
next
  case (Cons b bs)
  then have "b = 0" using assms(2) by (cases bs) auto
  then show ?thesis
    using Cons by (simp add: parse_value_def parse_identifier_octet_def parse_initial_octet_def
        nom_takeD [OF assms(1)] class_from_u8_def identifier_new_def EOC_def Let_def
        map_parse_number_err_def map_nom_err_def depth_exceeded_def matches_root_cause_def)
qed

lemma dec_parse_value_at_end:
  assumes "nom_documented N" "d_input d = [] \<or> take 2 (d_input d) = [0, 0]"
  shows "\<exists>e. dec_parse_value N t d = Some (Err e, d) \<and> \<not> depth_exceeded e"
  using parse_value_at_end [OF assms, of "d_config d" "Some t"]
  by (auto simp: dec_parse_value_def derr_def)

lemma dbind_Err: "m d = Some (Inl e, d') \<Longrightarrow> dbind m f d = Some (Inl e, d')"
  by (simp add: dbind_def)

lemma dbind_Ok: "m d = Some (Inr x, d') \<Longrightarrow> dbind m f d = f x d'"
  by (simp add: dbind_def)

lemma dec_parse_value_tlv:
  assumes "nom_documented N" "t \<noteq> EOC" "length val \<le> usize_MAX"
    "d_input d = tlv (from_tag t k) val @ rest"
  shows "dec_parse_value N t d =
    Some (Ok (written_identifier (from_tag t k), Some val), d\<lparr>d_input := rest\<rparr>)"
  using parse_value_tlv [of N "from_tag t k" val "Some t" "d_config d" rest] assms
  by (simp add: dec_parse_value_def dret_def from_tag_def tag_matches_def)

lemma parse_primitive_value_tlv:
  assumes "nom_documented N" "t \<noteq> EOC" "length val \<le> usize_MAX"
    "d_input d = tlv (from_tag t False) val @ rest"
  shows "parse_primitive_value N t d =
    Some (Ok (written_identifier (from_tag t False), val), d\<lparr>d_input := rest\<rparr>)"
  using dec_parse_value_tlv [OF assms] by (simp add: parse_primitive_value_def dbind_def dret_def)

lemma parse_primitive_value_at_end:
  assumes "nom_documented N" "d_input d = [] \<or> take 2 (d_input d) = [0, 0]"
  shows "\<exists>e. parse_primitive_value N t d = Some (Err e, d) \<and> \<not> depth_exceeded e"
  using dec_parse_value_at_end [OF assms, of t]
  by (auto simp: parse_primitive_value_def dbind_def)

lemma encode_primitive_out:
  "\<not> is_set_encoding e \<Longrightarrow>
    encode_primitive t val e = e\<lparr>out := out e @ tlv (from_tag t False) val\<rparr>"
  by (simp add: encode_primitive_def encode_value_out frame_def from_tag_def is_primitive_def)

lemma encode_constructed_out:
  "\<not> is_set_encoding e \<Longrightarrow>
    encode_constructed t val e = e\<lparr>out := out e @ frame (config e) (from_tag t True) val\<rparr>"
  by (simp add: encode_constructed_def encode_value_out)

lemma frame_not_Nil: "frame r ident val \<noteq> []"
proof -
  have "bytes_of (encode_identifier ident) \<noteq> []"
    using encode_as_base128_not_Nil by (simp add: encode_identifier_eq Let_def)
  then show ?thesis by (simp add: frame_def tlv_def indefinite_tlv_def)
qed

text \<open>What follows the contents inside the inner decoder.\<close>

definition contents_tail :: "encoding_rules \<Rightarrow> bytes \<Rightarrow> bytes" where
  "contents_tail r rest = (if is_cer r then [0, 0] @ rest else [])"

lemma contents_tail_end: "contents_tail r rest = [] \<or> take 2 (contents_tail r rest) = [0, 0]"
  by (simp add: contents_tail_def)

lemma nom_tag_eoc:
  assumes "nom_documented N"
  shows "nom_tag N [0, 0] ([0, 0] @ rest) = Ok (rest, [0, 0])"
proof -
  have "take (length [0, 0]) ([0, 0] @ rest) = [0 :: u8, 0]" by simp
  then have "nom_tag N [0, 0] ([0, 0] @ rest) = Ok (drop (length [0 :: u8, 0]) ([0, 0] @ rest), [0, 0])"
    using assms unfolding nom_documented_def by blast
  then show ?thesis by simp
qed

lemma parse_constructed_frame:
  assumes N: "nom_documented N" and t: "t \<noteq> EOC" and len: "length content \<le> usize_MAX"
    and depth: "remaining_depth (d_config d) \<noteq> 0"
    and input: "d_input d = frame (d_rules (d_config d)) (from_tag t True) content @ rest"
    and body: "f (inner_decoder (content @ contents_tail (d_rules (d_config d)) rest) (d_config d)) =
      Some (Ok x, inner)" "d_input inner = contents_tail (d_rules (d_config d)) rest"
  shows "parse_constructed_contents N t check f d = Some (Ok x, d\<lparr>d_input := rest\<rparr>)"
proof (cases "is_cer (d_rules (d_config d))")
  case False
  have w: "written_identifier (from_tag t True) = from_tag t True"
    by (simp add: written_identifier_def from_tag_def)
  have "d_input d = tlv (from_tag t True) content @ rest" using input False by (simp add: frame_def)
  from dec_parse_value_tlv [OF N t len this, unfolded w] False body depth show ?thesis
    by (simp add: parse_constructed_contents_def check_recursion_depth_def dbind_def dret_def dlift_def
        derr_def contents_tail_def from_tag_def is_primitive_def assert_tag_def)
next
  case True
  have w: "written_identifier (from_tag t True) = from_tag t True"
    by (simp add: written_identifier_def from_tag_def)
  have "parse_value N (d_config d) (indefinite_tlv (from_tag t True) content @ rest) (Some t) =
      Ok (content @ [0, 0] @ rest, from_tag t True, None)"
    using parse_value_indefinite [OF N, of "from_tag t True" "Some t" "d_config d" content rest, unfolded w]
      t True
    by (simp add: from_tag_def is_primitive_def tag_matches_def allows_indefinite_def is_cer_def)
  moreover have "d_input d = indefinite_tlv (from_tag t True) content @ rest"
    using input True by (simp add: frame_def from_tag_def is_primitive_def)
  ultimately have "dec_parse_value N t d =
      Some (Ok (from_tag t True, None), d\<lparr>d_input := content @ [0, 0] @ rest\<rparr>)"
    by (simp add: dec_parse_value_def dret_def)
  with True body depth nom_tag_eoc [OF N] show ?thesis
    by (simp add: parse_constructed_contents_def check_recursion_depth_def dbind_def dret_def dlift_def
        derr_def contents_tail_def from_tag_def is_primitive_def assert_tag_def parse_eoc_def set_input_def)
qed

lemma parse_constructed_at_end:
  assumes "nom_documented N" "remaining_depth (d_config d) \<noteq> 0"
    "d_input d = [] \<or> take 2 (d_input d) = [0, 0]"
  shows "\<exists>e. parse_constructed_contents N t check f d = Some (Err e, d) \<and> \<not> depth_exceeded e"
  using dec_parse_value_at_end [OF assms(1,3), of t] assms(2)
  by (auto simp: parse_constructed_contents_def check_recursion_depth_def dbind_def dret_def)

section \<open>The contract\<close>

definition decoder_options_for :: "encoding_rules \<Rightarrow> decoder_options" where
  "decoder_options_for r = (case r of RBer \<Rightarrow> decoder_options_ber | RCer \<Rightarrow> decoder_options_cer
    | RDer \<Rightarrow> decoder_options_der)"

lemma decoder_options_for [simp]:
  "d_rules (decoder_options_for r) = r" "remaining_depth (decoder_options_for r) = 128"
  by (cases r; simp add: decoder_options_for_def decoder_options_ber_def decoder_options_cer_def
      decoder_options_der_def)+

locale ber_codec =
  fixes enc :: "'v \<Rightarrow> encode_fn"
    and dec :: "nom \<Rightarrow> 'v decode_fn"
    and oct :: "encoding_rules \<Rightarrow> 'v \<Rightarrow> bytes"
    and wf :: "encoding_rules \<Rightarrow> 'v \<Rightarrow> bool"
    and depth :: nat
  assumes enc_octets: "wf (config e) v \<Longrightarrow> \<not> is_set_encoding e \<Longrightarrow>
      enc v e = Ok (e\<lparr>out := out e @ oct (config e) v\<rparr>)"
    and dec_octets: "nom_documented N \<Longrightarrow> wf (d_rules (d_config d)) v \<Longrightarrow>
      depth \<le> remaining_depth (d_config d) \<Longrightarrow> d_input d = oct (d_rules (d_config d)) v @ rest \<Longrightarrow>
      dec N d = Some (Ok v, d\<lparr>d_input := rest\<rparr>)"
    and octets_not_Nil: "wf r v \<Longrightarrow> oct r v \<noteq> []"
    and dec_at_end: "nom_documented N \<Longrightarrow> depth \<le> remaining_depth (d_config d) \<Longrightarrow>
      d_input d = [] \<or> take 2 (d_input d) = [0, 0] \<Longrightarrow>
      \<exists>e. dec N d = Some (Err e, d) \<and> \<not> depth_exceeded e"
begin

lemma message_roundtrip:
  assumes "nom_documented N" "wf r v" "depth \<le> 128"
  shows "encode_with r (enc v) = Ok (oct r v)"
    and "decode_with_remainder (decoder_options_for r) (dec N) (oct r v @ rest) = Some (Ok (v, rest))"
proof -
  have "enc v (encoder_new r) = Ok ((encoder_new r)\<lparr>out := oct r v\<rparr>)"
    using enc_octets [of "encoder_new r" v] assms(2) by (simp add: encoder_new_def)
  then show "encode_with r (enc v) = Ok (oct r v)"
    by (simp add: encode_with_def encoder_output_def encoder_new_def)
  have "dec N (decoder_new (oct r v @ rest) (decoder_options_for r)) =
      Some (Ok v, (decoder_new (oct r v @ rest) (decoder_options_for r))\<lparr>d_input := rest\<rparr>)"
    using assms by (intro dec_octets) (simp_all add: decoder_new_def)
  then show "decode_with_remainder (decoder_options_for r) (dec N) (oct r v @ rest) = Some (Ok (v, rest))"
    by (simp add: decode_with_remainder_def)
qed

lemma oct_inj:
  assumes "wf r v" "wf r w" "depth \<le> 128" "oct r v @ xs = oct r w @ ys"
  shows "v = w \<and> xs = ys"
proof -
  have "Some (Ok (v, xs)) = Some (Ok (w, ys) :: (_ \<times> _) dec_result)"
    using message_roundtrip(2) [OF ref_nom_documented assms(1,3), of xs]
      message_roundtrip(2) [OF ref_nom_documented assms(2,3), of ys] assms(4) by metis
  then show ?thesis by simp
qed

lemma encode_all_octets:
  assumes "\<forall>v \<in> set vs. wf (config e) v" "\<not> is_set_encoding e"
  shows "encode_all (map enc vs) e = Ok (e\<lparr>out := out e @ concat (map (oct (config e)) vs)\<rparr>)"
  using assms by (induction vs arbitrary: e) (simp_all add: enc_octets)

lemma sequence_of_loop_octets:
  assumes "nom_documented N" "\<forall>v \<in> set vs. wf (d_rules (d_config d)) v"
    "depth \<le> remaining_depth (d_config d)" "tail = [] \<or> take 2 tail = [0, 0]"
    "d_input d = concat (map (oct (d_rules (d_config d))) vs) @ tail"
  shows "sequence_of_loop (dec N) items d = Some (Ok (items @ vs), d\<lparr>d_input := tail\<rparr>)"
  using assms(2-)
proof (induction vs arbitrary: d items)
  case Nil
  then obtain e where "dec N d = Some (Err e, d)" "\<not> depth_exceeded e"
    using dec_at_end [OF assms(1)] by force
  then show ?case using Nil by (subst sequence_of_loop.simps) simp
next
  case (Cons v vs)
  let ?rest = "concat (map (oct (d_rules (d_config d))) vs) @ tail"
  have s: "dec N d = Some (Ok v, d\<lparr>d_input := ?rest\<rparr>)"
    using Cons.prems by (intro dec_octets [OF assms(1)]) simp_all
  show ?case
  proof (cases "?rest = []")
    case True
    then have "vs = []"
      using Cons.prems(1) octets_not_Nil by (cases vs) auto
    with s True show ?thesis by (subst sequence_of_loop.simps) simp
  next
    case False
    have "sequence_of_loop (dec N) (items @ [v]) (d\<lparr>d_input := ?rest\<rparr>) =
        Some (Ok ((items @ [v]) @ vs), (d\<lparr>d_input := ?rest\<rparr>)\<lparr>d_input := tail\<rparr>)"
      using Cons.prems by (intro Cons.IH) simp_all
    with s False show ?thesis by (subst sequence_of_loop.simps) auto
  qed
qed

lemma until_error_loop_octets:
  assumes "nom_documented N" "\<forall>v \<in> set vs. wf (d_rules (d_config d)) v"
    "depth \<le> remaining_depth (d_config d)" "tail = [] \<or> take 2 tail = [0, 0]"
    "d_input d = concat (map (oct (d_rules (d_config d))) vs) @ tail"
  shows "until_error_loop (dec N) items d = Some (Ok (items @ vs), d\<lparr>d_input := tail\<rparr>)"
  using assms(2-)
proof (induction vs arbitrary: d items)
  case Nil
  then obtain e where "dec N d = Some (Err e, d)" "\<not> depth_exceeded e"
    using dec_at_end [OF assms(1)] by force
  then show ?case using Nil by (subst until_error_loop.simps) simp
next
  case (Cons v vs)
  let ?rest = "concat (map (oct (d_rules (d_config d))) vs) @ tail"
  have "dec N d = Some (Ok v, d\<lparr>d_input := ?rest\<rparr>)"
    using Cons.prems by (intro dec_octets [OF assms(1)]) simp_all
  moreover have "until_error_loop (dec N) (items @ [v]) (d\<lparr>d_input := ?rest\<rparr>) =
      Some (Ok ((items @ [v]) @ vs), (d\<lparr>d_input := ?rest\<rparr>)\<lparr>d_input := tail\<rparr>)"
    using Cons.prems by (intro Cons.IH) simp_all
  ultimately show ?case by (subst until_error_loop.simps) simp
qed

end

end
