(* ===== verification/Ber_Composite.thy ===== *)
theory Ber_Composite
  imports Ber_Codec
begin

text \<open>
  Constructed types over any codec that keeps the contract: SEQUENCE OF, explicit tags and
  a SEQUENCE of two components keep it again (as sublocales), SET OF round trips up to the
  order of its elements.
\<close>

section \<open>Sorting\<close>

lemma mset_insert_by: "mset (insert_by cmp x xs) = add_mset x (mset xs)"
  by (induction xs) auto

lemma mset_sort_by: "mset (sort_by cmp xs) = mset xs"
  by (induction xs) (simp_all add: sort_by_def mset_insert_by)

lemma mset_map_lift: "mset ys = mset (map f xs) \<Longrightarrow> \<exists>zs. mset zs = mset xs \<and> map f zs = ys"
proof (induction ys arbitrary: xs)
  case (Cons y ys)
  then have "y \<in> set (map f xs)" by (metis list.set_intros(1) mset_eq_setD)
  then obtain x where x: "x \<in> set xs" "f x = y" by auto
  then have "mset ys = mset (map f (remove1 x xs))"
    using Cons.prems by (simp add: image_mset_Diff) (metis add_mset_remove_trivial)
  then obtain zs where zs: "mset zs = mset (remove1 x xs)" "map f zs = ys" using Cons.IH by blast
  then show ?case using x by (intro exI [of _ "x # zs"]) simp
qed simp

lemma collect_results_map_Ok:
  "(\<And>x. x \<in> set xs \<Longrightarrow> f x = Ok (g x)) \<Longrightarrow> collect_results (map f xs) = Ok (map g xs)"
  by (induction xs) simp_all

section \<open>SEQUENCE OF, SET OF and explicit tags\<close>

locale tagged_ber_codec = ber_codec enc dec oct wf depth
  for enc :: "'v \<Rightarrow> encode_fn" and dec :: "nom \<Rightarrow> 'v decode_fn"
    and oct :: "encoding_rules \<Rightarrow> 'v \<Rightarrow> bytes" and wf :: "encoding_rules \<Rightarrow> 'v \<Rightarrow> bool"
    and depth :: nat +
  fixes t :: tag
  assumes tag_not_EOC: "t \<noteq> EOC"
begin

definition elements :: "encoding_rules \<Rightarrow> 'v list \<Rightarrow> bytes" where
  "elements r vs = concat (map (oct r) vs)"

definition elements_wf :: "encoding_rules \<Rightarrow> 'v list \<Rightarrow> bool" where
  "elements_wf r vs \<longleftrightarrow> (\<forall>v \<in> set vs. wf r v) \<and> length (elements r vs) \<le> usize_MAX"

lemma encode_sequence_of_octets:
  assumes "elements_wf (config e) vs" "\<not> is_set_encoding e"
  shows "encode_sequence_of t (map enc vs) e =
    Ok (e\<lparr>out := out e @ frame (config e) (from_tag t True) (elements (config e) vs)\<rparr>)"
  using assms encode_all_octets [of vs "encoder_new (config e)"]
  by (simp add: encode_sequence_of_def encoder_new_def encode_constructed_out elements_def elements_wf_def)

lemma reduce_depth_simps [simp]:
  "d_input (reduce_depth d) = d_input d" "d_rules (d_config (reduce_depth d)) = d_rules (d_config d)"
  "remaining_depth (d_config (reduce_depth d)) = remaining_depth (d_config d) - 1"
  by (simp_all add: reduce_depth_def)

lemma inner_decoder_simps [simp]:
  "d_input (inner_decoder c cfg) = c" "d_rules (d_config (inner_decoder c cfg)) = d_rules cfg"
  "remaining_depth (d_config (inner_decoder c cfg)) = remaining_depth cfg - 1"
  by (simp_all add: inner_decoder_def decoder_new_def)

lemma same_input: "d_input d = x \<Longrightarrow> d\<lparr>d_input := x\<rparr> = d" for d :: ber_decoder
  by (cases d) simp

lemma decode_sequence_of_octets:
  assumes "nom_documented N" "elements_wf (d_rules (d_config d)) vs"
    "depth + 2 \<le> remaining_depth (d_config d)"
    "d_input d = frame (d_rules (d_config d)) (from_tag t True) (elements (d_rules (d_config d)) vs) @ rest"
  shows "decode_sequence_of N (dec N) t d = Some (Ok vs, d\<lparr>d_input := rest\<rparr>)"
proof -
  let ?r = "d_rules (d_config d)"
  let ?tail = "contents_tail ?r rest"
  define i where "i = reduce_depth (inner_decoder (elements ?r vs @ ?tail) (d_config d))"
  have l: "sequence_of_loop (dec N) [] i = Some (Ok ([] @ vs), i\<lparr>d_input := ?tail\<rparr>)"
    by (rule sequence_of_loop_octets)
      (use assms contents_tail_end [of ?r rest] in \<open>auto simp: i_def elements_wf_def elements_def\<close>)
  have di: "d_input i = elements ?r vs @ ?tail" by (simp add: i_def)
  have "elements ?r vs @ ?tail = [] \<Longrightarrow> vs = [] \<and> ?tail = []"
    using assms(2) octets_not_Nil by (cases vs) (auto simp: elements_def elements_wf_def)
  note empty = this
  define f where "f = (\<lambda>decoder. let decoder = reduce_depth decoder in
    if d_input decoder = [] then dret [] decoder else sequence_of_loop (dec N) [] decoder)"
  have body: "f (inner_decoder (elements ?r vs @ ?tail) (d_config d)) = Some (Ok vs, i\<lparr>d_input := ?tail\<rparr>)"
    using l empty same_input [of i] by (auto simp: f_def dret_def i_def [symmetric] di)
  have "d_input (i\<lparr>d_input := ?tail\<rparr>) = ?tail" "remaining_depth (d_config d) \<noteq> 0"
    "length (elements ?r vs) \<le> usize_MAX"
    using assms(2,3) by (simp_all add: elements_wf_def)
  with parse_constructed_frame [where f = f, OF assms(1) tag_not_EOC _ _ assms(4) body] show ?thesis
    unfolding decode_sequence_of_def f_def by blast
qed

lemma encode_set_of_octets:
  assumes "\<forall>v \<in> set vs. wf (config e) v" "\<not> is_set_encoding e"
  shows "encode_set_of t (map enc vs) e =
    Ok (e\<lparr>out := out e @ frame (config e) (from_tag t True)
      (concat (sort_by octet_string_ascending (map (oct (config e)) vs)))\<rparr>)"
proof -
  have "collect_results (map (\<lambda>v. map_ok out (enc v (encoder_new (config e)))) vs) =
      Ok (map (oct (config e)) vs)"
    using assms(1) enc_octets [of "encoder_new (config e)"]
    by (intro collect_results_map_Ok) (simp add: encoder_new_def)
  then show ?thesis
    using assms(2) by (simp add: encode_set_of_def comp_def encode_constructed_out)
qed

lemma set_of_roundtrip:
  assumes "nom_documented N" "elements_wf r vs" "d_rules (d_config d) = r"
    "depth + 2 \<le> remaining_depth (d_config d)"
    "d_input d = frame r (from_tag t True) (concat (sort_by octet_string_ascending (map (oct r) vs))) @ rest"
  shows "\<exists>ws. mset ws = mset vs \<and> decode_set_of N (dec N) t d = Some (Ok ws, d\<lparr>d_input := rest\<rparr>)"
proof -
  let ?tail = "contents_tail r rest"
  obtain ws where ws: "mset ws = mset vs" "map (oct r) ws = sort_by octet_string_ascending (map (oct r) vs)"
    using mset_map_lift [of "sort_by octet_string_ascending (map (oct r) vs)" "oct r" vs]
    by (auto simp: mset_sort_by)
  have wf: "\<forall>v \<in> set ws. wf r v" using assms(2) ws(1) by (metis elements_wf_def mset_eq_setD)
  have "length (concat (map (oct r) ws)) = length (elements r vs)"
    using ws(1) by (simp add: elements_def length_concat) (metis mset_map sum_mset_sum_list)
  then have len: "length (concat (map (oct r) ws)) \<le> usize_MAX"
    using assms(2) by (simp add: elements_wf_def)
  define i where "i = reduce_depth (inner_decoder (concat (map (oct r) ws) @ ?tail) (d_config d))"
  have "until_error_loop (dec N) [] i = Some (Ok ([] @ ws), i\<lparr>d_input := ?tail\<rparr>)"
    by (rule until_error_loop_octets)
      (use assms wf contents_tail_end [of r rest] in \<open>auto simp: i_def\<close>)
  moreover define f where "f = (\<lambda>decoder. until_error_loop (dec N) [] (reduce_depth decoder))"
  ultimately have body:
    "f (inner_decoder (concat (map (oct r) ws) @ contents_tail (d_rules (d_config d)) rest) (d_config d)) =
      Some (Ok ws, i\<lparr>d_input := ?tail\<rparr>)"
    using assms(3) by (simp add: i_def)
  have "d_input (i\<lparr>d_input := ?tail\<rparr>) = contents_tail (d_rules (d_config d)) rest"
    "remaining_depth (d_config d) \<noteq> 0"
    "d_input d = frame (d_rules (d_config d)) (from_tag t True) (concat (map (oct r) ws)) @ rest"
    using assms ws(2) by simp_all
  with parse_constructed_frame [where f = f, OF assms(1) tag_not_EOC len _ _ body]
  have "decode_set_of N (dec N) t d = Some (Ok ws, d\<lparr>d_input := rest\<rparr>)"
    unfolding decode_set_of_def f_def by blast
  with ws(1) show ?thesis by blast
qed

lemma set_of_message:
  assumes "nom_documented N" "elements_wf r vs" "depth + 2 \<le> 128"
  shows "\<exists>octets ws. encode_with r (encode_set_of t (map enc vs)) = Ok octets \<and> mset ws = mset vs \<and>
    decode_with_remainder (decoder_options_for r) (decode_set_of N (dec N) t) (octets @ rest) = Some (Ok (ws, rest))"
proof -
  define octets where "octets = frame r (from_tag t True)
    (concat (sort_by octet_string_ascending (map (oct r) vs)))"
  define d where "d = decoder_new (octets @ rest) (decoder_options_for r)"
  have "encode_set_of t (map enc vs) (encoder_new r) = Ok ((encoder_new r)\<lparr>out := octets\<rparr>)"
    using encode_set_of_octets [of vs "encoder_new r"] assms(2)
    by (simp add: encoder_new_def octets_def elements_wf_def)
  then have "encode_with r (encode_set_of t (map enc vs)) = Ok octets"
    by (simp add: encode_with_def encoder_output_def encoder_new_def)
  moreover obtain ws where "mset ws = mset vs"
    "decode_set_of N (dec N) t d = Some (Ok ws, d\<lparr>d_input := rest\<rparr>)"
    using set_of_roundtrip [OF assms(1,2), of d rest] assms(3)
    by (auto simp: d_def decoder_new_def octets_def)
  ultimately show ?thesis
    by (intro exI [of _ octets] exI [of _ ws]) (simp add: decode_with_remainder_def d_def)
qed

end

sublocale tagged_ber_codec \<subseteq> seq_of: ber_codec
  "\<lambda>vs. encode_sequence_of t (map enc vs)" "\<lambda>N. decode_sequence_of N (dec N) t"
  "\<lambda>r vs. frame r (from_tag t True) (elements r vs)" elements_wf "depth + 2"
proof
  fix N and d :: ber_decoder
  assume "nom_documented N" "depth + 2 \<le> remaining_depth (d_config d)"
    "d_input d = [] \<or> take 2 (d_input d) = [0, 0]"
  then show "\<exists>e. decode_sequence_of N (dec N) t d = Some (Err e, d) \<and> \<not> depth_exceeded e"
    unfolding decode_sequence_of_def by (intro parse_constructed_at_end) auto
qed (simp_all add: encode_sequence_of_octets decode_sequence_of_octets frame_not_Nil)

sublocale tagged_ber_codec \<subseteq> explicit: ber_codec
  "\<lambda>v. encode_explicit_prefix t True (enc v)" "\<lambda>N. decode_explicit_prefix N (dec N) t"
  "\<lambda>r v. frame r (from_tag t True) (oct r v)" "\<lambda>r v. wf r v \<and> length (oct r v) \<le> usize_MAX" "depth + 1"
proof
  fix v and e :: ber_encoder
  assume "wf (config e) v \<and> length (oct (config e) v) \<le> usize_MAX" "\<not> is_set_encoding e"
  then show "encode_explicit_prefix t True (enc v) e =
      Ok (e\<lparr>out := out e @ frame (config e) (from_tag t True) (oct (config e) v)\<rparr>)"
    using enc_octets [of "encoder_new (config e)" v]
    by (simp add: encode_explicit_prefix_def encoder_new_def encode_constructed_out)
next
  fix N v rest and d :: ber_decoder
  let ?r = "d_rules (d_config d)"
  assume a: "nom_documented N" "wf ?r v \<and> length (oct ?r v) \<le> usize_MAX"
    "depth + 1 \<le> remaining_depth (d_config d)" "d_input d = frame ?r (from_tag t True) (oct ?r v) @ rest"
  let ?i = "inner_decoder (oct ?r v @ contents_tail ?r rest) (d_config d)"
  have "dec N ?i = Some (Ok v, ?i\<lparr>d_input := contents_tail ?r rest\<rparr>)"
    using a by (intro dec_octets) simp_all
  then show "decode_explicit_prefix N (dec N) t d = Some (Ok v, d\<lparr>d_input := rest\<rparr>)"
    using parse_constructed_frame [OF a(1) tag_not_EOC _ _ a(4), of "dec N" v _ False] a(2,3)
    by (simp add: decode_explicit_prefix_def)
next
  fix N and d :: ber_decoder
  assume "nom_documented N" "depth + 1 \<le> remaining_depth (d_config d)"
    "d_input d = [] \<or> take 2 (d_input d) = [0, 0]"
  then show "\<exists>e. decode_explicit_prefix N (dec N) t d = Some (Err e, d) \<and> \<not> depth_exceeded e"
    unfolding decode_explicit_prefix_def by (intro parse_constructed_at_end) auto
qed (simp add: frame_not_Nil)

section \<open>SEQUENCE\<close>

text \<open>A SEQUENCE with two components: the closure the derive macro passes to
  \<open>encode_sequence\<close> encodes them in order, the one for \<open>decode_sequence\<close> decodes them in the
  same order.\<close>

definition sequence_scope :: "encode_fn \<Rightarrow> encode_fn \<Rightarrow> encode_fn" where
  "sequence_scope f g e = and_then (f e) g"

definition sequence_body :: "'a decode_fn \<Rightarrow> 'b decode_fn \<Rightarrow> ('a \<times> 'b) decode_fn" where
  "sequence_body f g = dbind f (\<lambda>x. dbind g (\<lambda>y. dret (x, y)))"

locale ber_sequence2 =
  a: ber_codec enca deca octa wfa deptha + b: ber_codec encb decb octb wfb depthb
  for enca :: "'a \<Rightarrow> encode_fn" and deca octa wfa deptha
    and encb :: "'b \<Rightarrow> encode_fn" and decb octb wfb depthb +
  fixes t :: tag and FIELDS :: fields and EXTENDED :: "fields option" and dflt :: "('a \<times> 'b) option"
  assumes tag_not_EOC: "t \<noteq> EOC"
    and required: "number_optional_default FIELDS < length (fields_list FIELDS)"
begin

definition components :: "encoding_rules \<Rightarrow> 'a \<times> 'b \<Rightarrow> bytes" where
  "components r v = octa r (fst v) @ octb r (snd v)"

lemma sequence_body_octets:
  assumes "nom_documented N" "wfa (d_rules (d_config i)) (fst v)" "wfb (d_rules (d_config i)) (snd v)"
    "deptha \<le> remaining_depth (d_config i)" "depthb \<le> remaining_depth (d_config i)"
    "d_input i = components (d_rules (d_config i)) v @ tail"
  shows "sequence_body (deca N) (decb N) i = Some (Ok v, i\<lparr>d_input := tail\<rparr>)"
proof -
  let ?r = "d_rules (d_config i)"
  have "deca N i = Some (Ok (fst v), i\<lparr>d_input := octb ?r (snd v) @ tail\<rparr>)"
    using assms by (intro a.dec_octets) (simp_all add: components_def)
  moreover have "decb N (i\<lparr>d_input := octb ?r (snd v) @ tail\<rparr>) =
      Some (Ok (snd v), (i\<lparr>d_input := octb ?r (snd v) @ tail\<rparr>)\<lparr>d_input := tail\<rparr>)"
    using assms by (intro b.dec_octets) simp_all
  ultimately show ?thesis by (simp add: sequence_body_def dbind_def dret_def)
qed

end

sublocale ber_sequence2 \<subseteq> seq: ber_codec
  "\<lambda>v. encode_sequence t (sequence_scope (enca (fst v)) (encb (snd v)))"
  "\<lambda>N. decode_sequence N FIELDS EXTENDED dflt (sequence_body (deca N) (decb N)) t"
  "\<lambda>r v. frame r (from_tag t True) (components r v)"
  "\<lambda>r v. wfa r (fst v) \<and> wfb r (snd v) \<and> length (components r v) \<le> usize_MAX"
  "max deptha depthb + 1"
proof
  fix v and e :: ber_encoder
  assume "wfa (config e) (fst v) \<and> wfb (config e) (snd v) \<and> length (components (config e) v) \<le> usize_MAX"
    "\<not> is_set_encoding e"
  then show "encode_sequence t (sequence_scope (enca (fst v)) (encb (snd v))) e =
      Ok (e\<lparr>out := out e @ frame (config e) (from_tag t True) (components (config e) v)\<rparr>)"
    using a.enc_octets [of "encoder_new (config e)" "fst v"]
      b.enc_octets [of "(encoder_new (config e))\<lparr>out := octa (config e) (fst v)\<rparr>" "snd v"]
    by (simp add: encode_sequence_def sequence_scope_def encoder_new_def encode_constructed_out components_def)
next
  fix N v rest and d :: ber_decoder
  let ?r = "d_rules (d_config d)"
  assume A: "nom_documented N" "wfa ?r (fst v) \<and> wfb ?r (snd v) \<and> length (components ?r v) \<le> usize_MAX"
    "max deptha depthb + 1 \<le> remaining_depth (d_config d)"
    "d_input d = frame ?r (from_tag t True) (components ?r v) @ rest"
  let ?i = "inner_decoder (components ?r v @ contents_tail ?r rest) (d_config d)"
  have "sequence_body (deca N) (decb N) ?i = Some (Ok v, ?i\<lparr>d_input := contents_tail ?r rest\<rparr>)"
    using A by (intro sequence_body_octets) (simp_all add: inner_decoder_def decoder_new_def)
  moreover define f where "f = (\<lambda>decoder.
      if fields_list FIELDS = [] \<and> EXTENDED = None \<or>
         length (fields_list FIELDS) = number_optional_default FIELDS \<and> d_input decoder = []
      then (case dflt of Some x \<Rightarrow> dret x decoder
            | None \<Rightarrow> derr (DecodeError UnexpectedEmptyInput (d_codec decoder)) decoder)
      else sequence_body (deca N) (decb N) decoder)"
  ultimately have body: "f ?i = Some (Ok v, ?i\<lparr>d_input := contents_tail ?r rest\<rparr>)"
    using required by auto
  with parse_constructed_frame [where f = f, OF A(1) tag_not_EOC _ _ A(4) body] A(2,3)
  show "decode_sequence N FIELDS EXTENDED dflt (sequence_body (deca N) (decb N)) t d =
      Some (Ok v, d\<lparr>d_input := rest\<rparr>)"
    unfolding decode_sequence_def f_def by simp
next
  fix N and d :: ber_decoder
  assume "nom_documented N" "max deptha depthb + 1 \<le> remaining_depth (d_config d)"
    "d_input d = [] \<or> take 2 (d_input d) = [0, 0]"
  then show "\<exists>e. decode_sequence N FIELDS EXTENDED dflt (sequence_body (deca N) (decb N)) t d =
      Some (Err e, d) \<and> \<not> depth_exceeded e"
    unfolding decode_sequence_def by (intro parse_constructed_at_end) auto
qed (simp add: frame_not_Nil)

end
