(* ===== verification/Ber_Primitives.thy ===== *)
theory Ber_Primitives
  imports Ber_Composite
begin

text \<open>
  The primitive types keep the contract \<open>ber_codec\<close>: BOOLEAN, NULL, INTEGER for every
  primitive Rust integer and for \<open>Integer\<close>, OBJECT IDENTIFIER and OCTET STRING (with the
  chunks of CER), each as an interpretation on the encoder and decoder of \<open>ber/\<close>.
\<close>

section \<open>BOOLEAN and NULL\<close>

definition bool_octet :: "bool \<Rightarrow> bytes" where "bool_octet v = [if v then 0xff else 0x00]"

interpretation ber_bool: ber_codec "encode_bool t" "\<lambda>N. decode_bool N t"
  "\<lambda>r v. tlv (from_tag t False) (bool_octet v)" "\<lambda>r v. t \<noteq> EOC" 0 for t
proof
  fix N v rest and d :: ber_decoder
  assume a: "nom_documented N" "t \<noteq> EOC" "d_input d = tlv (from_tag t False) (bool_octet v) @ rest"
  have "length (bool_octet v) \<le> usize_MAX" by (simp add: bool_octet_def usize_MAX_def)
  from parse_primitive_value_tlv [OF a(1,2) this a(3)]
  show "decode_bool N t d = Some (Ok v, d\<lparr>d_input := rest\<rparr>)"
    by (simp add: decode_bool_def dbind_def dlift_def dret_def bool_octet_def assert_length_def)
next
  fix N and d :: ber_decoder
  assume "nom_documented N" "d_input d = [] \<or> take 2 (d_input d) = [0, 0]"
  from parse_primitive_value_at_end [OF this, of t]
  show "\<exists>e. decode_bool N t d = Some (Err e, d) \<and> \<not> depth_exceeded e"
    by (auto simp: decode_bool_def dbind_def)
qed (simp_all add: encode_bool_def encode_primitive_out bool_octet_def tlv_def)

interpretation ber_null: ber_codec "\<lambda>_. encode_null t" "\<lambda>N. decode_null N t"
  "\<lambda>r v. tlv (from_tag t False) []" "\<lambda>r v. t \<noteq> EOC" 0 for t
proof
  fix N v rest and d :: ber_decoder
  assume a: "nom_documented N" "t \<noteq> EOC" "d_input d = tlv (from_tag t False) [] @ rest"
  from parse_primitive_value_tlv [OF a(1,2) _ a(3)]
  show "decode_null N t d = Some (Ok v, d\<lparr>d_input := rest\<rparr>)"
    by (simp add: decode_null_def dbind_def dlift_def assert_length_def)
next
  fix N and d :: ber_decoder
  assume "nom_documented N" "d_input d = [] \<or> take 2 (d_input d) = [0, 0]"
  from parse_primitive_value_at_end [OF this, of t]
  show "\<exists>e. decode_null N t d = Some (Err e, d) \<and> \<not> depth_exceeded e"
    by (auto simp: decode_null_def dbind_def)
next
  show "tlv (from_tag t False) [] \<noteq> []" if "t \<noteq> EOC"
    using frame_not_Nil [of RBer "from_tag t False" "[]"]
    by (simp add: frame_def from_tag_def is_primitive_def)
qed (simp add: encode_null_def encode_primitive_out)

section \<open>INTEGER\<close>

lemma high_bit_of_nonneg:
  assumes "0 \<le> be_sval (b # bs)"
  shows "b AND 0x80 \<noteq> 0x80"
proof -
  have "0 \<le> sint b"
  proof (rule ccontr)
    assume "\<not> 0 \<le> sint b"
    then have "sint b * 256 ^ length bs \<le> - 1 * 256 ^ length bs" by (intro mult_right_mono) auto
    then show False using assms be_val_less [of bs] by simp
  qed
  then have "\<not> bit b 7" using bit_last_iff [of b] by simp
  then have "b AND 0x80 = 0"
    by (intro bit_eqI) (auto simp: bit_and_iff bit_80)
  then show ?thesis by simp
qed

lemma be_val_dropWhile: "be_val (dropWhile (\<lambda>n. n = 0) bs) = be_val bs"
  by (induction bs) (simp_all add: be_val_Cons)

lemma length_dropWhile_zero:
  assumes "be_val bs < 256 ^ n"
  shows "length (dropWhile (\<lambda>n. n = 0) bs) \<le> n"
proof (cases "dropWhile (\<lambda>n. n = 0) bs")
  case (Cons x xs)
  then have "x \<noteq> 0" using hd_dropWhile [of "\<lambda>n. n = 0" bs] by force
  then have "1 \<le> uint x" using uint_byte_bounds(1) [of x] by (simp add: int_one_le_iff_zero_less uint_0_iff order_less_le)
  then have "1 * 256 ^ length xs \<le> uint x * 256 ^ length xs" by (intro mult_right_mono) simp_all
  moreover have "uint x * 256 ^ length xs + be_val xs = be_val bs"
    using be_val_dropWhile [of bs] by (simp add: Cons be_val_Cons)
  ultimately have "(256 :: int) ^ length xs < 256 ^ n"
    using assms be_val_nonneg [of xs] by linarith
  then show ?thesis using Cons by simp
qed (metis le0 list.size(3))

lemma drop_dropWhile: "drop (length xs - length (dropWhile p xs)) xs = dropWhile p xs"
proof -
  have "length xs - length (dropWhile p xs) = length (takeWhile p xs)"
    by (metis add_diff_cancel_right' length_append takeWhile_dropWhile_id)
  then show ?thesis by (metis dropWhile_eq_drop)
qed

definition integer_contents :: "int_type \<Rightarrow> int \<Rightarrow> bytes" where
  "integer_contents it v = needed_slice (to_signed_bytes_be it v)"

definition integer_ok :: "int_type \<Rightarrow> int \<Rightarrow> bool" where
  "integer_ok it v = (in_type it v \<and> (it = U128 \<longrightarrow> v < 2 ^ 127))"

text \<open>The stripping of superfluous leading octets recovers an unsigned value whose sign
  octet made the contents longer than the type.\<close>

lemma decode_integer_contents:
  assumes "integer_ok it v"
  defines "bs \<equiv> integer_contents it v"
  shows "length bs \<le> BITS it div 8 \<Longrightarrow> try_from_bytes it bs c = Ok v"
    and "BITS it div 8 < length bs \<Longrightarrow>
      bs ! 0 AND 0x80 \<noteq> 0x80 \<and> try_from_bytes it (dropWhile (\<lambda>n. n = 0) bs) c = Ok v"
proof -
  have ok: "in_type it v" "it = U128 \<Longrightarrow> v < 2 ^ 127" using assms(1) by (simp_all add: integer_ok_def)
  note p = signed_slice_props [OF ok, folded integer_contents_def, folded bs_def]
  show "length bs \<le> BITS it div 8 \<Longrightarrow> try_from_bytes it bs c = Ok v"
  proof (cases "signed_type it")
    case True
    then show ?thesis
      using p(1-3) by (simp add: try_from_bytes_def try_from_signed_bytes_Ok)
  next
    case False
    then have "0 \<le> be_sval bs" using ok(1) p(1) by (simp add: in_type_unsigned)
    then show "length bs \<le> BITS it div 8 \<Longrightarrow> try_from_bytes it bs c = Ok v"
      using False p(1,2) be_val_eq_sval
      by (simp add: try_from_bytes_def try_from_unsigned_bytes_Ok BYTE_WIDTH_def)
  qed
  assume long: "BITS it div 8 < length bs"
  then have u: "\<not> signed_type it"
    using p(3) signed_pair_facts(4) [of it] by (auto simp: BYTE_WIDTH_def)
  then have v: "0 \<le> be_sval bs" "0 \<le> v" "v < 2 ^ BITS it"
    using ok(1) p(1) by (simp_all add: in_type_unsigned)
  have bv: "be_val bs = v" using be_val_eq_sval v(1) p(1) by simp
  have "dropWhile (\<lambda>n. n = 0) bs \<noteq> []"
  proof
    assume "dropWhile (\<lambda>n. n = 0) bs = []"
    then have "v = 0" using be_val_dropWhile [of bs] bv by (metis be_val_Nil)
    then have "length bs \<le> 1" using p(4) [of 1] by (simp add: fits_signed_def)
    then show False using long BITS_div8(3) [of it] by simp
  qed
  moreover have "length (dropWhile (\<lambda>n. n = 0) bs) \<le> BYTE_WIDTH it"
    using v(3) bv by (intro length_dropWhile_zero) (simp add: pow256 BYTE_WIDTH_def BITS_div8)
  ultimately have "try_from_bytes it (dropWhile (\<lambda>n. n = 0) bs) c = Ok v"
    using u bv be_val_dropWhile [of bs] by (simp add: try_from_bytes_def try_from_unsigned_bytes_Ok)
  moreover have "bs ! 0 AND 0x80 \<noteq> 0x80"
    using p(2) v(1) high_bit_of_nonneg by (cases bs) auto
  ultimately show "bs ! 0 AND 0x80 \<noteq> 0x80 \<and> try_from_bytes it (dropWhile (\<lambda>n. n = 0) bs) c = Ok v"
    by blast
qed

interpretation ber_integer: ber_codec "\<lambda>v. encode_integer t (to_signed_bytes_be it v)"
  "\<lambda>N. decode_integer N (BITS it) (try_from_bytes it) t"
  "\<lambda>r v. tlv (from_tag t False) (integer_contents it v)" "\<lambda>r v. t \<noteq> EOC \<and> integer_ok it v" 0 for t it
proof
  fix N v rest and d :: ber_decoder
  assume a: "nom_documented N" "t \<noteq> EOC \<and> integer_ok it v"
    "d_input d = tlv (from_tag t False) (integer_contents it v) @ rest"
  have "length (integer_contents it v) \<le> BYTE_WIDTH (signed_pair it)"
    using a(2) signed_slice_props(3) [of it v] by (auto simp: integer_ok_def integer_contents_def)
  also have "\<dots> \<le> usize_MAX" by (cases it) (simp_all add: BYTE_WIDTH_def usize_MAX_def)
  finally have "length (integer_contents it v) \<le> usize_MAX" .
  from parse_primitive_value_tlv [OF a(1) _ this a(3)] a(2)
    decode_integer_contents [of it v] drop_dropWhile [of "integer_contents it v" "\<lambda>n. n = 0"]
  show "decode_integer N (BITS it) (try_from_bytes it) t d = Some (Ok v, d\<lparr>d_input := rest\<rparr>)"
    by (simp add: decode_integer_def dbind_def dlift_def Let_def not_le)
next
  fix N and d :: ber_decoder
  assume "nom_documented N" "d_input d = [] \<or> take 2 (d_input d) = [0, 0]"
  from parse_primitive_value_at_end [OF this, of t]
  show "\<exists>e. decode_integer N (BITS it) (try_from_bytes it) t d = Some (Err e, d) \<and> \<not> depth_exceeded e"
    by (auto simp: decode_integer_def dbind_def)
next
  show "tlv (from_tag t False) (integer_contents it v) \<noteq> []" if "t \<noteq> EOC \<and> integer_ok it v" for r v
    using frame_not_Nil [of RBer "from_tag t False" "integer_contents it v"]
    by (simp add: frame_def from_tag_def is_primitive_def)
qed (simp add: encode_integer_def encode_primitive_out integer_contents_def)

text \<open>\<open>Integer\<close>: its width is \<open>u32::MAX\<close> bits; a canonical value is a \<open>Primitive\<close> exactly when
  it fits \<open>isize\<close>.\<close>

definition WIDTH_variable :: nat where "WIDTH_variable = 2 ^ 32 - 1"

definition canonical_integer :: "integer_kind \<Rightarrow> bool" where
  "canonical_integer i =
    (case i of Primitive v \<Rightarrow> in_type Isize v | Variable v \<Rightarrow> \<not> in_type Isize v)"

definition big_contents :: "num \<Rightarrow> integer_kind \<Rightarrow> bytes" where
  "big_contents M i = needed_slice (integer_to_signed_bytes_be M i)"

definition big_ok :: "num \<Rightarrow> integer_kind \<Rightarrow> bool" where
  "big_ok M i \<longleftrightarrow> num_documented M \<and> canonical_integer i \<and> length (big_contents M i) \<le> WIDTH_variable div 8"

lemma integer_try_from_big_contents:
  assumes "num_documented M" "canonical_integer i"
  shows "integer_try_from_bytes M (big_contents M i) c = Ok i"
proof (cases i)
  case (Primitive v)
  then have v: "in_type Isize v" using assms(2) by (simp add: canonical_integer_def)
  show ?thesis
    using Primitive v signed_bytes_roundtrip [OF v, of c] signed_slice_props(2) [OF v]
    by (simp add: big_contents_def integer_try_from_bytes_def try_from_bytes_def)
next
  case (Variable v)
  then have v: "\<not> in_type Isize v" using assms(2) by (simp add: canonical_integer_def)
  define bs where "bs = num_to_signed_bytes_be M v"
  have bs: "bs \<noteq> []" "be_sval bs = v" "num_from_signed_bytes_be M bs = v" "big_contents M i = bs"
    using assms(1) Variable
    by (simp_all add: bs_def num_documented_def big_contents_def bigint_to_signed_bytes_be_def
        needed_slice_def Let_def)
  have "BYTE_WIDTH Isize < length bs"
    using be_sval_in_type [OF bs(1), of Isize] bs(2) v by (cases "length bs \<le> BYTE_WIDTH Isize") auto
  then have "try_from_bytes Isize bs c = Err (DecodeError (IntegerOverflow 64) c)"
    using bs(1) by (simp add: try_from_bytes_def try_from_signed_bytes_def from_signed_bytes_eq)
  then show ?thesis
    using bs Variable by (simp add: integer_try_from_bytes_def bigint_try_from_bytes_def)
qed

interpretation ber_big_integer: ber_codec "\<lambda>v. encode_integer t (integer_to_signed_bytes_be M v)"
  "\<lambda>N. decode_integer N WIDTH_variable (integer_try_from_bytes M) t"
  "\<lambda>r v. tlv (from_tag t False) (big_contents M v)" "\<lambda>r v. t \<noteq> EOC \<and> big_ok M v" 0 for t M
proof
  fix N v rest and d :: ber_decoder
  assume a: "nom_documented N" "t \<noteq> EOC \<and> big_ok M v"
    "d_input d = tlv (from_tag t False) (big_contents M v) @ rest"
  have l: "length (big_contents M v) \<le> WIDTH_variable div 8" using a(2) by (simp add: big_ok_def)
  then have "length (big_contents M v) \<le> usize_MAX" by (simp add: WIDTH_variable_def usize_MAX_def)
  from parse_primitive_value_tlv [OF a(1) _ this a(3)] a(2) integer_try_from_big_contents [of M v] l
  show "decode_integer N WIDTH_variable (integer_try_from_bytes M) t d = Some (Ok v, d\<lparr>d_input := rest\<rparr>)"
    by (simp add: decode_integer_def dbind_def dlift_def big_ok_def)
next
  fix N and d :: ber_decoder
  assume "nom_documented N" "d_input d = [] \<or> take 2 (d_input d) = [0, 0]"
  from parse_primitive_value_at_end [OF this, of t]
  show "\<exists>e. decode_integer N WIDTH_variable (integer_try_from_bytes M) t d = Some (Err e, d) \<and> \<not> depth_exceeded e"
    by (auto simp: decode_integer_def dbind_def)
next
  show "tlv (from_tag t False) (big_contents M v) \<noteq> []" if "t \<noteq> EOC \<and> big_ok M v" for r v
    using frame_not_Nil [of RBer "from_tag t False" "big_contents M v"]
    by (simp add: frame_def from_tag_def is_primitive_def)
qed (simp add: encode_integer_def encode_primitive_out big_contents_def)

section \<open>OBJECT IDENTIFIER\<close>

definition oid_ok :: "u32 list \<Rightarrow> bool" where
  "oid_ok oid \<longleftrightarrow> 2 \<le> length oid \<and> oid ! 0 \<le> 2 \<and>
    (if oid ! 0 < 2 then oid ! 1 \<le> 39 else oid ! 1 \<le> 2 ^ 32 - 81)"

definition oid_contents :: "u32 list \<Rightarrow> bytes" where
  "oid_contents oid = concat (map (\<lambda>n. encode_as_base128 n []) ((oid ! 0 * 40 + oid ! 1) # drop 2 oid))"

lemma fold_base128: "fold encode_as_base128 ns buf = buf @ concat (map (\<lambda>n. encode_as_base128 n []) ns)"
proof (induction ns arbitrary: buf)
  case (Cons n ns)
  then show ?case using base128_append [of n buf] by simp
qed simp

lemma object_identifier_as_bytes_ok: "oid_ok oid \<Longrightarrow> object_identifier_as_bytes oid = Ok (oid_contents oid)"
  by (simp add: oid_ok_def object_identifier_as_bytes_def oid_contents_def fold_base128 Let_def not_less)

lemma oid_loop_contents:
  assumes "nom_documented N"
  shows "oid_loop N cfg (concat (map (\<lambda>n. encode_as_base128 n []) ns)) buffer = Some (Ok (buffer @ ns))"
proof (induction ns arbitrary: buffer)
  case Nil
  then show ?case by (subst oid_loop.simps) simp
next
  case (Cons n ns)
  then show ?case
    using parse_encoded_base128(2) [OF assms] encode_as_base128_not_Nil
    by (subst oid_loop.simps) simp
qed

lemma word_eq_of_unat: "unat x = n \<Longrightarrow> x = word_of_nat n"
  by auto

lemma split_root_octets_nat:
  assumes "unat root = a * 40 + b" "a \<le> 2" "a < 2 \<Longrightarrow> b \<le> 39"
  shows "split_root_octets root = (word_of_nat a, word_of_nat b)"
proof (cases "119 < a * 40 + b")
  case True
  then have "a = 2" using assms(2,3) by (cases "a < 2") auto
  moreover have "(80 :: u32) \<le> root" using True assms(1) by (simp add: word_le_nat_alt)
  then have "unat (root - 80) = b" using assms(1) \<open>a = 2\<close> by (simp add: unat_sub)
  then have "root - 80 = word_of_nat b" by (rule word_eq_of_unat)
  ultimately show ?thesis
    using True assms(1) by (simp add: split_root_octets_def word_less_nat_alt)
next
  case False
  then have b: "b \<le> 39" using assms(2,3) by (cases "a < 2") auto
  have m: "unat (root mod 40) = b" using b assms(1) by (simp add: unat_mod)
  then have "unat (root - root mod 40) = a * 40" using assms(1) by (simp add: unat_sub word_le_nat_alt)
  then have d: "unat ((root - root mod 40) div 40) = a" by (simp add: unat_div)
  have "root mod 40 = word_of_nat b" "(root - root mod 40) div 40 = word_of_nat a"
    using m d by (simp_all only: word_eq_of_unat)
  then show ?thesis
    using False assms(1) by (simp add: split_root_octets_def word_less_nat_alt Let_def)
qed

lemma split_root_octets_ok:
  assumes "first \<le> 2" "if first < 2 then second \<le> 39 else second \<le> 2 ^ 32 - 81"
  shows "split_root_octets (first * 40 + second) = (first, second)"
proof -
  define a b where "a = unat first" and "b = unat second"
  have f: "first = word_of_nat a" "second = word_of_nat b" by (simp_all add: a_def b_def)
  have a: "a \<le> 2" using assms(1) by (simp add: a_def word_le_nat_alt)
  have b: "if a < 2 then b \<le> 39 else b \<le> 2 ^ 32 - 81"
    using assms(2) by (simp add: a_def b_def word_le_nat_alt word_less_nat_alt split: if_splits)
  have "unat (first * 40) = a * 40"
    using a by (subst unat_mult_lem [THEN iffD1]) (simp_all add: a_def)
  moreover have "a * 40 + b < 2 ^ 32" using a b by (simp split: if_splits)
  ultimately have "unat (first * 40 + second) = a * 40 + b"
    by (subst unat_add_lem [THEN iffD1]) (simp_all add: b_def)
  then show ?thesis
    using split_root_octets_nat [of "first * 40 + second" a b] a b f by (simp split: if_splits)
qed

lemma decode_oid_contents:
  assumes "nom_documented N" "oid_ok oid"
  shows "decode_object_identifier_from_bytes N cfg (oid_contents oid) = Some (Ok oid)"
proof -
  obtain a b rest where oid: "oid = a # b # rest"
    using assms(2) by (cases oid; cases "tl oid") (auto simp: oid_ok_def)
  have "parse_base128_number N (oid_contents oid) =
      Ok (concat (map (\<lambda>n. encode_as_base128 n []) rest), a * 40 + b)"
    using parse_encoded_base128(2) [OF assms(1)] oid by (simp add: oid_contents_def)
  moreover have "split_root_octets (a * 40 + b) = (a, b)"
    using assms(2) oid by (intro split_root_octets_ok) (auto simp: oid_ok_def split: if_splits)
  moreover have "a \<le> 2" using assms(2) oid by (simp add: oid_ok_def)
  ultimately show ?thesis
    using oid_loop_contents [OF assms(1), of cfg rest "[a, b]"] oid
    by (simp add: decode_object_identifier_from_bytes_def object_identifier_new_def is_valid_oid_def)
qed

interpretation ber_oid: ber_codec "encode_object_identifier t" "\<lambda>N. decode_object_identifier N t"
  "\<lambda>r v. tlv (from_tag t False) (oid_contents v)"
  "\<lambda>r v. t \<noteq> EOC \<and> oid_ok v \<and> length (oid_contents v) \<le> usize_MAX" 0 for t
proof
  fix N v rest and d :: ber_decoder
  assume a: "nom_documented N" "t \<noteq> EOC \<and> oid_ok v \<and> length (oid_contents v) \<le> usize_MAX"
    "d_input d = tlv (from_tag t False) (oid_contents v) @ rest"
  from parse_primitive_value_tlv [OF a(1) _ _ a(3)] a(2) decode_oid_contents [OF a(1), of v]
  show "decode_object_identifier N t d = Some (Ok v, d\<lparr>d_input := rest\<rparr>)"
    by (simp add: decode_object_identifier_def dbind_def dlift_def)
next
  fix N and d :: ber_decoder
  assume "nom_documented N" "d_input d = [] \<or> take 2 (d_input d) = [0, 0]"
  from parse_primitive_value_at_end [OF this, of t]
  show "\<exists>e. decode_object_identifier N t d = Some (Err e, d) \<and> \<not> depth_exceeded e"
    by (auto simp: decode_object_identifier_def dbind_def)
next
  show "tlv (from_tag t False) (oid_contents v) \<noteq> []"
    if "t \<noteq> EOC \<and> oid_ok v \<and> length (oid_contents v) \<le> usize_MAX" for r v
    using frame_not_Nil [of RBer "from_tag t False" "oid_contents v"]
    by (simp add: frame_def from_tag_def is_primitive_def)
qed (simp add: encode_object_identifier_def object_identifier_as_bytes_ok encode_primitive_out)

end
