(* ===== verification/Ber_Strings.thy ===== *)
theory Ber_Strings
  imports Ber_Primitives
begin

text \<open>
  OCTET STRING and BIT STRING under BER, CER and DER.  An octet string keeps the contract
  \<open>ber_codec\<close> for every length: CER splits it into segments of 1000 octets in the
  indefinite form and the decoder puts the segments together again.  A bit string keeps
  it as long as it is sent as one segment.
\<close>

section \<open>Segments\<close>

lemma concat_chunks: "0 < n \<Longrightarrow> concat (chunks n xs) = xs"
proof (induction n xs rule: chunks.induct)
  case (1 n xs)
  then show ?case by (subst chunks.simps) simp
qed

lemma chunks_length: "c \<in> set (chunks n xs) \<Longrightarrow> length c \<le> n"
proof (induction n xs rule: chunks.induct)
  case (1 n xs)
  then show ?case by (subst (asm) chunks.simps) (auto split: if_splits)
qed

definition segments :: "tag \<Rightarrow> bytes list \<Rightarrow> bytes" where
  "segments nested cs = concat (map (tlv (from_tag nested False)) cs)"

lemma fold_encode_primitive:
  "\<not> is_set_encoding e \<Longrightarrow>
    fold (encode_primitive nested) cs e = e\<lparr>out := out e @ segments nested cs\<rparr>"
  by (induction cs arbitrary: e) (simp_all add: segments_def encode_primitive_out)

definition string_octets :: "tag \<Rightarrow> tag \<Rightarrow> encoding_rules \<Rightarrow> bytes \<Rightarrow> bytes" where
  "string_octets t nested r val =
    (if max_string_length r < length val
     then indefinite_tlv (from_tag t True) (segments nested (chunks (max_string_length r) val))
     else tlv (from_tag t False) val)"

lemma encode_string_out:
  assumes "\<not> is_set_encoding e"
  shows "encode_string t nested val e = Ok (e\<lparr>out := out e @ string_octets t nested (config e) val\<rparr>)"
  using assms by (simp add: encode_string_def string_octets_def encode_primitive_out indefinite_tlv_def
      append_byte_or_bytes_def append_output_def fold_encode_primitive encode_to_set_def Let_def)

text \<open>Tags for which the encoder forces the constructed bit cannot carry a string.\<close>

definition string_tag :: "tag \<Rightarrow> bool" where
  "string_tag t \<longleftrightarrow> t \<noteq> EOC \<and> t \<noteq> Tag Universal 8 \<and> t \<noteq> SEQUENCE \<and> t \<noteq> SET"

lemma written_string_identifier:
  "string_tag t \<Longrightarrow> written_identifier (from_tag t k) = from_tag t k"
  by (simp add: written_identifier_def from_tag_def string_tag_def)

lemma from_tag_simps: "id_tag (from_tag t k) = t" "id_constructed (from_tag t k) = k"
  "is_primitive (from_tag t k) = (\<not> k)"
  by (simp_all add: from_tag_def is_primitive_def)

lemma string_tag_not_EOC: "string_tag t \<Longrightarrow> t \<noteq> EOC"
  by (simp add: string_tag_def)

lemma parse_encoded_value_tlv:
  assumes "nom_documented N" "string_tag t" "length val \<le> usize_MAX"
  shows "parse_encoded_value N cfg (tlv (from_tag t False) val @ rest) t cb =
    Some (and_then (cb val (current_codec cfg)) (\<lambda>rv. Ok (rest, rv)))"
proof -
  have "parse_value N cfg (tlv (from_tag t False) val @ rest) (Some t) = Ok (rest, from_tag t False, Some val)"
    using parse_value_tlv [OF assms(1), of "from_tag t False" val "Some t"] assms(2,3)
    by (simp add: written_string_identifier tag_matches_def from_tag_simps string_tag_not_EOC)
  then show ?thesis by (simp add: parse_encoded_value_def from_tag_simps)
qed

lemma tlv_octet_string_hd: "take 2 (tlv (from_tag OCTET_STRING False) c @ rest) \<noteq> [0, 0]"
  by (simp add: tlv_def encode_identifier_def from_tag_simps OCTET_STRING_def SEQUENCE_def SET_def Let_def)

lemma octet_string_indefinite_segments:
  assumes "nom_documented N" "\<forall>c \<in> set cs. length c \<le> usize_MAX"
    "d_input d = segments OCTET_STRING cs @ [0, 0] @ rest"
  shows "octet_string_indefinite N buffer d = Some (Ok (buffer @ concat cs), d\<lparr>d_input := [0, 0] @ rest\<rparr>)"
  using assms(2,3)
proof (induction cs arbitrary: d buffer)
  case Nil
  then show ?case by (subst octet_string_indefinite.simps) (cases d, simp add: segments_def)
next
  case (Cons c cs)
  let ?i = "segments OCTET_STRING cs @ [0, 0] @ rest"
  have i: "d_input d = tlv (from_tag OCTET_STRING False) c @ ?i"
    using Cons.prems(2) by (simp add: segments_def)
  have "parse_encoded_value N (d_config d) (d_input d) OCTET_STRING bytes_callback = Some (Ok (?i, c))"
    using parse_encoded_value_tlv [OF assms(1), of OCTET_STRING c "d_config d" ?i bytes_callback] Cons.prems(1) i
    by (simp add: bytes_callback_def string_tag_def OCTET_STRING_def EOC_def SEQUENCE_def SET_def)
  moreover have "octet_string_indefinite N (buffer @ c) (d\<lparr>d_input := ?i\<rparr>) =
      Some (Ok ((buffer @ c) @ concat cs), (d\<lparr>d_input := ?i\<rparr>)\<lparr>d_input := [0, 0] @ rest\<rparr>)"
    using Cons.prems(1) by (intro Cons.IH) simp_all
  ultimately show ?case
    using tlv_octet_string_hd [of c ?i] i by (subst octet_string_indefinite.simps) simp
qed

section \<open>OCTET STRING\<close>

lemma dec_parse_value_indefinite:
  assumes "nom_documented N" "string_tag t" "allows_indefinite (d_rules (d_config d))"
    "d_input d = indefinite_tlv (from_tag t True) content @ rest"
  shows "dec_parse_value N t d = Some (Ok (from_tag t True, None), d\<lparr>d_input := content @ [0, 0] @ rest\<rparr>)"
  using parse_value_indefinite [OF assms(1), of "from_tag t True" "Some t" "d_config d" content rest] assms(2-)
  by (simp add: dec_parse_value_def dret_def written_string_identifier from_tag_simps string_tag_not_EOC tag_matches_def)

lemma decode_octet_string_octets:
  assumes "nom_documented N" "string_tag t" "length v \<le> usize_MAX"
    "d_input d = string_octets t OCTET_STRING (d_rules (d_config d)) v @ rest"
  shows "decode_octet_string N t d = Some (Ok v, d\<lparr>d_input := rest\<rparr>)"
proof (cases "max_string_length (d_rules (d_config d)) < length v")
  case False
  then have "d_input d = tlv (from_tag t False) v @ rest" using assms(4) by (simp add: string_octets_def)
  with dec_parse_value_tlv [OF assms(1) _ assms(3) this] assms(2) show ?thesis
    by (simp add: decode_octet_string_def dbind_def written_string_identifier dret_def from_tag_simps
        string_tag_not_EOC)
next
  case True
  then have r: "d_rules (d_config d) = RCer" using assms(3) by (cases "d_rules (d_config d)") auto
  define s where "s = d\<lparr>d_input := segments OCTET_STRING (chunks 1000 v) @ [0, 0] @ rest\<rparr>"
  have "octet_string_indefinite N [] s = Some (Ok ([] @ concat (chunks 1000 v)), s\<lparr>d_input := [0, 0] @ rest\<rparr>)"
    using chunks_length [of _ 1000 v]
    by (intro octet_string_indefinite_segments assms) (force simp: usize_MAX_def s_def)+
  moreover have "dec_parse_value N t d = Some (Ok (from_tag t True, None), s)"
    using assms True r by (simp add: dec_parse_value_indefinite allows_indefinite_def string_octets_def s_def)
  moreover have "parse_eoc N (s\<lparr>d_input := [0, 0] @ rest\<rparr>) = Some (Ok (), d\<lparr>d_input := rest\<rparr>)"
    using nom_tag_eoc [OF assms(1)] by (simp add: parse_eoc_def set_input_def s_def)
  ultimately show ?thesis
    using r by (simp add: decode_octet_string_def dbind_def dret_def from_tag_simps is_der_def
        concat_chunks s_def)
qed

lemma string_octets_not_Nil: "string_octets t nested r val \<noteq> []"
proof -
  have "tlv (from_tag t False) val \<noteq> []"
    using frame_not_Nil [of RBer "from_tag t False" val] by (simp add: frame_def is_cer_def)
  then show ?thesis by (simp add: string_octets_def indefinite_tlv_def)
qed

interpretation ber_octet_string: ber_codec "encode_octet_string t" "\<lambda>N. decode_octet_string N t"
  "string_octets t OCTET_STRING" "\<lambda>r v. string_tag t \<and> length v \<le> usize_MAX" 0 for t
proof
  fix N and d :: ber_decoder
  assume "nom_documented N" "d_input d = [] \<or> take 2 (d_input d) = [0, 0]"
  from dec_parse_value_at_end [OF this, of t]
  show "\<exists>e. decode_octet_string N t d = Some (Err e, d) \<and> \<not> depth_exceeded e"
    by (auto simp: decode_octet_string_def dbind_def)
qed (simp_all add: encode_octet_string_def encode_octet_string_inner_def encode_string_out
    decode_octet_string_octets string_octets_not_Nil)

section \<open>BIT STRING\<close>

text \<open>
  What the code relies on of the \<open>bitvec\<close> crate with \<open>Msb0\<close> order: a vector of bits is
  stored in the least number of octets that hold it, the first bit being the most
  significant one of the first octet (the storage beyond the last bit is unspecified), and
  \<open>from_vec\<close> reads all bits of the octets in that order.
\<close>

definition msb_bits :: "u8 \<Rightarrow> bool list" where
  "msb_bits b = map (bit b) [7, 6, 5, 4, 3, 2, 1, 0]"

definition bitvec_documented :: "(bool list \<Rightarrow> bytes) \<Rightarrow> (bytes \<Rightarrow> bool list) \<Rightarrow> bool" where
  "bitvec_documented raw from_vec \<longleftrightarrow>
    (\<forall>b. length (raw b) = (length b + 7) div 8 \<and> take (length b) (from_vec (raw b)) = b) \<and>
    (\<forall>bs. from_vec bs = concat (map msb_bits bs))"

text \<open>A concrete storage: the bits beyond the last one are zero.\<close>

fun ref_raw :: "bool list \<Rightarrow> bytes" where
  "ref_raw (b7 # b6 # b5 # b4 # b3 # b2 # b1 # b0 # bs) =
    word_of_int (horner_sum of_bool 2 [b0, b1, b2, b3, b4, b5, b6, b7]) # ref_raw bs"
| "ref_raw [] = []"
| "ref_raw bs = [word_of_int (horner_sum of_bool 2 (rev (take 8 (bs @ [False, False, False, False, False, False, False]))))]"

definition ref_from_vec :: "bytes \<Rightarrow> bool list" where
  "ref_from_vec bs = concat (map msb_bits bs)"

lemma length_msb_bits [simp]: "length (msb_bits b) = 8"
  by (simp add: msb_bits_def)

lemma length_concat_msb_bits [simp]: "length (concat (map msb_bits bs)) = 8 * length bs"
  by (induction bs) simp_all

lemma bitvec_ref: "bitvec_documented ref_raw ref_from_vec"
proof -
  have "length (ref_raw b) = (length b + 7) div 8 \<and> take (length b) (concat (map msb_bits (ref_raw b))) = b" for b
    by (induction b rule: ref_raw.induct)
      (simp_all add: msb_bits_def bit_horner_sum_bit_word_iff bit_word_of_int_iff bit_horner_sum_bit_iff
        nth_Cons' del: horner_sum_simps)
  then show ?thesis by (simp add: bitvec_documented_def ref_from_vec_def)
qed

lemma masked_bits:
  assumes "u \<le> 7"
  shows "take (8 - u) (msb_bits (b AND NOT (push_bit u 1 - 1))) = take (8 - u) (msb_bits b)"
proof -
  have "push_bit u 1 - 1 = (mask u :: u8)" by (simp add: mask_eq_exp_minus_1)
  moreover have "u \<in> {0, 1, 2, 3, 4, 5, 6, 7}" using assms by auto
  ultimately show ?thesis
    by (auto simp: msb_bits_def bit_and_iff bit_not_iff bit_mask_iff)
qed

lemma small_octet: "n \<le> 7 \<Longrightarrow> unat (word_of_nat n :: u8) = n" "n \<le> 7 \<Longrightarrow> (word_of_nat n :: u8) \<le> 7"
  by (simp_all add: unsigned_of_nat take_bit_nat_eq_self word_le_nat_alt)

lemma bit_string_callback_octets:
  assumes "u \<le> 7" "\<And>bs. from_vec bs = concat (map msb_bits bs)"
  shows "bit_string_callback from_vec (word_of_nat u # init @ [l]) c =
    Ok (take (8 * length init + (8 - u)) (from_vec (init @ [l])))"
proof -
  have "8 * Suc (length init) - u = 8 * length init + (8 - u)" using assms(1) by simp
  then show ?thesis
    using small_octet [OF assms(1)] masked_bits [OF assms(1), of l] assms
    by (simp add: bit_string_callback_def Let_def)
qed

lemma bit_string_callback_raw:
  assumes "bitvec_documented raw from_vec"
  shows "bit_string_callback from_vec (word_of_nat (length (raw b) * 8 - length b) # raw b) c = Ok b"
proof -
  have len: "length (raw b) = (length b + 7) div 8" and tk: "take (length b) (from_vec (raw b)) = b"
    and fv: "\<And>bs. from_vec bs = concat (map msb_bits bs)"
    using assms by (auto simp: bitvec_documented_def)
  define u where "u = length (raw b) * 8 - length b"
  have u: "u \<le> 7" "length b + u = length (raw b) * 8" using len unfolding u_def by presburger+
  have "bit_string_callback from_vec (word_of_nat u # raw b) c = Ok b"
  proof (cases "raw b" rule: rev_cases)
    case Nil
    then have "b = []" "u = 0" using u by simp_all
    with Nil show ?thesis by (simp add: bit_string_callback_def fv)
  next
    case (snoc init l)
    have "length b = 8 * length init + (8 - u)" using u snoc by simp
    with bit_string_callback_octets [OF u(1) fv, of init l c] tk snoc show ?thesis by simp
  qed
  then show ?thesis unfolding u_def .
qed

definition bit_string_contents :: "(bool list \<Rightarrow> bytes) \<Rightarrow> bool list \<Rightarrow> bytes" where
  "bit_string_contents raw v = word_of_nat (length (raw v) * 8 - length v) # raw v"

definition bit_string_ok :: "(bool list \<Rightarrow> bytes) \<Rightarrow> (bytes \<Rightarrow> bool list) \<Rightarrow> tag \<Rightarrow> encoding_rules \<Rightarrow>
    bool list \<Rightarrow> bool" where
  "bit_string_ok raw from_vec t r v \<longleftrightarrow> bitvec_documented raw from_vec \<and> string_tag t \<and>
    length (bit_string_contents raw v) \<le> max_string_length r"

interpretation ber_bit_string: ber_codec "encode_bit_string raw t" "\<lambda>N. decode_bit_string N from_vec t"
  "\<lambda>r v. tlv (from_tag t False) (bit_string_contents raw v)" "bit_string_ok raw from_vec t" 0
  for raw from_vec t
proof
  fix v and e :: ber_encoder
  assume a: "bit_string_ok raw from_vec t (config e) v" "\<not> is_set_encoding e"
  then have "length (raw v) = (length v + 7) div 8" by (simp add: bit_string_ok_def bitvec_documented_def)
  then have le: "length v \<le> length (raw v) * 8" "length (raw v) * 8 - length v \<le> 7" by presburger+
  define u where "u = length (raw v) * 8 - length v"
  have i: "int (length (raw v) * 8) - int (length v) = int u" using le by (simp add: u_def)
  have t: "try_into U8 (int u) = Some (int u)"
    using le(2) by (simp add: try_into_def in_type_unsigned u_def [symmetric])
  show "encode_bit_string raw t v e =
      Ok (e\<lparr>out := out e @ tlv (from_tag t False) (bit_string_contents raw v)\<rparr>)"
    using a unfolding encode_bit_string_def Let_def i t option.case bit_string_contents_def bit_string_ok_def
      u_def [symmetric]
    by (simp add: encode_string_out string_octets_def)
next
  fix N v rest and d :: ber_decoder
  assume a: "nom_documented N" "bit_string_ok raw from_vec t (d_rules (d_config d)) v"
    "d_input d = tlv (from_tag t False) (bit_string_contents raw v) @ rest"
  have "max_string_length r \<le> usize_MAX" for r by (cases r) (simp_all add: usize_MAX_def)
  then have "length (bit_string_contents raw v) \<le> usize_MAX"
    using a(2) unfolding bit_string_ok_def by (meson le_trans)
  moreover have "bit_string_callback from_vec (bit_string_contents raw v) c = Ok v" for c
    using a(2) bit_string_callback_raw unfolding bit_string_ok_def bit_string_contents_def by blast
  ultimately show "decode_bit_string N from_vec t d = Some (Ok v, d\<lparr>d_input := rest\<rparr>)"
    using a by (simp add: decode_bit_string_def bit_string_ok_def dret_def parse_encoded_value_tlv [OF a(1)])
next
  fix N and d :: ber_decoder
  assume a: "nom_documented N" "d_input d = [] \<or> take 2 (d_input d) = [0, 0]"
  from parse_value_at_end [OF this, of "d_config d" "Some t"]
  show "\<exists>e. decode_bit_string N from_vec t d = Some (Err e, d) \<and> \<not> depth_exceeded e"
    by (auto simp: decode_bit_string_def parse_encoded_value_def derr_def)
next
  show "tlv (from_tag t False) (bit_string_contents raw v) \<noteq> []" if "bit_string_ok raw from_vec t r v" for r v
    using string_octets_not_Nil [of t t r "bit_string_contents raw v"] that
    by (simp add: string_octets_def bit_string_ok_def)
qed

end
