(* ===== verification/Ber_Messages.thy ===== *)
theory Ber_Messages
  imports Ber_Strings
begin

text \<open>
  Whole messages under BER, CER and DER: the constructed types interpreted on the codecs of
  the primitive types, and the round trips through \<open>encode\<close> and \<open>decode_with_remainder\<close>.
\<close>

section \<open>Constructed types on the codecs of the model\<close>

interpretation ber_integers: tagged_ber_codec "\<lambda>v. encode_integer INTEGER (to_signed_bytes_be it v)"
  "\<lambda>N. decode_integer N (BITS it) (try_from_bytes it) INTEGER"
  "\<lambda>r v. tlv (from_tag INTEGER False) (integer_contents it v)" "\<lambda>r v. INTEGER \<noteq> EOC \<and> integer_ok it v" 0
  SEQUENCE for it
  by unfold_locales (simp add: SEQUENCE_def EOC_def)

interpretation ber_octet_strings: tagged_ber_codec "encode_octet_string OCTET_STRING"
  "\<lambda>N. decode_octet_string N OCTET_STRING" "string_octets OCTET_STRING OCTET_STRING"
  "\<lambda>r v. string_tag OCTET_STRING \<and> length v \<le> usize_MAX" 0 SET
  by unfold_locales (simp add: SET_def EOC_def)

text \<open>A SEQUENCE OF SEQUENCE OF INTEGER, from the sublocale of SEQUENCE OF.\<close>

interpretation ber_matrix: tagged_ber_codec
  "\<lambda>vs. encode_sequence_of SEQUENCE (map (\<lambda>v. encode_integer INTEGER (to_signed_bytes_be it v)) vs)"
  "\<lambda>N. decode_sequence_of N (decode_integer N (BITS it) (try_from_bytes it) INTEGER) SEQUENCE"
  "\<lambda>r vs. frame r (from_tag SEQUENCE True) (ber_integers.elements it r vs)"
  "ber_integers.elements_wf it" "0 + 2" SEQUENCE for it
  by unfold_locales (simp add: SEQUENCE_def EOC_def)

text \<open>A SEQUENCE of an OBJECT IDENTIFIER and an OCTET STRING, both required.\<close>

definition attribute_fields :: fields where
  "attribute_fields = from_static [new_required 0 OBJECT_IDENTIFIER (Leaf OBJECT_IDENTIFIER) ''id'',
     new_required 1 OCTET_STRING (Leaf OCTET_STRING) ''value'']"

lemma attribute_fields_required:
  "number_optional_default attribute_fields < length (fields_list attribute_fields)"
  by (simp add: attribute_fields_def) code_simp

interpretation ber_attribute: ber_sequence2
  "encode_object_identifier OBJECT_IDENTIFIER" "\<lambda>N. decode_object_identifier N OBJECT_IDENTIFIER"
  "\<lambda>r v. tlv (from_tag OBJECT_IDENTIFIER False) (oid_contents v)"
  "\<lambda>r v. OBJECT_IDENTIFIER \<noteq> EOC \<and> oid_ok v \<and> length (oid_contents v) \<le> usize_MAX" 0
  "encode_octet_string OCTET_STRING" "\<lambda>N. decode_octet_string N OCTET_STRING"
  "string_octets OCTET_STRING OCTET_STRING" "\<lambda>r v. string_tag OCTET_STRING \<and> length v \<le> usize_MAX" 0
  SEQUENCE attribute_fields None None
  by unfold_locales (simp_all add: SEQUENCE_def EOC_def attribute_fields_required)

lemma tag_neq: "INTEGER \<noteq> EOC" "OCTET_STRING \<noteq> EOC" "OBJECT_IDENTIFIER \<noteq> EOC" "SEQUENCE \<noteq> EOC"
  "SET \<noteq> EOC" "BIT_STRING \<noteq> EOC"
  by (simp_all add: INTEGER_def OCTET_STRING_def OBJECT_IDENTIFIER_def SEQUENCE_def SET_def EOC_def BIT_STRING_def)

lemma string_tags: "string_tag OCTET_STRING" "string_tag BIT_STRING"
  by (simp_all add: string_tag_def OCTET_STRING_def BIT_STRING_def EOC_def SEQUENCE_def SET_def)

section \<open>Lengths\<close>

definition integers_octets :: "int_type \<Rightarrow> encoding_rules \<Rightarrow> int list \<Rightarrow> bytes" where
  "integers_octets it r vs = frame r (from_tag SEQUENCE True)
     (concat (map (\<lambda>v. tlv (from_tag INTEGER False) (integer_contents it v)) vs))"

lemma length_frame: "length val \<le> length (frame r ident val)"
  by (simp add: frame_def tlv_def indefinite_tlv_def)

lemma length_segments: "length (concat cs) \<le> length (segments nested cs)"
  by (induction cs) (simp_all add: segments_def tlv_def)

lemma length_string_octets: "length val \<le> length (string_octets t nested r val)"
proof -
  have "0 < max_string_length r" by (cases r) (simp_all add: usize_MAX_def)
  then show ?thesis
    using length_segments [of "chunks (max_string_length r) val" nested]
    by (simp add: string_octets_def tlv_def indefinite_tlv_def concat_chunks)
qed

lemma length_in_concat: "x \<in> set xs \<Longrightarrow> length (f x) \<le> length (concat (map f xs))"
  by (induction xs) auto

lemma matrix_wf:
  assumes "\<forall>vs \<in> set vss. \<forall>v \<in> set vs. integer_ok it v"
    "length (concat (map (integers_octets it r) vss)) \<le> usize_MAX"
  shows "ber_matrix.elements_wf it r vss"
proof -
  have "length (ber_integers.elements it r vs) \<le> usize_MAX" if "vs \<in> set vss" for vs
    using length_in_concat [OF that, of "integers_octets it r"] assms(2)
      length_frame [of "ber_integers.elements it r vs" r "from_tag SEQUENCE True"]
    by (simp add: integers_octets_def ber_integers.elements_def)
  then show ?thesis
    using assms unfolding ber_matrix.elements_wf_def ber_integers.elements_wf_def ber_matrix.elements_def
    by (simp add: integers_octets_def [abs_def] ber_integers.elements_def [abs_def] tag_neq)
qed

lemma strings_wf:
  assumes "length (concat (map (string_octets OCTET_STRING OCTET_STRING r) vs)) \<le> usize_MAX"
  shows "ber_octet_strings.elements_wf r vs"
proof -
  have "length v \<le> usize_MAX" if "v \<in> set vs" for v
    using length_in_concat [OF that, of "string_octets OCTET_STRING OCTET_STRING r"]
      length_string_octets [of v OCTET_STRING OCTET_STRING r] assms by linarith
  then show ?thesis
    using assms unfolding ber_octet_strings.elements_wf_def ber_octet_strings.elements_def by (simp add: string_tags)
qed

section \<open>Round trips\<close>

text \<open>C5: every value of a primitive Rust integer type but those of \<open>u128\<close> from \<open>2 ^ 127\<close> on, whose
  sign the conversion changes, is encoded under BER, CER and DER and decoded again, whatever octets
  follow it.\<close>

theorem ber_integer_roundtrip:
  assumes "nom_documented N" "t \<noteq> EOC" "in_type it v" "it = U128 \<Longrightarrow> v < 2 ^ 127"
  shows "\<exists>octets. encode_with r (encode_integer t (to_signed_bytes_be it v)) = Ok octets \<and>
    decode_with_remainder (decoder_options_for r) (decode_integer N (BITS it) (try_from_bytes it) t)
      (octets @ rest) = Some (Ok (v, rest))"
  using ber_integer.message_roundtrip [OF assms(1), of t it v] assms by (auto simp: integer_ok_def)

theorem ber_integer_roundtrip_witness:
  "\<exists>octets. encode_with RDer (encode_integer INTEGER (to_signed_bytes_be I16 (-129))) = Ok octets \<and>
    decode_with_remainder (decoder_options_for RDer) (decode_integer ref_nom (BITS I16) (try_from_bytes I16) INTEGER)
      (octets @ [5, 0]) = Some (Ok (-129, [5, 0]))"
  by (rule ber_integer_roundtrip) (simp_all add: ref_nom_documented tag_neq string_tags in_type_def type_min_def type_max_def)

text \<open>C11: an object identifier with at least two arcs, the first at most 2 and the second at most
  39 unless the first is 2, is encoded and decoded again, whatever octets follow it.\<close>

theorem ber_object_identifier_roundtrip:
  assumes "nom_documented N" "t \<noteq> EOC" "2 \<le> length oid" "oid ! 0 \<le> 2"
    "if oid ! 0 < 2 then oid ! 1 \<le> 39 else oid ! 1 \<le> 2 ^ 32 - 81" "length (oid_contents oid) \<le> usize_MAX"
  shows "encode_with r (encode_object_identifier t oid) = Ok (tlv (from_tag t False) (oid_contents oid)) \<and>
    decode_with_remainder (decoder_options_for r) (decode_object_identifier N t)
      (tlv (from_tag t False) (oid_contents oid) @ rest) = Some (Ok (oid, rest))"
  using ber_oid.message_roundtrip [OF assms(1), of t oid] assms by (simp add: oid_ok_def)

theorem ber_object_identifier_roundtrip_witness:
  "encode_with RBer (encode_object_identifier OBJECT_IDENTIFIER [2, 999, 3]) =
      Ok (tlv (from_tag OBJECT_IDENTIFIER False) (oid_contents [2, 999, 3])) \<and>
    decode_with_remainder (decoder_options_for RBer) (decode_object_identifier ref_nom OBJECT_IDENTIFIER)
      (tlv (from_tag OBJECT_IDENTIFIER False) (oid_contents [2, 999, 3]) @ []) = Some (Ok ([2, 999, 3], []))"
proof (rule ber_object_identifier_roundtrip)
  have "oid_contents [2, 999, 3] = [0x88, 0x37, 3]" by code_simp
  then show "length (oid_contents [2, 999, 3]) \<le> usize_MAX" by (simp add: usize_MAX_def)
qed (simp_all add: ref_nom_documented tag_neq string_tags)

text \<open>C7: an octet string of any length is encoded and decoded again under BER, CER and DER; CER
  sends more than 1000 octets in segments.\<close>

theorem ber_octet_string_roundtrip:
  assumes "nom_documented N" "string_tag t" "length v \<le> usize_MAX"
  shows "\<exists>octets. encode_with r (encode_octet_string t v) = Ok octets \<and>
    (r = RCer \<and> 1000 < length v \<longrightarrow>
      octets = indefinite_tlv (from_tag t True) (segments OCTET_STRING (chunks 1000 v))) \<and>
    decode_with_remainder (decoder_options_for r) (decode_octet_string N t) (octets @ rest) = Some (Ok (v, rest))"
  using ber_octet_string.message_roundtrip [OF assms(1), of t v r] assms(2,3)
  by (auto simp: string_octets_def)

theorem ber_octet_string_roundtrip_witness:
  "\<exists>octets. encode_with RCer (encode_octet_string OCTET_STRING (replicate 2500 7)) = Ok octets \<and>
    (RCer = RCer \<and> 1000 < length (replicate 2500 (7 :: u8)) \<longrightarrow>
      octets = indefinite_tlv (from_tag OCTET_STRING True) (segments OCTET_STRING (chunks 1000 (replicate 2500 7)))) \<and>
    decode_with_remainder (decoder_options_for RCer) (decode_octet_string ref_nom OCTET_STRING)
      (octets @ [1]) = Some (Ok (replicate 2500 7, [1]))"
  by (rule ber_octet_string_roundtrip) (simp_all add: ref_nom_documented tag_neq string_tags usize_MAX_def)

text \<open>C26: a bit string that fits in one segment is encoded and decoded again, bit by bit,
  including one whose last octet is only partly used.\<close>

theorem ber_bit_string_roundtrip:
  assumes "nom_documented N" "bitvec_documented raw from_vec" "string_tag t"
    "length (raw v) < max_string_length r"
  shows "\<exists>octets. encode_with r (encode_bit_string raw t v) = Ok octets \<and>
    decode_with_remainder (decoder_options_for r) (decode_bit_string N from_vec t) (octets @ rest) =
      Some (Ok (v, rest))"
  using ber_bit_string.message_roundtrip [OF assms(1), of raw from_vec t r v] assms
  by (simp add: bit_string_ok_def bit_string_contents_def)

theorem ber_bit_string_roundtrip_witness:
  "\<exists>octets. encode_with RCer (encode_bit_string ref_raw BIT_STRING [True, False, True]) = Ok octets \<and>
    decode_with_remainder (decoder_options_for RCer) (decode_bit_string ref_nom ref_from_vec BIT_STRING)
      (octets @ []) = Some (Ok ([True, False, True], []))"
  by (rule ber_bit_string_roundtrip) (simp_all add: ref_nom_documented tag_neq string_tags bitvec_ref)

text \<open>C6: a SEQUENCE OF SEQUENCE OF INTEGER is encoded and decoded again under the three sets of
  rules: the element loops stop exactly at the end of the contents, at the end-of-contents
  octets of CER as at the definite length of BER and DER.\<close>

theorem ber_nested_sequence_of_roundtrip:
  assumes "nom_documented N" "\<forall>vs \<in> set vss. \<forall>v \<in> set vs. integer_ok it v"
    "length (concat (map (integers_octets it r) vss)) \<le> usize_MAX"
  shows "\<exists>octets. encode_with r (encode_sequence_of SEQUENCE (map (\<lambda>vs. encode_sequence_of SEQUENCE
        (map (\<lambda>v. encode_integer INTEGER (to_signed_bytes_be it v)) vs)) vss)) = Ok octets \<and>
    decode_with_remainder (decoder_options_for r) (decode_sequence_of N
      (decode_sequence_of N (decode_integer N (BITS it) (try_from_bytes it) INTEGER) SEQUENCE) SEQUENCE)
      (octets @ rest) = Some (Ok (vss, rest))"
  using ber_matrix.seq_of.message_roundtrip [OF assms(1) matrix_wf [OF assms(2,3)]] by simp

theorem ber_nested_sequence_of_roundtrip_witness:
  "\<exists>octets. encode_with RCer (encode_sequence_of SEQUENCE (map (\<lambda>vs. encode_sequence_of SEQUENCE
        (map (\<lambda>v. encode_integer INTEGER (to_signed_bytes_be U8 v)) vs)) [[], [255, 1]])) = Ok octets \<and>
    decode_with_remainder (decoder_options_for RCer) (decode_sequence_of ref_nom
      (decode_sequence_of ref_nom (decode_integer ref_nom (BITS U8) (try_from_bytes U8) INTEGER) SEQUENCE) SEQUENCE)
      (octets @ []) = Some (Ok ([[], [255, 1]], []))"
proof (rule ber_nested_sequence_of_roundtrip)
  have "concat (map (integers_octets U8 RCer) [[], [255, 1]]) =
      [0x30, 0x80, 0, 0, 0x30, 0x80, 2, 2, 0, 255, 2, 1, 1, 0, 0]" by code_simp
  then show "length (concat (map (integers_octets U8 RCer) [[], [255, 1]])) \<le> usize_MAX"
    by (simp add: usize_MAX_def)
qed (auto simp: ref_nom_documented tag_neq string_tags integer_ok_def in_type_def type_min_def type_max_def)

text \<open>C25: a SET OF OCTET STRING is encoded in canonical order and decoded to the same elements,
  up to their order.\<close>

theorem ber_set_of_roundtrip:
  assumes "nom_documented N" "length (concat (map (string_octets OCTET_STRING OCTET_STRING r) vs)) \<le> usize_MAX"
  shows "\<exists>octets ws. encode_with r (encode_set_of SET (map (encode_octet_string OCTET_STRING) vs)) = Ok octets \<and>
    mset ws = mset vs \<and>
    decode_with_remainder (decoder_options_for r) (decode_set_of N (decode_octet_string N OCTET_STRING) SET)
      (octets @ rest) = Some (Ok (ws, rest))"
  by (rule ber_octet_strings.set_of_message [OF assms(1) strings_wf [OF assms(2)]]) simp

theorem ber_set_of_roundtrip_witness:
  "\<exists>octets ws. encode_with RDer (encode_set_of SET (map (encode_octet_string OCTET_STRING) [[2], [], [1, 1]])) =
      Ok octets \<and> mset ws = mset [[2], [], [1, 1]] \<and>
    decode_with_remainder (decoder_options_for RDer) (decode_set_of ref_nom (decode_octet_string ref_nom OCTET_STRING) SET)
      (octets @ []) = Some (Ok (ws, []))"
proof (rule ber_set_of_roundtrip)
  have "tlv (from_tag OCTET_STRING False) [2] = [4, 1, 2]" "tlv (from_tag OCTET_STRING False) [] = [4, 0]"
    "tlv (from_tag OCTET_STRING False) [1, 1] = [4, 2, 1, 1]"
    by code_simp+
  then show "length (concat (map (string_octets OCTET_STRING OCTET_STRING RDer) [[2], [], [1, 1]])) \<le> usize_MAX"
    by (simp add: string_octets_def usize_MAX_def)
qed (rule ref_nom_documented)

text \<open>A SEQUENCE of an object identifier and an octet string is encoded and decoded again,
  component by component.\<close>

theorem ber_sequence_roundtrip:
  assumes "nom_documented N" "oid_ok oid" "length v \<le> usize_MAX"
    "length (tlv (from_tag OBJECT_IDENTIFIER False) (oid_contents oid) @
       string_octets OCTET_STRING OCTET_STRING r v) \<le> usize_MAX"
  shows "\<exists>octets. encode_with r (encode_sequence SEQUENCE (sequence_scope
        (encode_object_identifier OBJECT_IDENTIFIER oid) (encode_octet_string OCTET_STRING v))) = Ok octets \<and>
    decode_with_remainder (decoder_options_for r) (decode_sequence N attribute_fields None None
      (sequence_body (decode_object_identifier N OBJECT_IDENTIFIER) (decode_octet_string N OCTET_STRING)) SEQUENCE)
      (octets @ rest) = Some (Ok ((oid, v), rest))"
proof -
  have "length (oid_contents oid) \<le> usize_MAX" using assms(4) by (simp add: tlv_def)
  with ber_attribute.seq.message_roundtrip [OF assms(1), of "(oid, v)" r] assms show ?thesis
    by (simp add: ber_attribute.components_def tag_neq string_tags)
qed

theorem ber_sequence_roundtrip_witness:
  "\<exists>octets. encode_with RBer (encode_sequence SEQUENCE (sequence_scope
        (encode_object_identifier OBJECT_IDENTIFIER [1, 2]) (encode_octet_string OCTET_STRING [9]))) = Ok octets \<and>
    decode_with_remainder (decoder_options_for RBer) (decode_sequence ref_nom attribute_fields None None
      (sequence_body (decode_object_identifier ref_nom OBJECT_IDENTIFIER) (decode_octet_string ref_nom OCTET_STRING))
      SEQUENCE) (octets @ []) = Some (Ok (([1, 2], [9]), []))"
proof (rule ber_sequence_roundtrip)
  have "tlv (from_tag OBJECT_IDENTIFIER False) (oid_contents [1, 2]) = [6, 1, 42]"
    "tlv (from_tag OCTET_STRING False) [9] = [4, 1, 9]" by code_simp+
  then show "length (tlv (from_tag OBJECT_IDENTIFIER False) (oid_contents [1, 2]) @
      string_octets OCTET_STRING OCTET_STRING RBer [9]) \<le> usize_MAX"
    by (simp add: string_octets_def usize_MAX_def)
qed (simp_all add: ref_nom_documented oid_ok_def usize_MAX_def)

section \<open>Recursion depth\<close>








lemma depth_error [simp]: "depth_exceeded (DecodeError ExceedsMaxParseDepth c)"
  by (simp add: depth_exceeded_def matches_root_cause_def)



lemma input_reduce_depth [simp]: "d_input (reduce_depth d) = d_input d"
  by (simp add: reduce_depth_def)





end
