(* ===== verification/Ber_Canonical.thy ===== *)
theory Ber_Canonical
  imports Ber_Messages "HOL-Library.List_Lexorder"
begin

text \<open>
  Canonical encodings: the order of the elements of a SET OF and of the components of a SET
  does not depend on the order in which they are encoded, and the strict values of a BOOLEAN.
\<close>

section \<open>SET OF\<close>

lemma Nil_less_iff: "[] < xs \<longleftrightarrow> xs \<noteq> []" for xs :: "'a :: order list"
  by (cases xs) simp_all

text \<open>The comparison of \<open>bits.rs\<close> is the lexicographic order on octet strings.\<close>

lemma octet_string_ascending_lex:
  "octet_string_ascending a b = (if a < b then Less else if b < a then Greater else Equal)"
proof -
  have "compare_prefix a b = Less \<Longrightarrow> a < b \<and> \<not> b < a"
    "compare_prefix a b = Greater \<Longrightarrow> b < a \<and> \<not> a < b"
    "compare_prefix a b = Equal \<Longrightarrow> (a < b) = (length a < length b) \<and> (b < a) = (length b < length a)"
    by (induction a b rule: compare_prefix.induct) (auto simp: not_less Nil_less_iff split: if_splits)
  then show ?thesis
    by (auto simp: octet_string_ascending_def split: ordering.splits)
qed

lemma sort_by_ascending: "sort_by octet_string_ascending xs = sort xs"
proof -
  have "insert_by octet_string_ascending x ys = insort x ys" for x ys
    by (induction ys) (auto simp: octet_string_ascending_lex)
  then have "insert_by octet_string_ascending = insort" by (intro ext)
  then show ?thesis by (simp add: sort_by_def sort_key_def)
qed

lemma collect_results_Ok:
  "(\<forall>r \<in> set rs. \<exists>x. r = Ok x) \<Longrightarrow> collect_results rs = Ok (map (\<lambda>r. projr r) rs)"
  by (induction rs) auto

text \<open>C8: the encoding of a SET OF does not depend on the order of its elements: two lists of
  elements that are permutations of each other are written to the same octets.\<close>

theorem set_of_encoding_canonical:
  assumes "mset xs = mset ys" "\<forall>x \<in> set xs. \<exists>enc. x (encoder_new (config e)) = Ok enc"
  shows "encode_set_of t xs e = encode_set_of t ys e"
proof -
  let ?f = "\<lambda>x. map_ok out (x (encoder_new (config e)))"
  have ok: "\<forall>r \<in> set (map ?f xs). \<exists>v. r = Ok v" "\<forall>r \<in> set (map ?f ys). \<exists>v. r = Ok v"
    using assms(2) mset_eq_setD [OF assms(1)] by force+
  have "mset (map projr (map ?f xs)) = mset (map projr (map ?f ys))"
    by (simp only: mset_map assms(1))
  then have "sort_by octet_string_ascending (map projr (map ?f xs)) =
      sort_by octet_string_ascending (map projr (map ?f ys))"
    unfolding sort_by_ascending by (metis sorted_list_of_multiset_mset)
  with collect_results_Ok [OF ok(1)] collect_results_Ok [OF ok(2)] show ?thesis
    by (simp add: encode_set_of_def del: map_map)
qed

theorem set_of_encoding_canonical_witness:
  "encode_set_of SET [encode_octet_string OCTET_STRING [2], encode_octet_string OCTET_STRING [1]] (encoder_new RDer) =
   encode_set_of SET [encode_octet_string OCTET_STRING [1], encode_octet_string OCTET_STRING [2]] (encoder_new RDer)"
  by (rule set_of_encoding_canonical)
    (simp_all add: encode_octet_string_def encode_octet_string_inner_def encode_string_def Let_def)

section \<open>SET\<close>

text \<open>A component writes one value of tag \<open>t\<close> when it appends its octets to the output of an ordinary encoder and
  puts the same octets under its tag into the buffer of a SET encoder.\<close>

definition writes_one :: "encoding_rules \<Rightarrow> tag \<Rightarrow> encode_fn \<Rightarrow> bool" where
  "writes_one r t v \<longleftrightarrow> (\<exists>b.
    (\<forall>e. config e = r \<and> \<not> is_set_encoding e \<longrightarrow> v e = Ok (e\<lparr>out := out e @ b\<rparr>)) \<and>
    (\<forall>e. config e = r \<and> is_set_encoding e \<and> out e = [] \<longrightarrow> v e = Ok (e\<lparr>set_buffer := bt_insert t b (set_buffer e)\<rparr>)))"

definition set_component :: "encoding_rules \<Rightarrow> tag \<times> encode_fn \<Rightarrow> bool" where
  "set_component r c \<longleftrightarrow> writes_one r (fst c) (snd c) \<or> snd c = encode_none_with_tag"

text \<open>What a component writes when it stands alone.\<close>

definition standalone :: "encoding_rules \<Rightarrow> encode_fn \<Rightarrow> bytes" where
  "standalone r v = (case encode_with r v of Ok bs \<Rightarrow> bs | Err _ \<Rightarrow> [])"

lemma writes_one_set:
  assumes "writes_one r t v" "config e = r" "is_set_encoding e" "out e = []"
  shows "v e = Ok (e\<lparr>set_buffer := bt_insert t (standalone r v) (set_buffer e)\<rparr>)"
proof -
  obtain b where b: "\<And>e. config e = r \<Longrightarrow> \<not> is_set_encoding e \<Longrightarrow> v e = Ok (e\<lparr>out := out e @ b\<rparr>)"
    "v e = Ok (e\<lparr>set_buffer := bt_insert t b (set_buffer e)\<rparr>)"
    using assms unfolding writes_one_def by blast
  have "v (encoder_new r) = Ok ((encoder_new r)\<lparr>out := b\<rparr>)" using b(1) [of "encoder_new r"] by (simp add: encoder_new_def)
  then show ?thesis using b(2) by (simp add: standalone_def encode_with_def encoder_output_def encoder_new_def)
qed

lemma standalone_none [simp]: "standalone r encode_none_with_tag = []"
  by (simp add: standalone_def encode_with_def encode_none_with_tag_def encoder_output_def encoder_new_def)

subsection \<open>The values of the model are components\<close>

lemma writes_one_value [intro]: "writes_one r t (\<lambda>e. Ok (encode_value (from_tag t k) c e))"
  unfolding writes_one_def
  by (rule exI [of _ "frame r (from_tag t k) c"])
    (simp add: encode_value_def encode_length_def append_byte_or_bytes_def append_output_def from_tag_def
      encode_to_set_def frame_def tlv_def indefinite_tlv_def Let_def)

lemma writes_one_eq: "(\<And>e. config e = r \<Longrightarrow> v e = w e) \<Longrightarrow> writes_one r t w \<Longrightarrow> writes_one r t v"
  unfolding writes_one_def by (elim exE) (rule exI, auto)

lemma writes_one_primitive:
  "writes_one r t (encode_bool t b)" "writes_one r t (encode_integer t be)" "writes_one r t (encode_null t)"
  "writes_one r t (encode_enumerated t i)"
  "object_identifier_as_bytes oid = Ok bs \<Longrightarrow> writes_one r t (encode_object_identifier t oid)"
  by (rule writes_one_eq [OF _ writes_one_value];
      simp add: encode_bool_def encode_integer_def encode_null_def encode_enumerated_def encode_object_identifier_def encode_primitive_def)+

lemma writes_one_string: "length v \<le> max_string_length r \<Longrightarrow> writes_one r t (encode_string t nested v)"
  by (rule writes_one_eq [OF _ writes_one_value]) (simp add: encode_string_def encode_primitive_def Let_def)

lemma writes_one_octet_string: "length v \<le> max_string_length r \<Longrightarrow> writes_one r t (encode_octet_string t v)"
  by (rule writes_one_eq [OF _ writes_one_string]) (simp_all add: encode_octet_string_def encode_octet_string_inner_def)

lemma writes_one_constructed:
  "encode_all vs (encoder_new r) = Ok e1 \<Longrightarrow> writes_one r t (encode_sequence_of t vs)"
  "scope (encoder_new r) = Ok e1 \<Longrightarrow> writes_one r t (encode_sequence t scope)"
  "scope (encoder_new_set r) = Ok e1 \<Longrightarrow> writes_one r t (encode_set t scope)"
  "val (encoder_new r) = Ok e1 \<Longrightarrow> writes_one r t (encode_explicit_prefix t True val)"
  "collect_results (map (\<lambda>val. map_ok out (val (encoder_new r))) vs) = Ok es \<Longrightarrow> writes_one r t (encode_set_of t vs)"
  by (rule writes_one_eq [OF _ writes_one_value];
      simp add: encode_sequence_of_def encode_sequence_def encode_set_def encode_explicit_prefix_def encode_set_of_def
        encode_constructed_def Let_def)+

lemma absent_prefix: "encode_explicit_prefix t False val = encode_none_with_tag"
  by (intro ext) (simp add: encode_explicit_prefix_def encode_none_with_tag_def)

lemmas set_component_intros = writes_one_primitive writes_one_octet_string writes_one_constructed

subsection \<open>The order of the components\<close>

lemma encode_all_set_buffer:
  assumes "\<forall>c \<in> set fs. set_component (config e) c" "is_set_encoding e" "out e = []"
  shows "encode_all (map snd fs) e = Ok (e\<lparr>set_buffer := fold (\<lambda>(t, b). bt_insert t b)
    (map (\<lambda>c. (fst c, standalone (config e) (snd c))) (filter (\<lambda>c. snd c \<noteq> encode_none_with_tag) fs)) (set_buffer e)\<rparr>)"
  using assms
proof (induction fs arbitrary: e)
  case (Cons c fs)
  show ?case
  proof (cases "snd c = encode_none_with_tag")
    case True
    then have "snd c e = Ok e" by (simp add: encode_none_with_tag_def)
    with Cons True show ?thesis by simp
  next
    case False
    let ?e = "e\<lparr>set_buffer := bt_insert (fst c) (standalone (config e) (snd c)) (set_buffer e)\<rparr>"
    have "snd c e = Ok ?e" using Cons.prems False by (intro writes_one_set) (auto simp: set_component_def)
    moreover from Cons.IH [of ?e] Cons.prems have "encode_all (map snd fs) ?e = Ok (?e\<lparr>set_buffer := fold (\<lambda>(t, b). bt_insert t b)
      (map (\<lambda>c. (fst c, standalone (config e) (snd c))) (filter (\<lambda>c. snd c \<noteq> encode_none_with_tag) fs)) (set_buffer ?e)\<rparr>)" by simp
    ultimately show ?thesis using False by simp
  qed
qed simp

lemma bt_insert_insort: "k \<notin> fst ` set m \<Longrightarrow> bt_insert k v m = insort_key fst (k, v) m"
  by (induction k v m rule: bt_insert.induct) auto

lemma fold_bt_insert:
  "distinct (map fst kvs) \<Longrightarrow> fst ` set kvs \<inter> fst ` set m = {} \<Longrightarrow>
    fold (\<lambda>(t, b). bt_insert t b) kvs m = fold (insort_key fst) kvs m"
proof (induction kvs arbitrary: m)
  case (Cons kv kvs)
  obtain k v where kv: "kv = (k, v)" by (cases kv)
  then have "bt_insert k v m = insort_key fst (k, v) m" using Cons.prems by (intro bt_insert_insort) auto
  moreover have "fst ` set kvs \<inter> fst ` set (insort_key fst (k, v) m) = {}"
    using Cons.prems kv by (auto simp: set_insort_key)
  ultimately show ?case using Cons kv by simp
qed simp

lemma fold_append_concat: "fold (\<lambda>field acc. acc @ field) bs acc = acc @ concat bs"
  by (induction bs arbitrary: acc) simp_all

lemma fold_insort_sort:
  assumes "distinct (map fst xs)"
  shows "fold (insort_key fst) xs [] = sort_key fst xs"
proof -
  have "sort_key fst xs = sort_key fst (rev xs)"
    by (rule sort_key_inj_key_eq) (use assms in \<open>simp_all add: distinct_map\<close>)
  also have "\<dots> = fold (insort_key fst) xs []" by (simp add: sort_key_def foldr_conv_fold)
  finally show ?thesis ..
qed

lemma sort_key_map_snd:
  "distinct (map fst xs) \<Longrightarrow> sort_key fst (map (\<lambda>c. (fst c, f (snd c))) xs) = map (\<lambda>c. (fst c, f (snd c))) (sort_key fst xs)"
  by (rule sort_key_inj_key_eq) (auto simp: comp_def distinct_map inj_on_def)

lemma concat_filter_Nil: "(\<And>x. \<not> P x \<Longrightarrow> g x = []) \<Longrightarrow> concat (map g (filter P xs)) = concat (map g xs)"
  by (induction xs) auto

text \<open>C10: the components of a SET are written in ascending order of their tags, in whatever order the value encodes
  them.  A component is any encoder that writes one value of its tag (\<open>writes_one_primitive\<close>,
  \<open>writes_one_octet_string\<close> and \<open>writes_one_constructed\<close> give the encoders of the model) or nothing at all;
  the tags are distinct.\<close>

theorem set_components_in_tag_order:
  assumes "\<forall>c \<in> set fs. set_component (config e) c" "distinct (map fst fs)" "mset fs = mset gs"
  shows "encode_set t (encode_all (map snd fs)) e = Ok (encode_constructed t
    (concat (map (\<lambda>(u, v). standalone (config e) v) (sort_key fst gs))) e)"
proof -
  let ?r = "config e" and ?P = "\<lambda>c :: tag \<times> encode_fn. snd c \<noteq> encode_none_with_tag"
  let ?octets = "\<lambda>c. (fst c, standalone ?r (snd c))"
  have d: "distinct (map fst (filter ?P fs))" using assms(2) by (simp add: distinct_map_filter)
  then have kd: "distinct (map fst (map ?octets (filter ?P fs)))" by (simp add: comp_def)
  from fold_bt_insert [OF kd, of "[]"] fold_insort_sort [OF kd] sort_key_map_snd [OF d, of "standalone ?r"]
  have buffer: "fold (\<lambda>(t, b). bt_insert t b) (map ?octets (filter ?P fs)) [] = map ?octets (filter ?P (sort_key fst fs))"
    by (simp add: filter_sort)
  have "sort_key fst fs = sort_key fst gs"
    using assms(2,3) by (intro sort_key_inj_key_eq) (simp_all add: distinct_map)
  then have "concat (map snd (map ?octets (filter ?P (sort_key fst fs)))) = concat (map (\<lambda>(u, v). standalone ?r v) (sort_key fst gs))"
    using concat_filter_Nil [of ?P "\<lambda>c. standalone ?r (snd c)" "sort_key fst gs"] by (simp add: comp_def case_prod_beta')
  with encode_all_set_buffer [of fs "encoder_new_set ?r"] assms(1) buffer show ?thesis
    by (simp add: encode_set_def encoder_new_set_def encoder_output_def fold_append_concat)
qed

theorem set_components_in_tag_order_witness:
  "encode_set SET (encode_all [encode_octet_string (Tag Context 1) [7], encode_none_with_tag,
      encode_sequence SEQUENCE (encode_bool BOOL True), encode_bool BOOL True]) (encoder_new RDer) =
    Ok (encode_constructed SET (concat (map (\<lambda>(u, v). standalone RDer v) (sort_key fst
      [(BOOL, encode_bool BOOL True), (SEQUENCE, encode_sequence SEQUENCE (encode_bool BOOL True)),
       (Tag Context 1, encode_octet_string (Tag Context 1) [7]), (INTEGER, encode_none_with_tag)]))) (encoder_new RDer))"
proof -
  let ?fs = "[(Tag Context 1, encode_octet_string (Tag Context 1) [7]), (INTEGER, encode_none_with_tag),
    (SEQUENCE, encode_sequence SEQUENCE (encode_bool BOOL True)), (BOOL, encode_bool BOOL True)]"
  have "encode_set SET (encode_all (map snd ?fs)) (encoder_new RDer) =
    Ok (encode_constructed SET (concat (map (\<lambda>(u, v). standalone (config (encoder_new RDer)) v) (sort_key fst
      [(BOOL, encode_bool BOOL True), (SEQUENCE, encode_sequence SEQUENCE (encode_bool BOOL True)),
       (Tag Context 1, encode_octet_string (Tag Context 1) [7]), (INTEGER, encode_none_with_tag)]))) (encoder_new RDer))"
  proof (rule set_components_in_tag_order)
    have "writes_one RDer (Tag Context 1) (encode_octet_string (Tag Context 1) [7])"
      "writes_one RDer SEQUENCE (encode_sequence SEQUENCE (encode_bool BOOL True))" "writes_one RDer BOOL (encode_bool BOOL True)"
      by (auto intro!: set_component_intros simp: encode_bool_def usize_MAX_def)
    then show "\<forall>c \<in> set ?fs. set_component (config (encoder_new RDer)) c" by (simp add: set_component_def encoder_new_def)
    show "distinct (map fst ?fs)" by (simp add: BOOL_def INTEGER_def SEQUENCE_def)
  qed simp
  then show ?thesis by (simp add: encoder_new_def)
qed

lemma fold_encode_primitive_set:
  "is_set_encoding e \<Longrightarrow> cs \<noteq> [] \<Longrightarrow> \<exists>buffer. fold (encode_primitive nested) cs e = e\<lparr>set_buffer := buffer, out := []\<rparr>"
proof (induction cs arbitrary: e)
  case (Cons c cs)
  have one: "\<exists>buffer. encode_primitive nested c e = e\<lparr>set_buffer := buffer, out := []\<rparr>"
    using Cons.prems by (auto simp: encode_primitive_def encode_value_def encode_length_def append_byte_or_bytes_def append_output_def
        encode_to_set_def Let_def)
  then obtain buffer where e1: "encode_primitive nested c e = e\<lparr>set_buffer := buffer, out := []\<rparr>" ..
  show ?case
  proof (cases cs)
    case (Cons c' cs')
    with Cons.IH [of "e\<lparr>set_buffer := buffer, out := []\<rparr>"] Cons.prems e1 show ?thesis by auto
  qed (use e1 in auto)
qed simp

text \<open>Inside a SET a string that CER splits into segments is no such component: the segments are taken for
  components of the SET, one over the other, and under the tag of the string only its end of contents is written.\<close>

lemma cer_set_loses_segments:
  assumes "is_set_encoding e" "config e = RCer" "1000 < length v"
  shows "\<exists>buffer. encode_string t nested v e = Ok (e\<lparr>set_buffer := bt_insert t [0, 0] buffer, out := []\<rparr>)"
proof -
  let ?e = "append_output [START_OF_CONTENTS] (append_byte_or_bytes (encode_identifier (from_tag t True)) e)"
  have "chunks 1000 v \<noteq> []" using assms(3) by (subst chunks.simps) auto
  moreover have "is_set_encoding ?e" using assms(1) by (simp add: append_output_def append_byte_or_bytes_def)
  ultimately obtain buffer where "fold (encode_primitive nested) (chunks 1000 v) ?e = ?e\<lparr>set_buffer := buffer, out := []\<rparr>"
    using fold_encode_primitive_set by blast
  then show ?thesis using assms
    by (auto simp: encode_string_def Let_def append_output_def append_byte_or_bytes_def encode_to_set_def)
qed

lemma cer_set_loses_segments_witness:
  "\<exists>buffer. encode_string UTF8_STRING OCTET_STRING (replicate 1001 65) (encoder_new_set RCer) =
    Ok ((encoder_new_set RCer)\<lparr>set_buffer := bt_insert UTF8_STRING [0, 0] buffer, out := []\<rparr>)"
  by (rule cer_set_loses_segments) (simp_all add: encoder_new_set_def)

section \<open>Strictness\<close>

text \<open>A BOOLEAN whose octet is neither \<open>00\<close> nor \<open>FF\<close> is true under BER and an error under CER
  and DER.\<close>

theorem decode_bool_octet:
  assumes "nom_documented N" "t \<noteq> EOC" "d_input d = tlv (from_tag t False) [b] @ rest" "b \<noteq> 0" "b \<noteq> 0xFF"
  shows "decode_bool N t d =
    Some (if d_rules (d_config d) = RBer then Ok True else Err (DecodeError (InvalidBool b) (d_codec d)),
      d\<lparr>d_input := rest\<rparr>)"
  using parse_primitive_value_tlv [OF assms(1,2) _ assms(3)] assms(4,5)
  by (simp add: decode_bool_def dbind_def dlift_def dret_def derr_def assert_length_def usize_MAX_def d_codec_def)

theorem decode_bool_octet_witness:
  "decode_bool ref_nom BOOL (decoder_new [1, 1, 7] decoder_options_cer) =
    Some (if d_rules (d_config (decoder_new [1, 1, 7] decoder_options_cer)) = RBer then Ok True
      else Err (DecodeError (InvalidBool 7) (d_codec (decoder_new [1, 1, 7] decoder_options_cer))),
      (decoder_new [1, 1, 7] decoder_options_cer)\<lparr>d_input := []\<rparr>)"
proof (rule decode_bool_octet)
  have "tlv (from_tag BOOL False) [7] @ [] = [1, 1, 7]" by code_simp
  then show "d_input (decoder_new [1, 1, 7] decoder_options_cer) = tlv (from_tag BOOL False) [7] @ []"
    by (simp add: decoder_new_def)
qed (simp_all add: ref_nom_documented BOOL_def EOC_def)

end
