(* ===== verification/Ber_Forms.thy ===== *)
theory Ber_Forms
  imports Ber_Messages
begin

text \<open>
  The forms of a value that are not the encoder's own: what DER refuses, what becomes of a bit
  string in the constructed form with a definite length, and strings nested without end.
\<close>

section \<open>Strictness\<close>

text \<open>A decoder that returns this error.\<close>

definition fails_with :: "decode_error \<Rightarrow> ('a dec_result \<times> ber_decoder) option \<Rightarrow> bool" where
  "fails_with e r \<longleftrightarrow> (\<exists>d. r = Some (Err e, d))"

lemma der_indefinite_value:
  assumes "nom_documented N" "id_tag ident \<noteq> EOC" "tag_matches t (id_tag ident)" "d_rules cfg = RDer"
  shows "parse_value N cfg (indefinite_tlv ident content @ rest) t = Err (DecodeError ParserFail Der)"
proof -
  have "id_tag (written_identifier ident) = id_tag ident" by (simp add: written_identifier_def from_tag_def)
  moreover have "parse_contents N cfg i ([0x80] @ bs) = Err (NomFailure KTag)" for i bs
    using assms(4) by (simp add: parse_contents_def nom_takeD [OF assms(1)] allows_indefinite_def)
  ultimately show ?thesis
    using parse_encode_identifier [OF assms(1,2)] assms(3,4)
    by (auto simp: parse_value_def indefinite_tlv_def tag_matches_def assert_tag_def
        map_nom_err_def current_codec_def split: option.splits)
qed

text \<open>C28: under DER every value in the indefinite form is refused by the parser, whether it is read as a string, as any
  value, as a primitive or as a constructed type, and so is a string in the constructed form with a definite length.\<close>

theorem der_rejects_ber_forms:
  fixes rest :: bytes
  assumes "nom_documented N" "string_tag t" "u \<noteq> EOC" "d_rules (d_config d) = RDer" "length content \<le> usize_MAX"
    "remaining_depth (d_config d) \<noteq> 0"
  defines "constructed \<equiv> d\<lparr>d_input := tlv (from_tag t True) content @ rest\<rparr>"
    and "indefinite \<equiv> \<lambda>v. d\<lparr>d_input := indefinite_tlv (from_tag v True) content @ rest\<rparr>"
  shows "fails_with (from_codec_kind (DerErr ConstructedEncodingNotAllowed)) (decode_octet_string N t constructed)
    \<and> fails_with (from_codec_kind (DerErr ConstructedEncodingNotAllowed)) (decode_bit_string N from_vec t constructed)
    \<and> fails_with (DecodeError ParserFail Der) (decode_octet_string N t (indefinite t))
    \<and> fails_with (DecodeError ParserFail Der) (decode_bit_string N from_vec t (indefinite t))
    \<and> fails_with (DecodeError ParserFail Der) (decode_any N u (indefinite u))
    \<and> fails_with (DecodeError ParserFail Der) (parse_primitive_value N u (indefinite u))
    \<and> fails_with (DecodeError ParserFail Der) (parse_constructed_contents N u check f (indefinite u))"
proof -
  have d: "dec_parse_value N t constructed = Some (Ok (from_tag t True, Some content), d\<lparr>d_input := rest\<rparr>)"
    using dec_parse_value_tlv [of N t content constructed True rest] assms(1,2,5)
    by (simp add: constructed_def string_tag_not_EOC written_string_identifier)
  have p: "parse_value N (d_config d) (tlv (from_tag t True) content @ rest) (Some t) = Ok (rest, from_tag t True, Some content)"
    using parse_value_tlv [OF assms(1), of "from_tag t True" content "Some t"] assms(2,5)
    by (simp add: written_string_identifier tag_matches_def from_tag_simps string_tag_not_EOC)
  have i: "parse_value N (d_config d) (indefinite_tlv (from_tag v True) content @ rest) (Some v) = Err (DecodeError ParserFail Der)"
    if "v \<noteq> EOC" for v
    using der_indefinite_value [OF assms(1), of "from_tag v True" "Some v" "d_config d" content rest] that assms(4)
    by (simp add: from_tag_simps tag_matches_def)
  then have di: "dec_parse_value N v (indefinite v) = Some (Err (DecodeError ParserFail Der), indefinite v)" if "v \<noteq> EOC" for v
    using that by (simp add: dec_parse_value_def indefinite_def derr_def)
  note t = string_tag_not_EOC [OF assms(2)]
  show ?thesis
  proof (intro conjI)
    show "fails_with (from_codec_kind (DerErr ConstructedEncodingNotAllowed)) (decode_octet_string N t constructed)"
      using assms(4) d by (simp add: fails_with_def decode_octet_string_def dbind_def from_tag_simps is_der_def derr_def)
    show "fails_with (from_codec_kind (DerErr ConstructedEncodingNotAllowed)) (decode_bit_string N from_vec t constructed)"
      using assms(4) p by (simp add: fails_with_def decode_bit_string_def parse_encoded_value_def constructed_def from_tag_simps
          allows_constructed_strings_def derr_def)
    show "fails_with (DecodeError ParserFail Der) (decode_octet_string N t (indefinite t))"
      using di [OF t] by (simp add: fails_with_def decode_octet_string_def dbind_def)
    show "fails_with (DecodeError ParserFail Der) (decode_bit_string N from_vec t (indefinite t))"
      using i [OF t] by (simp add: fails_with_def decode_bit_string_def parse_encoded_value_def indefinite_def derr_def)
    show "fails_with (DecodeError ParserFail Der) (decode_any N u (indefinite u))"
      using i [OF assms(3)] assms(3) by (simp add: fails_with_def decode_any_def indefinite_def derr_def Let_def)
    show "fails_with (DecodeError ParserFail Der) (parse_primitive_value N u (indefinite u))"
      using di [OF assms(3)] by (simp add: fails_with_def parse_primitive_value_def dbind_def)
    have "check_recursion_depth (indefinite u) = Some (Ok (), indefinite u)"
      using assms(6) by (simp add: check_recursion_depth_def indefinite_def dret_def)
    then show "fails_with (DecodeError ParserFail Der) (parse_constructed_contents N u check f (indefinite u))"
      using di [OF assms(3)] by (simp add: fails_with_def parse_constructed_contents_def dbind_def)
  qed
qed

theorem der_rejects_ber_forms_witness:
  "fails_with (from_codec_kind (DerErr ConstructedEncodingNotAllowed))
      (decode_octet_string ref_nom OCTET_STRING ((decoder_new [] decoder_options_der)\<lparr>d_input := [0x24, 3, 4, 1, 7]\<rparr>))
    \<and> fails_with (DecodeError ParserFail Der)
      (parse_constructed_contents ref_nom SEQUENCE True (decode_bool ref_nom BOOL)
        ((decoder_new [] decoder_options_der)\<lparr>d_input := [0x30, 0x80, 4, 1, 7, 0, 0]\<rparr>))"
proof -
  let ?d = "decoder_new [] decoder_options_der"
  have "tlv (from_tag OCTET_STRING True) [4, 1, 7] @ [] = [0x24, 3, 4, 1, 7]"
    "indefinite_tlv (from_tag SEQUENCE True) [4, 1, 7] @ [] = [0x30, 0x80, 4, 1, 7, 0, 0]" by code_simp+
  moreover have "SEQUENCE \<noteq> EOC" by (simp add: SEQUENCE_def EOC_def)
  ultimately show ?thesis
    using der_rejects_ber_forms [OF ref_nom_documented, of OCTET_STRING SEQUENCE ?d "[4, 1, 7]" "[]" _ True "decode_bool ref_nom BOOL"]
    by (simp add: string_tags decoder_new_def decoder_options_der_def usize_MAX_def)
qed

section \<open>Constructed bit strings\<close>

lemma parse_identifier_zero:
  "nom_documented N \<Longrightarrow> parse_identifier_octet N (0 # bs) = Err (PNom (NomFailure KEof))"
  by (simp add: parse_identifier_octet_def parse_initial_octet_def nom_takeD class_from_u8_def identifier_new_def EOC_def Let_def)

lemma identifier_not_zero:
  assumes "t \<noteq> EOC"
  shows "take 2 (bytes_of (encode_identifier (from_tag t k)) @ rest) \<noteq> [0, 0]"
proof
  let ?i = "bytes_of (encode_identifier (from_tag t k)) @ rest"
  assume "take 2 ?i = [0, 0]"
  then obtain bs where "?i = 0 # bs" by (cases ?i) auto
  with parse_identifier_zero [OF ref_nom_documented, of bs] parse_encode_identifier [OF ref_nom_documented, of "from_tag t k" rest] assms
  show False by (simp add: from_tag_simps)
qed

lemma bytes_of_identifier_not_Nil: "bytes_of (encode_identifier ident) \<noteq> []"
  using encode_as_base128_not_Nil by (simp add: encode_identifier_eq Let_def)

lemma tlv_not_zero:
  assumes "t \<noteq> EOC"
  shows "tlv (from_tag t k) c @ rest \<noteq> []" "take 2 (tlv (from_tag t k) c @ rest) \<noteq> [0, 0]"
    "indefinite_tlv (from_tag t k) c @ rest \<noteq> []" "take 2 (indefinite_tlv (from_tag t k) c @ rest) \<noteq> [0, 0]"
  using identifier_not_zero [OF assms] by (simp_all add: tlv_def indefinite_tlv_def bytes_of_identifier_not_Nil del: take_append)

lemma parse_identifier_tlv:
  assumes "nom_documented N" "string_tag t"
  shows "\<exists>i. parse_identifier_octet N (tlv (from_tag t k) c @ rest) = Ok (i, from_tag t k)"
    "\<exists>i. parse_identifier_octet N (indefinite_tlv (from_tag t k) c @ rest) = Ok (i, from_tag t k)"
  using parse_encode_identifier [OF assms(1), of "from_tag t k"] assms(2)
  by (simp_all add: tlv_def indefinite_tlv_def written_string_identifier from_tag_simps string_tag_not_EOC)

lemma encoded_value_tlv:
  assumes "nom_documented N" "string_tag t" "length val \<le> usize_MAX"
  shows "encoded_value (Suc n) N cfg cb (tlv (from_tag t False) val @ rest) t =
    Some (and_then (cb val (current_codec cfg)) (\<lambda>rv. Ok (rest, rv)))"
proof -
  have "parse_value N cfg (tlv (from_tag t False) val @ rest) (Some t) = Ok (rest, from_tag t False, Some val)"
    using parse_value_tlv [OF assms(1), of "from_tag t False" val "Some t"] assms(2,3)
    by (simp add: written_string_identifier tag_matches_def from_tag_simps string_tag_not_EOC)
  then show ?thesis by (simp add: from_tag_simps)
qed

text \<open>The loop over the values that follow a constructed string.\<close>

lemma encoded_loop_primitives:
  assumes "nom_documented N" "string_tag t" "rest = [] \<or> take 2 rest = [0, 0]"
    "\<forall>(c, v) \<in> set cs. length c \<le> usize_MAX \<and> cb c (current_codec cfg) = Ok v" "Suc (length cs) < n"
  shows "encoded_loop n N cfg cb (concat (map (\<lambda>(c, v). tlv (from_tag t False) c) cs) @ rest) container =
    Some (Ok (rest, container @ concat (map snd cs)))"
  using assms(4,5)
proof (induction cs arbitrary: n container)
  case Nil
  then obtain m where "n = Suc m" by (cases n) auto
  then show ?case using assms(3) by auto
next
  case (Cons p cs)
  obtain c v where p: "p = (c, v)" by (cases p)
  obtain m where n: "n = Suc (Suc m)" "Suc (length cs) < Suc m" using Cons.prems(2) by (cases n; cases "n - 1") auto
  let ?i = "concat (map (\<lambda>(c, v). tlv (from_tag t False) c) cs) @ rest"
  obtain i where "parse_identifier_octet N (tlv (from_tag t False) c @ ?i) = Ok (i, from_tag t False)"
    using parse_identifier_tlv(1) [OF assms(1,2)] by blast
  moreover have "encoded_value (Suc m) N cfg cb (tlv (from_tag t False) c @ ?i) t = Some (Ok (?i, v))"
    using Cons.prems(1) p encoded_value_tlv [OF assms(1,2), of c m cfg cb ?i] by (simp del: encoded_value.simps)
  moreover have "encoded_loop (Suc m) N cfg cb ?i (container @ v) = Some (Ok (rest, (container @ v) @ concat (map snd cs)))"
    using Cons.prems(1) n(2) by (intro Cons.IH) auto
  moreover have "tlv (from_tag t False) c @ ?i \<noteq> []" "take 2 (tlv (from_tag t False) c @ ?i) \<noteq> [0, 0]"
    using tlv_not_zero [OF string_tag_not_EOC [OF assms(2)]] by blast+
  ultimately show ?case by (simp add: n(1) p from_tag_simps del: encoded_value.simps)
qed

lemma length_tlv: "2 \<le> length (tlv ident c)"
proof -
  have "bytes_of (encode_definite_length n) \<noteq> []" for n by (simp add: encode_definite_length_def Let_def)
  then have "1 \<le> length (bytes_of (encode_identifier ident))" "1 \<le> length (bytes_of (encode_definite_length (length c)))"
    using bytes_of_identifier_not_Nil by (simp_all add: Suc_le_eq)
  then show ?thesis by (simp add: tlv_def)
qed

lemma length_tlvs: "length cs \<le> length (concat (map (\<lambda>(c, v). tlv (from_tag t False) c) cs))"
proof (induction cs)
  case (Cons p cs)
  then show ?case using length_tlv [of "from_tag t False" "fst p"] by (cases p) simp
qed simp

text \<open>C33: a BIT STRING in the constructed form with a definite length is not read: its contents are dropped,
  whatever they are, and the BIT STRINGs that follow it in the input are taken for its segments.\<close>

theorem ber_constructed_bit_string_misread:
  assumes "nom_documented N" "bitvec_documented raw from_vec" "string_tag t" "d_rules (d_config d) \<noteq> RDer"
    "length content \<le> usize_MAX" "\<forall>v \<in> set vs. length (bit_string_contents raw v) \<le> usize_MAX"
    "rest = [] \<or> take 2 rest = [0, 0]"
    "d_input d = tlv (from_tag t True) content @
      concat (map (\<lambda>v. tlv (from_tag BIT_STRING False) (bit_string_contents raw v)) vs) @ rest"
  shows "decode_bit_string N from_vec t d = Some (Ok (concat vs), d\<lparr>d_input := rest\<rparr>)"
proof -
  let ?cs = "map (\<lambda>v. (bit_string_contents raw v, v)) vs"
  let ?i = "concat (map (\<lambda>(c, v). tlv (from_tag BIT_STRING False) c) ?cs) @ rest"
  have input: "d_input d = tlv (from_tag t True) content @ ?i" using assms(8) by (simp add: comp_def)
  have "2 \<le> length (tlv (from_tag t True) content)" by (rule length_tlv)
  then have fuel: "Suc (length ?cs) < length (d_input d)"
    unfolding input using length_tlvs [of ?cs BIT_STRING] by simp
  have "string_tag BIT_STRING" by (simp add: string_tags)
  moreover have "\<forall>(c, v) \<in> set ?cs. length c \<le> usize_MAX \<and> bit_string_callback from_vec c (current_codec (d_config d)) = Ok v"
    using assms(6) bit_string_callback_raw [OF assms(2)] by (auto simp: bit_string_contents_def)
  ultimately have loop: "encoded_loop (length (d_input d)) N (d_config d) (bit_string_callback from_vec) ?i [] = Some (Ok (rest, [] @ concat (map snd ?cs)))"
    using encoded_loop_primitives [OF assms(1) _ assms(7) _ fuel] by blast
  have "parse_value N (d_config d) (d_input d) (Some t) = Ok (?i, from_tag t True, Some content)"
    unfolding input using parse_value_tlv [OF assms(1), of "from_tag t True" content "Some t"] assms(3,5)
    by (simp add: written_string_identifier tag_matches_def from_tag_simps string_tag_not_EOC)
  then have "parse_encoded_value N (d_config d) (d_input d) t (bit_string_callback from_vec) = Some (Ok (rest, concat vs))"
    using loop assms(4) by (cases "d_rules (d_config d)") (simp_all add: parse_encoded_value_def from_tag_simps allows_constructed_strings_def comp_def)
  then show ?thesis by (simp add: decode_bit_string_def dret_def)
qed

theorem ber_constructed_bit_string_misread_witness:
  "decode_bit_string ref_nom ref_from_vec BIT_STRING
      (decoder_new [0x23, 4, 3, 2, 4, 0xf0, 3, 2, 7, 0x80] decoder_options_ber) =
    Some (Ok [True], (decoder_new [0x23, 4, 3, 2, 4, 0xf0, 3, 2, 7, 0x80] decoder_options_ber)\<lparr>d_input := []\<rparr>)"
proof -
  have "tlv (from_tag BIT_STRING True) [3, 2, 4, 0xf0] @
      concat (map (\<lambda>v. tlv (from_tag BIT_STRING False) (bit_string_contents ref_raw v)) [[True]]) @ [] =
    [0x23, 4, 3, 2, 4, 0xf0, 3, 2, 7, 0x80]" by code_simp
  moreover have "length (bit_string_contents ref_raw [True]) = 2" by code_simp
  ultimately have "decode_bit_string ref_nom ref_from_vec BIT_STRING
      (decoder_new [0x23, 4, 3, 2, 4, 0xf0, 3, 2, 7, 0x80] decoder_options_ber) =
    Some (Ok (concat [[True]]), (decoder_new [0x23, 4, 3, 2, 4, 0xf0, 3, 2, 7, 0x80] decoder_options_ber)\<lparr>d_input := []\<rparr>)"
    by (intro ber_constructed_bit_string_misread [where raw = ref_raw and content = "[3, 2, 4, 0xf0]"])
      (simp_all add: ref_nom_documented bitvec_ref string_tags decoder_new_def decoder_options_ber_def usize_MAX_def)
  then show ?thesis by simp
qed

section \<open>Nested strings\<close>

text \<open>A string under \<open>n\<close> constructed levels of the indefinite form.\<close>

fun nested_string :: "nat \<Rightarrow> tag \<Rightarrow> bytes \<Rightarrow> bytes" where
  "nested_string 0 t c = tlv (from_tag t False) c"
| "nested_string (Suc n) t c = indefinite_tlv (from_tag t True) (nested_string n t c)"

lemma nested_string_hd:
  "t \<noteq> EOC \<Longrightarrow> nested_string n t c @ rest \<noteq> [] \<and> take 2 (nested_string n t c @ rest) \<noteq> [0, 0]"
proof (cases n)
  case 0
  assume "t \<noteq> EOC"
  from tlv_not_zero(1,2) [OF this, of False c rest] 0 show ?thesis by (simp only: nested_string.simps simp_thms)
next
  case (Suc m)
  assume "t \<noteq> EOC"
  from tlv_not_zero(3,4) [OF this, of True "nested_string m t c" rest] Suc show ?thesis by (simp only: nested_string.simps simp_thms)
qed

lemma nested_string_identifier:
  "nom_documented N \<Longrightarrow> string_tag t \<Longrightarrow> \<exists>i k. parse_identifier_octet N (nested_string n t c @ rest) = Ok (i, from_tag t k)"
  using parse_identifier_tlv by (cases n) (simp, metis)+

lemma encoded_value_nested:
  assumes "nom_documented N" "string_tag t" "length c \<le> usize_MAX" "d_rules cfg \<noteq> RDer" "cb c (current_codec cfg) = Ok v"
  shows "2 * n < fuel \<Longrightarrow> encoded_value fuel N cfg cb (nested_string n t c @ rest) t = Some (Ok (rest, v))"
proof (induction n arbitrary: fuel rest)
  case 0
  then obtain m where "fuel = Suc m" by (cases fuel) auto
  with encoded_value_tlv [OF assms(1-3), where n = m and cfg = cfg and cb = cb and rest = rest] assms(5)
  show ?case by (simp del: encoded_value.simps)
next
  case (Suc n)
  then obtain m where m: "fuel = Suc (Suc (Suc m))" by (cases fuel; cases "fuel - 1"; cases "fuel - 2") auto
  let ?i = "nested_string n t c @ [0, 0] @ rest"
  have rules: "allows_indefinite (d_rules cfg)" "allows_constructed_strings (d_rules cfg)"
    using assms(4) by (cases "d_rules cfg"; simp add: allows_indefinite_def allows_constructed_strings_def)+
  have pv: "parse_value N cfg (nested_string (Suc n) t c @ rest) (Some t) = Ok (?i, from_tag t True, None)"
    using parse_value_indefinite [OF assms(1), of "from_tag t True" "Some t" cfg "nested_string n t c" rest] assms(2) rules
    by (simp add: written_string_identifier tag_matches_def from_tag_simps string_tag_not_EOC)
  obtain i k where "parse_identifier_octet N ?i = Ok (i, from_tag t k)"
    using nested_string_identifier [OF assms(1,2)] by blast
  moreover have "encoded_value (Suc m) N cfg cb ?i t = Some (Ok ([0, 0] @ rest, v))"
    using Suc.prems m by (intro Suc.IH) simp
  moreover have "encoded_loop (Suc m) N cfg cb ([0, 0] @ rest) v = Some (Ok ([0, 0] @ rest, v))" by simp
  ultimately have "encoded_loop (Suc (Suc m)) N cfg cb ?i [] = Some (Ok ([0, 0] @ rest, v))"
    using nested_string_hd [OF string_tag_not_EOC [OF assms(2)], of n c "[0, 0] @ rest"]
    by (simp add: from_tag_simps del: encoded_value.simps take_append)
  then show ?case using pv rules nom_tag_eoc [OF assms(1)] by (simp add: m from_tag_simps)
qed


lemma length_nested_string: "2 * n < length (nested_string n t c)"
proof (induction n)
  case 0
  show ?case using length_tlv [of "from_tag t False" c] by auto
next
  case (Suc n)
  then show ?case using bytes_of_identifier_not_Nil [of "from_tag t True"] by (simp add: indefinite_tlv_def)
qed

text \<open>C31: the limit on the recursion depth does not hold for strings: a string under any number of
  constructed levels is decoded under BER and CER, whatever depth the decoder has left, and with one recursive call of
  \<open>parse_encoded_value\<close> for every level.\<close>

theorem string_nesting_not_limited:
  assumes "nom_documented N" "bitvec_documented raw from_vec" "string_tag t" "d_rules (d_config d) \<noteq> RDer"
    "length (bit_string_contents raw v) \<le> usize_MAX"
    "d_input d = nested_string n t (bit_string_contents raw v) @ rest"
  shows "decode_bit_string N from_vec t d = Some (Ok v, d\<lparr>d_input := rest\<rparr>)"
proof -
  have "bit_string_callback from_vec (bit_string_contents raw v) (current_codec (d_config d)) = Ok v"
    using bit_string_callback_raw [OF assms(2)] by (simp add: bit_string_contents_def)
  from encoded_value_nested [OF assms(1,3,5,4), where cb = "bit_string_callback from_vec" and n = n and
      fuel = "length (d_input d) + 1" and rest = rest and v = v, OF this] show ?thesis
    using length_nested_string [of n t "bit_string_contents raw v"]
    by (simp add: assms(6) decode_bit_string_def parse_encoded_value_def dret_def del: encoded_value.simps)
qed

theorem string_nesting_not_limited_witness:
  "decode_bit_string ref_nom ref_from_vec BIT_STRING
      (decoder_new [0x23, 0x80, 0x23, 0x80, 3, 2, 7, 0x80, 0, 0, 0, 0] (decoder_options_ber\<lparr>remaining_depth := 0\<rparr>)) =
    Some (Ok [True], (decoder_new [0x23, 0x80, 0x23, 0x80, 3, 2, 7, 0x80, 0, 0, 0, 0]
      (decoder_options_ber\<lparr>remaining_depth := 0\<rparr>))\<lparr>d_input := []\<rparr>)"
proof (rule string_nesting_not_limited [where raw = ref_raw and n = 2])
  have "nested_string 2 BIT_STRING (bit_string_contents ref_raw [True]) @ [] =
    [0x23, 0x80, 0x23, 0x80, 3, 2, 7, 0x80, 0, 0, 0, 0]" by code_simp
  then show "d_input (decoder_new [0x23, 0x80, 0x23, 0x80, 3, 2, 7, 0x80, 0, 0, 0, 0] (decoder_options_ber\<lparr>remaining_depth := 0\<rparr>)) =
      nested_string 2 BIT_STRING (bit_string_contents ref_raw [True]) @ []"
    by (simp add: decoder_new_def)
  have "length (bit_string_contents ref_raw [True]) = 2" by code_simp
  then show "length (bit_string_contents ref_raw [True]) \<le> usize_MAX" by (simp add: usize_MAX_def)
qed (simp_all add: ref_nom_documented bitvec_ref string_tags decoder_new_def decoder_options_ber_def)

end
