(* ===== verification/Integer_Type.thy ===== *)
theory Integer_Type
  imports Integers
begin

text \<open>
  \<open>types/integer.rs\<close>: the trait \<open>IntegerType\<close> as the record of the operations the codecs
  call, its implementations for the primitive types, for \<open>BigInt\<close> and for \<open>Integer\<close>, and
  the laws the codecs rely on as a locale.
\<close>

record 'i integer_ops =
  i_to_signed_bytes_be :: "'i \<Rightarrow> bytes \<times> nat"
  i_to_unsigned_bytes_be :: "'i \<Rightarrow> bytes \<times> nat"
  i_try_from_signed_bytes :: "bytes \<Rightarrow> codec \<Rightarrow> 'i dec_result"
  i_try_from_unsigned_bytes :: "bytes \<Rightarrow> codec \<Rightarrow> 'i dec_result"
  i_to_bigint :: "'i \<Rightarrow> int"
  i_to_i128 :: "'i \<Rightarrow> int option"
  i_is_negative :: "'i \<Rightarrow> bool"

definition prim_ops :: "int_type \<Rightarrow> int integer_ops" where
  "prim_ops t =
    \<lparr>i_to_signed_bytes_be = to_signed_bytes_be t, i_to_unsigned_bytes_be = to_unsigned_bytes_be t,
     i_try_from_signed_bytes = try_from_signed_bytes t, i_try_from_unsigned_bytes = try_from_unsigned_bytes t,
     i_to_bigint = (\<lambda>v. v), i_to_i128 = try_into I128,
     i_is_negative = (\<lambda>v. if signed_type t then v < 0 else False)\<rparr>"

definition bigint_ops :: "num \<Rightarrow> int integer_ops" where
  "bigint_ops N =
    \<lparr>i_to_signed_bytes_be = bigint_to_signed_bytes_be N, i_to_unsigned_bytes_be = bigint_to_unsigned_bytes_be N,
     i_try_from_signed_bytes = bigint_try_from_bytes N,
     i_try_from_unsigned_bytes = bigint_try_from_unsigned_bytes N,
     i_to_bigint = (\<lambda>v. v), i_to_i128 = try_into I128, i_is_negative = (\<lambda>v. v < 0)\<rparr>"

definition integer_is_negative :: "integer_kind \<Rightarrow> bool" where
  "integer_is_negative self = (case self of Primitive v \<Rightarrow> v < 0 | Variable v \<Rightarrow> v < 0)"

definition integer_kind_ops :: "num \<Rightarrow> integer_kind integer_ops" where
  "integer_kind_ops N =
    \<lparr>i_to_signed_bytes_be = integer_to_signed_bytes_be N, i_to_unsigned_bytes_be = integer_to_unsigned_bytes_be N,
     i_try_from_signed_bytes = integer_try_from_bytes N,
     i_try_from_unsigned_bytes = integer_try_from_unsigned_bytes N,
     i_to_bigint = to_bigint, i_to_i128 = integer_to_i128, i_is_negative = integer_is_negative\<rparr>"

section \<open>The contract\<close>

definition sign_octet :: "int \<Rightarrow> u8" where
  "sign_octet v = (if v < 0 then 0xff else 0x00)"

text \<open>
  The value of every well-formed integer survives its octets, also when sign octets are
  put in front of them, as long as the total does not exceed \<open>width\<close>.
\<close>

locale integer_type =
  fixes I :: "'i integer_ops" and wf :: "'i \<Rightarrow> bool" and width :: nat
  assumes signed_octets: "wf v \<Longrightarrow> needed_slice (i_to_signed_bytes_be I v) \<noteq> [] \<and>
      snd (i_to_signed_bytes_be I v) = length (needed_slice (i_to_signed_bytes_be I v)) \<and>
      be_sval (needed_slice (i_to_signed_bytes_be I v)) = i_to_bigint I v"
    and unsigned_octets: "wf v \<Longrightarrow> 0 \<le> i_to_bigint I v \<Longrightarrow> needed_slice (i_to_unsigned_bytes_be I v) \<noteq> [] \<and>
      snd (i_to_unsigned_bytes_be I v) = length (needed_slice (i_to_unsigned_bytes_be I v)) \<and>
      be_val (needed_slice (i_to_unsigned_bytes_be I v)) = i_to_bigint I v"
    and from_signed: "wf v \<Longrightarrow> bs \<noteq> [] \<Longrightarrow> be_sval bs = i_to_bigint I v \<Longrightarrow>
      length bs \<le> max width (length (needed_slice (i_to_signed_bytes_be I v))) \<Longrightarrow>
      i_try_from_signed_bytes I bs c = Ok v"
    and from_unsigned: "wf v \<Longrightarrow> bs \<noteq> [] \<Longrightarrow> be_val bs = i_to_bigint I v \<Longrightarrow>
      length bs \<le> max width (length (needed_slice (i_to_unsigned_bytes_be I v))) \<Longrightarrow>
      i_try_from_unsigned_bytes I bs c = Ok v"
    and to_i128: "wf v \<Longrightarrow> i_to_i128 I v = try_into I128 (i_to_bigint I v)"
    and is_negative: "wf v \<Longrightarrow> i_is_negative I v \<longleftrightarrow> i_to_bigint I v < 0"
begin

lemma signed_roundtrip: "wf v \<Longrightarrow> i_try_from_signed_bytes I (needed_slice (i_to_signed_bytes_be I v)) c = Ok v"
  using signed_octets [of v] by (intro from_signed) simp_all

lemma unsigned_roundtrip:
  "wf v \<Longrightarrow> 0 \<le> i_to_bigint I v \<Longrightarrow>
    i_try_from_unsigned_bytes I (needed_slice (i_to_unsigned_bytes_be I v)) c = Ok v"
  using unsigned_octets [of v] by (intro from_unsigned) simp_all

end

section \<open>The implementations keep it\<close>

definition prim_wf :: "int_type \<Rightarrow> int \<Rightarrow> bool" where
  "prim_wf t v \<longleftrightarrow> in_type t v \<and> (t = U128 \<longrightarrow> v < 2 ^ 127)"

lemma needed_is_length:
  "n \<le> length bs \<Longrightarrow> snd (bs, n) = length (needed_slice (bs, n))"
  by (simp add: needed_slice_def)

lemma signed_needed_length:
  assumes "in_type t v" "t = U128 \<Longrightarrow> v < 2 ^ 127"
  shows "snd (to_signed_bytes_be t v) = length (needed_slice (to_signed_bytes_be t v))"
proof -
  let ?t = "signed_pair t"
  have t: "signed_type ?t" "in_type ?t v"
    using cast_signed_pair [OF assms] signed_pair_facts(1) by simp_all
  have "snd (to_signed_bytes_be ?t v) = signed_bytes_needed ?t v"
    using t by (simp add: to_signed_bytes_be_def needed_as_be_bytes_def Let_def)
  then show ?thesis
    using needed_slice_signed [OF t] to_signed_bytes_pair [OF assms] by simp
qed

lemma unsigned_needed_length:
  assumes "in_type t v" "0 \<le> v"
  shows "snd (to_unsigned_bytes_be t v) = length (needed_slice (to_unsigned_bytes_be t v))"
proof -
  let ?t = "unsigned_pair t"
  have t: "\<not> signed_type ?t" "in_type ?t v"
    using to_unsigned_bytes_pair [OF assms] signed_pair_facts(2) by simp_all
  have "snd (to_unsigned_bytes_be ?t v) = unsigned_bytes_needed ?t v"
    using t by (simp add: to_unsigned_bytes_be_def needed_as_be_bytes_def Let_def)
  then show ?thesis
    using needed_slice_unsigned [OF t] to_unsigned_bytes_pair [OF assms] by simp
qed

lemma BYTE_WIDTH_pair: "BYTE_WIDTH t \<le> BYTE_WIDTH (signed_pair t)"
  by (cases t) (simp_all add: BYTE_WIDTH_def)

interpretation prim: integer_type "prim_ops t" "prim_wf t" "BYTE_WIDTH t" for t
proof
  fix v :: int
  assume "prim_wf t v"
  then have wf: "in_type t v" "t = U128 \<Longrightarrow> v < 2 ^ 127" by (simp_all add: prim_wf_def)
  note s = signed_slice_props [OF wf]
  show "needed_slice (i_to_signed_bytes_be (prim_ops t) v) \<noteq> [] \<and>
      snd (i_to_signed_bytes_be (prim_ops t) v) = length (needed_slice (i_to_signed_bytes_be (prim_ops t) v)) \<and>
      be_sval (needed_slice (i_to_signed_bytes_be (prim_ops t) v)) = i_to_bigint (prim_ops t) v"
    using s(1,2) signed_needed_length [OF wf] by (simp add: prim_ops_def)
  show "i_to_i128 (prim_ops t) v = try_into I128 (i_to_bigint (prim_ops t) v)"
    by (simp add: prim_ops_def)
  show "i_is_negative (prim_ops t) v \<longleftrightarrow> i_to_bigint (prim_ops t) v < 0"
    using wf(1) by (auto simp: prim_ops_def in_type_unsigned)
  fix bs c
  show "i_try_from_signed_bytes (prim_ops t) bs c = Ok v"
    if "bs \<noteq> []" "be_sval bs = i_to_bigint (prim_ops t) v"
      "length bs \<le> max (BYTE_WIDTH t) (length (needed_slice (i_to_signed_bytes_be (prim_ops t) v)))"
    using that s(3) BYTE_WIDTH_pair [of t] wf(1) by (simp add: prim_ops_def try_from_signed_bytes_Ok)
next
  fix v :: int
  assume "prim_wf t v" "0 \<le> i_to_bigint (prim_ops t) v"
  then have wf: "in_type t v" "0 \<le> v" by (simp_all add: prim_wf_def prim_ops_def)
  show "needed_slice (i_to_unsigned_bytes_be (prim_ops t) v) \<noteq> [] \<and>
      snd (i_to_unsigned_bytes_be (prim_ops t) v) = length (needed_slice (i_to_unsigned_bytes_be (prim_ops t) v)) \<and>
      be_val (needed_slice (i_to_unsigned_bytes_be (prim_ops t) v)) = i_to_bigint (prim_ops t) v"
    using unsigned_slice_props(1,2) [OF wf] unsigned_needed_length [OF wf] by (simp add: prim_ops_def)
next
  fix v :: int and bs c
  assume a: "prim_wf t v" "bs \<noteq> []" "be_val bs = i_to_bigint (prim_ops t) v"
    "length bs \<le> max (BYTE_WIDTH t) (length (needed_slice (i_to_unsigned_bytes_be (prim_ops t) v)))"
  then have wf: "in_type t v" "0 \<le> v" using be_val_nonneg [of bs] by (simp_all add: prim_wf_def prim_ops_def)
  show "i_try_from_unsigned_bytes (prim_ops t) bs c = Ok v"
    using a unsigned_slice_props(3) [OF wf] wf(1) by (simp add: prim_ops_def try_from_unsigned_bytes_Ok)
qed

text \<open>Big values only outside \<open>isize\<close>, which is what the constructors produce.\<close>

definition canonical_integer :: "num \<Rightarrow> integer_kind \<Rightarrow> bool" where
  "canonical_integer N i \<longleftrightarrow> num_documented N \<and>
    (case i of Primitive v \<Rightarrow> in_type Isize v | Variable v \<Rightarrow> \<not> in_type Isize v)"

lemma num_documentedD:
  assumes "num_documented N"
  shows "num_from_signed_bytes_be N bs = be_sval bs" "num_from_bytes_be N bs = be_val bs"
    "num_to_signed_bytes_be N v \<noteq> []" "be_sval (num_to_signed_bytes_be N v) = v"
  using assms by (simp_all add: num_documented_def)

lemma in_type_Isize_octets: "bs \<noteq> [] \<Longrightarrow> length bs \<le> 8 \<Longrightarrow> in_type Isize (be_sval bs)"
  by (rule be_sval_in_type) (simp_all add: BYTE_WIDTH_def)

lemma integer_try_from_octets:
  assumes "num_documented N" "bs \<noteq> []"
  shows "in_type Isize (be_sval bs) \<Longrightarrow> length bs \<le> 8 \<Longrightarrow>
      integer_try_from_bytes N bs c = Ok (Primitive (be_sval bs))"
    and "\<not> in_type Isize (be_sval bs) \<Longrightarrow> integer_try_from_bytes N bs c = Ok (Variable (be_sval bs))"
proof -
  have e: "try_from_bytes Isize bs c = Ok v \<longleftrightarrow> length bs \<le> 8 \<and> be_sval bs = v" for v
    using assms(2) by (simp add: try_from_bytes_def try_from_signed_bytes_Ok BYTE_WIDTH_def)
  show "in_type Isize (be_sval bs) \<Longrightarrow> length bs \<le> 8 \<Longrightarrow>
      integer_try_from_bytes N bs c = Ok (Primitive (be_sval bs))"
    using e [of "be_sval bs"] assms(2) by (simp add: integer_try_from_bytes_def)
  assume "\<not> in_type Isize (be_sval bs)"
  then have "\<not> length bs \<le> 8" using in_type_Isize_octets [OF assms(2)] by blast
  then obtain err where "try_from_bytes Isize bs c = Err err"
    using e by (cases "try_from_bytes Isize bs c") auto
  then show "integer_try_from_bytes N bs c = Ok (Variable (be_sval bs))"
    using assms(2) by (simp add: integer_try_from_bytes_def bigint_try_from_bytes_def num_documentedD [OF assms(1)])
qed

lemma integer_try_from_unsigned_octets:
  assumes "num_documented N" "bs \<noteq> []"
  shows "in_type Isize (be_val bs) \<Longrightarrow> length bs \<le> 8 \<Longrightarrow>
      integer_try_from_unsigned_bytes N bs c = Ok (Primitive (be_val bs))"
    and "\<not> in_type Isize (be_val bs) \<Longrightarrow> integer_try_from_unsigned_bytes N bs c = Ok (Variable (be_val bs))"
proof -
  have e: "try_from_unsigned_bytes Isize bs c = Ok v \<longleftrightarrow> length bs \<le> 8 \<and> be_val bs = v \<and> in_type Isize v" for v
    using assms(2) by (simp add: try_from_unsigned_bytes_Ok BYTE_WIDTH_def)
  show "in_type Isize (be_val bs) \<Longrightarrow> length bs \<le> 8 \<Longrightarrow>
      integer_try_from_unsigned_bytes N bs c = Ok (Primitive (be_val bs))"
    using e [of "be_val bs"] assms(2) by (simp add: integer_try_from_unsigned_bytes_def)
  assume "\<not> in_type Isize (be_val bs)"
  then have "try_from_unsigned_bytes Isize bs c \<noteq> Ok w" for w using e [of w] by metis
  then obtain err where "try_from_unsigned_bytes Isize bs c = Err err"
    by (meson sum.exhaust)
  then show "integer_try_from_unsigned_bytes N bs c = Ok (Variable (be_val bs))"
    using assms(2)
    by (simp add: integer_try_from_unsigned_bytes_def bigint_try_from_unsigned_bytes_def num_documentedD [OF assms(1)])
qed

lemma integer_slices:
  assumes "canonical_integer N v"
  shows "needed_slice (integer_to_signed_bytes_be N v) \<noteq> []"
    "snd (integer_to_signed_bytes_be N v) = length (needed_slice (integer_to_signed_bytes_be N v))"
    "be_sval (needed_slice (integer_to_signed_bytes_be N v)) = to_bigint v"
    "in_type Isize (to_bigint v) \<Longrightarrow> length (needed_slice (integer_to_signed_bytes_be N v)) \<le> 8"
proof -
  have N: "num_documented N" using assms by (simp add: canonical_integer_def)
  have "needed_slice (integer_to_signed_bytes_be N v) \<noteq> [] \<and>
    snd (integer_to_signed_bytes_be N v) = length (needed_slice (integer_to_signed_bytes_be N v)) \<and>
    be_sval (needed_slice (integer_to_signed_bytes_be N v)) = to_bigint v \<and>
    (in_type Isize (to_bigint v) \<longrightarrow> length (needed_slice (integer_to_signed_bytes_be N v)) \<le> 8)"
  proof (cases v)
    case (Primitive w)
    then have w: "in_type Isize w" using assms by (simp add: canonical_integer_def)
    show ?thesis
      using Primitive signed_slice_props(1-3) [OF w] signed_needed_length [OF w] by (simp add: BYTE_WIDTH_def)
  next
    case (Variable w)
    then show ?thesis
      using assms num_documentedD(3,4) [OF N, of w]
      by (simp add: canonical_integer_def bigint_to_signed_bytes_be_def needed_slice_def Let_def)
  qed
  then show "needed_slice (integer_to_signed_bytes_be N v) \<noteq> []"
    "snd (integer_to_signed_bytes_be N v) = length (needed_slice (integer_to_signed_bytes_be N v))"
    "be_sval (needed_slice (integer_to_signed_bytes_be N v)) = to_bigint v"
    "in_type Isize (to_bigint v) \<Longrightarrow> length (needed_slice (integer_to_signed_bytes_be N v)) \<le> 8" by blast+
qed

lemma integer_unsigned_slices:
  assumes "canonical_integer N v" "0 \<le> to_bigint v"
  shows "needed_slice (integer_to_unsigned_bytes_be N v) \<noteq> [] \<and>
    snd (integer_to_unsigned_bytes_be N v) = length (needed_slice (integer_to_unsigned_bytes_be N v)) \<and>
    be_val (needed_slice (integer_to_unsigned_bytes_be N v)) = to_bigint v \<and>
    (in_type Isize (to_bigint v) \<longrightarrow> length (needed_slice (integer_to_unsigned_bytes_be N v)) \<le> 8)"
proof (cases v)
  case (Primitive w)
  then have w: "in_type Isize w" "0 \<le> w" using assms by (simp_all add: canonical_integer_def)
  show ?thesis
    using Primitive unsigned_slice_props(1-3) [OF w] unsigned_needed_length [OF w] by (simp add: BYTE_WIDTH_def)
next
  case (Variable w)
  have N: "num_documented N" using assms by (simp add: canonical_integer_def)
  show ?thesis
    using Variable assms num_documentedD(3,4) [OF N, of w] be_val_eq_sval [of "num_to_signed_bytes_be N w"]
    by (simp add: canonical_integer_def bigint_to_signed_bytes_be_def needed_slice_def Let_def)
qed

lemma canonical_eq:
  assumes "canonical_integer N v"
  shows "in_type Isize (to_bigint v) \<Longrightarrow> Primitive (to_bigint v) = v"
    "\<not> in_type Isize (to_bigint v) \<Longrightarrow> Variable (to_bigint v) = v"
  using assms by (cases v; simp add: canonical_integer_def)+

interpretation integer: integer_type "integer_kind_ops N" "canonical_integer N" 8 for N
proof
  fix v bs c
  assume v: "canonical_integer N v"
  then have N: "num_documented N" by (simp add: canonical_integer_def)
  show "needed_slice (i_to_signed_bytes_be (integer_kind_ops N) v) \<noteq> [] \<and>
      snd (i_to_signed_bytes_be (integer_kind_ops N) v) =
        length (needed_slice (i_to_signed_bytes_be (integer_kind_ops N) v)) \<and>
      be_sval (needed_slice (i_to_signed_bytes_be (integer_kind_ops N) v)) = i_to_bigint (integer_kind_ops N) v"
    using integer_slices [OF v] by (simp add: integer_kind_ops_def)
  show "needed_slice (i_to_unsigned_bytes_be (integer_kind_ops N) v) \<noteq> [] \<and>
      snd (i_to_unsigned_bytes_be (integer_kind_ops N) v) =
        length (needed_slice (i_to_unsigned_bytes_be (integer_kind_ops N) v)) \<and>
      be_val (needed_slice (i_to_unsigned_bytes_be (integer_kind_ops N) v)) = i_to_bigint (integer_kind_ops N) v"
    if "0 \<le> i_to_bigint (integer_kind_ops N) v"
    using integer_unsigned_slices [OF v] that by (simp add: integer_kind_ops_def)
  show "i_to_i128 (integer_kind_ops N) v = try_into I128 (i_to_bigint (integer_kind_ops N) v)"
    using v by (cases v) (simp_all add: integer_kind_ops_def canonical_integer_def
        in_type_def type_min_def type_max_def try_into_def)
  show "i_is_negative (integer_kind_ops N) v \<longleftrightarrow> i_to_bigint (integer_kind_ops N) v < 0"
    by (cases v) (simp_all add: integer_kind_ops_def integer_is_negative_def)
  show "i_try_from_signed_bytes (integer_kind_ops N) bs c = Ok v"
    if "bs \<noteq> []" "be_sval bs = i_to_bigint (integer_kind_ops N) v"
      "length bs \<le> max 8 (length (needed_slice (i_to_signed_bytes_be (integer_kind_ops N) v)))"
    using that integer_try_from_octets [OF N that(1), of c] canonical_eq [OF v] integer_slices(4) [OF v]
    by (cases "in_type Isize (to_bigint v)") (simp_all add: integer_kind_ops_def)
  show "i_try_from_unsigned_bytes (integer_kind_ops N) bs c = Ok v"
    if "bs \<noteq> []" "be_val bs = i_to_bigint (integer_kind_ops N) v"
      "length bs \<le> max 8 (length (needed_slice (i_to_unsigned_bytes_be (integer_kind_ops N) v)))"
    using that integer_try_from_unsigned_octets [OF N that(1), of c] canonical_eq [OF v]
      integer_unsigned_slices [OF v] be_val_nonneg [of bs]
    by (cases "in_type Isize (to_bigint v)") (simp_all add: integer_kind_ops_def)
qed

end
