(* ===== verification/Oer_Encoder.thy ===== *)
theory Oer_Encoder
  imports Integer_Type Asn_Fields Ber_Encoder
begin

text \<open>
  \<open>oer/enc.rs\<close>, \<open>oer.rs\<close> and \<open>coer.rs\<close>: the encoder of the Octet Encoding Rules, which always
  writes the canonical form.  An encoder borrows two buffers, \<open>output\<close> and \<open>worker\<close>; a
  nested encoder borrows the same two buffers, with their roles exchanged for an extension
  addition.  The record carries both, and a nested encoder is built from the buffers of its
  parent and hands them back.  The const generics \<open>RCL\<close> and \<open>ECL\<close> are the lengths of the two
  bit fields.  The outer \<open>option\<close> is \<open>None\<close> where the code panics.

  The bit containers of the \<open>bitvec\<close> crate are lists of bits, most significant first;
  \<open>as_raw_slice\<close> is the parameter \<open>raw\<close>.
\<close>

datatype oer_encoding_rules = OerRules | CoerRules

definition is_coer :: "oer_encoding_rules \<Rightarrow> bool" where "is_coer r = (r = CoerRules)"
definition is_oer :: "oer_encoding_rules \<Rightarrow> bool" where "is_oer r = (r = OerRules)"

record oer_encoder_options =
  oe_encoding_rules :: oer_encoding_rules
  oe_set_encoding :: bool

definition oer_options_coer :: oer_encoder_options where
  "oer_options_coer = \<lparr>oe_encoding_rules = CoerRules, oe_set_encoding = False\<rparr>"

definition without_set_encoding :: "oer_encoder_options \<Rightarrow> oer_encoder_options" where
  "without_set_encoding self = self\<lparr>oe_set_encoding := False\<rparr>"

definition oer_enc_codec :: "oer_encoder_options \<Rightarrow> codec" where
  "oer_enc_codec self = (case oe_encoding_rules self of OerRules \<Rightarrow> Oer | CoerRules \<Rightarrow> Coer)"

section \<open>The cursor\<close>

record constructed_cursor =
  cur_number_optional_default :: nat
  preamble_width :: nat
  preamble_cursor :: nat
  extension_missing_bits :: nat
  extension_bitfield_width :: nat
  extension_bitmap_width :: nat
  extension_bitmap_total_width :: nat
  extension_bitmap_cursor :: nat

text \<open>\<open>u32::ilog2\<close>.\<close>

definition ilog2 :: "nat \<Rightarrow> nat" where
  "ilog2 n = BITS U32 - 1 - leading_zeros U32 (int n)"

definition cursor_new :: "nat \<Rightarrow> nat \<Rightarrow> bool \<Rightarrow> constructed_cursor" where
  "cursor_new EC nod is_extensible =
    (let preamble_missing_bits = (8 - ((of_bool is_extensible + nod) AND 7)) AND 7;
         preamble_width = (nod + of_bool is_extensible + preamble_missing_bits) div 8;
         extension_missing_bits = (if EC > 0 then (8 - (EC AND 7)) AND 7 else 0);
         extension_bitfield_width = (EC + extension_missing_bits) div 8;
         extension_bitmap_width = 1 + extension_bitfield_width;
         extension_bitmap_width_length =
           (if extension_bitmap_width \<le> 127 then 1 else 1 + (ilog2 extension_bitmap_width + 7) div 8)
     in \<lparr>cur_number_optional_default = nod, preamble_width = preamble_width, preamble_cursor = 0,
         extension_missing_bits = extension_missing_bits,
         extension_bitfield_width = extension_bitfield_width,
         extension_bitmap_width = extension_bitmap_width,
         extension_bitmap_total_width = extension_bitmap_width + extension_bitmap_width_length,
         extension_bitmap_cursor = 0\<rparr>)"

definition cursor_default :: constructed_cursor where
  "cursor_default =
    \<lparr>cur_number_optional_default = 0, preamble_width = 0, preamble_cursor = 0, extension_missing_bits = 0,
     extension_bitfield_width = 0, extension_bitmap_width = 0, extension_bitmap_total_width = 0,
     extension_bitmap_cursor = 0\<rparr>"

section \<open>The encoder\<close>

record oer_encoder =
  e_options :: oer_encoder_options
  e_output :: bytes
  e_set_output :: "(tag \<times> bytes) list"
  e_is_extension_sequence :: bool
  e_root_bitfield :: "nat \<times> (bool \<times> tag) list"
  e_extension_bitfield :: "nat \<times> bool list"
  e_cursor :: constructed_cursor
  e_worker :: bytes

type_synonym oer_encode_fn = "oer_encoder \<Rightarrow> oer_encoder enc_result option"

definition from_buffer :: "nat \<Rightarrow> nat \<Rightarrow> oer_encoder_options \<Rightarrow> bytes \<Rightarrow> bytes \<Rightarrow> oer_encoder" where
  "from_buffer RCL ECL options output_buffer worker =
    \<lparr>e_options = options, e_output = output_buffer, e_set_output = [], e_is_extension_sequence = False,
     e_root_bitfield = (0, replicate RCL (False, new_private 0)),
     e_extension_bitfield = (0, replicate ECL False), e_cursor = cursor_default, e_worker = worker\<rparr>"

definition e_codec :: "oer_encoder \<Rightarrow> codec" where
  "e_codec self = oer_enc_codec (e_options self)"

text \<open>The \<open>?\<close> operator: an error ends the operation.\<close>

definition eret :: oer_encode_fn where "eret self = Some (Ok self)"

definition eerr :: "encode_error \<Rightarrow> oer_encode_fn" where "eerr e self = Some (Err e)"

definition ebind :: "oer_encode_fn \<Rightarrow> oer_encode_fn \<Rightarrow> oer_encode_fn" where
  "ebind m f self =
    (case m self of None \<Rightarrow> None | Some (Inl e) \<Rightarrow> Some (Err e) | Some (Inr self') \<Rightarrow> f self')"

definition put :: "bytes \<Rightarrow> oer_encode_fn" where
  "put bs self = Some (Ok (self\<lparr>e_output := e_output self @ bs\<rparr>))"

definition collect_set :: "oer_encoder \<Rightarrow> oer_encoder" where
  "collect_set self = self\<lparr>e_output := e_output self @ concat (map snd (e_set_output self))\<rparr>"

definition set_presence :: "tag \<Rightarrow> bool \<Rightarrow> oer_encode_fn" where
  "set_presence t b self =
    (let (i, arr) = e_root_bitfield self in
     if length arr > 0 then
       (if cur_number_optional_default (e_cursor self) < i + 1 then Some (Ok self)
        else if i < length arr then Some (Ok (self\<lparr>e_root_bitfield := (i + 1, arr[i := (b, t)])\<rparr>))
        else None)
     else Some (Ok self))"

definition set_extension_presence :: "bool \<Rightarrow> oer_encode_fn" where
  "set_extension_presence b self =
    (let (i, arr) = e_extension_bitfield self in
     if length arr > 0 then
       (if i < length arr then Some (Ok (self\<lparr>e_extension_bitfield := (i + 1, arr[i := b])\<rparr>)) else None)
     else Some (Ok self))"

definition extend :: "tag \<Rightarrow> oer_encode_fn" where
  "extend t self =
    (if oe_set_encoding (e_options self)
     then Some (Ok (self\<lparr>e_set_output := bt_insert t (e_output self) (e_set_output self), e_output := []\<rparr>))
     else Some (Ok self))"

section \<open>Tags and lengths\<close>

text \<open>\<open>bv.set(index, b); index += 1\<close>.\<close>

definition put_bit :: "bool \<Rightarrow> bool list \<times> nat \<Rightarrow> bool list \<times> nat" where
  "put_bit b s = ((fst s)[snd s := b], snd s + 1)"

definition class_bits :: "asn_class \<Rightarrow> bool \<times> bool" where
  "class_bits c = (case c of Universal \<Rightarrow> (False, False) | Application \<Rightarrow> (False, True)
    | Context \<Rightarrow> (True, False) | Private \<Rightarrow> (True, True))"

lemma unat_drop_bit_less:
  fixes n :: u32
  assumes "0 < n" "0 < k"
  shows "unat (drop_bit k n) < unat n"
proof -
  have "unat (drop_bit k n) = unat n div 2 ^ k" unfolding unat_drop_bit_eq by (rule drop_bit_eq_div)
  moreover have "(1 :: nat) < 2 ^ k" using assms(2) by (intro one_less_power) simp_all
  moreover have "0 < unat n" using assms(1) by (simp add: unat_gt_0)
  ultimately show ?thesis by (simp add: div_less_dividend)
qed

function tag_number_bits :: "u32 \<Rightarrow> nat" where
  "tag_number_bits n = (if n > 0 then tag_number_bits (drop_bit 1 n) + 1 else 0)"
  by auto
termination by (relation "measure unat") (simp_all only: in_measure unat_drop_bit_less zero_less_one wf_measure)

declare tag_number_bits.simps [simp del]

text \<open>The low bits of the number, least significant first, \<open>k\<close> of them; the first octet of
  the number starts with \<open>remainer\<close> zero bits.\<close>

fun emit_bits :: "nat \<Rightarrow> u32 \<Rightarrow> bool list \<times> nat \<Rightarrow> u32 \<times> bool list \<times> nat" where
  "emit_bits 0 n s = (n, s)"
| "emit_bits (Suc k) n s = emit_bits k (drop_bit 1 n) (put_bit (n AND 1 \<noteq> 0) s)"

fun emit_first :: "nat \<Rightarrow> nat \<Rightarrow> u32 \<Rightarrow> bool list \<times> nat \<Rightarrow> u32 \<times> bool list \<times> nat" where
  "emit_first 0 remainer n s = (n, s)"
| "emit_first (Suc k) remainer n s =
    (if remainer \<noteq> 0 then emit_first k (remainer - 1) n (put_bit False s)
     else emit_first k remainer (drop_bit 1 n) (put_bit (n AND 1 \<noteq> 0) s))"

lemma emit_bits_number: "fst (emit_bits k n s) = drop_bit k n"
  by (induction k n s rule: emit_bits.induct) simp_all

function emit_groups :: "u32 \<Rightarrow> bool list \<times> nat \<Rightarrow> bool list \<times> nat" where
  "emit_groups n s =
    (if n > 0 then emit_groups (fst (emit_bits 7 n (put_bit True s))) (snd (emit_bits 7 n (put_bit True s)))
     else s)"
  by auto
termination
  by (relation "measure (unat \<circ> fst)")
    (simp_all only: in_measure comp_def fst_conv emit_bits_number unat_drop_bit_less zero_less_numeral wf_measure)

declare emit_groups.simps [simp del]

definition oer_encode_tag :: "tag \<Rightarrow> bool list \<Rightarrow> bool list \<times> nat" where
  "oer_encode_tag t bv =
    (let s = put_bit (snd (class_bits (tag_class t))) (put_bit (fst (class_bits (tag_class t))) (bv, 0));
         tag_number = tag_value t
     in if tag_number < 63
        then fold (\<lambda>i. put_bit (tag_number AND push_bit i 1 \<noteq> 0)) [5, 4, 3, 2, 1, 0] s
        else
          let s = (fold (\<lambda>i bv. bv[snd s + i := True]) [0..<6] (fst s), snd s + 6);
              remainer = 7 - tag_number_bits tag_number mod 7;
              (tag_number, s) = emit_first 7 remainer tag_number (put_bit True s);
              (bv, index) = emit_groups tag_number s
          in (bv[index - 8 := False], index))"

definition encode_unconstrained_enum_index :: "int \<Rightarrow> oer_encode_fn" where
  "encode_unconstrained_enum_index v self =
    (let (bytes, needed) = to_signed_bytes_be Isize v in
     case try_into U8 (int needed) of
       None \<Rightarrow> eerr (EncodeError EncIntegerTypeConversionFailed (e_codec self)) self
     | Some len \<Rightarrow>
         if len > 127 then eerr (from_codec_encode_kind (CoerEncErr (TooLongValue needed))) self
         else put ([word_of_int len OR 0x80] @ take needed bytes) self)"

definition oer_encode_length :: "bytes \<Rightarrow> nat \<Rightarrow> bytes enc_result" where
  "oer_encode_length buffer len =
    (let (bytes, needed) = to_unsigned_bytes_be Usize (int len) in
     if len < 128 then Ok (buffer @ take needed bytes)
     else
       case try_into U8 (int needed) of
         None \<Rightarrow> Err (EncodeError EncIntegerTypeConversionFailed Coer)
       | Some length_of_length \<Rightarrow>
           if length_of_length > 127 then Err (from_codec_encode_kind (CoerEncErr (TooLongValue len)))
           else Ok (buffer @ [word_of_int length_of_length OR 0x80] @ take needed bytes))"

text \<open>\<open>Self::encode_length(self.output, len)?\<close>.\<close>

definition put_length :: "nat \<Rightarrow> oer_encode_fn" where
  "put_length len self = Some (map_ok (\<lambda>b. self\<lparr>e_output := b\<rparr>) (oer_encode_length (e_output self) len))"

section \<open>Integers and sizes\<close>

definition encode_unconstrained_integer :: "'i integer_ops \<Rightarrow> 'i \<Rightarrow> bool \<Rightarrow> oer_encode_fn" where
  "encode_unconstrained_integer I v is_signed =
    (let (bytes, needed) = (if is_signed then i_to_signed_bytes_be I v else i_to_unsigned_bytes_be I v)
     in ebind (put_length needed) (put (take needed bytes)))"

definition encode_constrained_integer_with_padding :: "'i integer_ops \<Rightarrow> nat \<Rightarrow> 'i \<Rightarrow> bool \<Rightarrow> oer_encode_fn" where
  "encode_constrained_integer_with_padding I octs v is_signed self =
    (if octs > 8 then eerr (from_codec_encode_kind (CoerEncErr InvalidConstrainedIntegerOctetSize)) self
     else
       let (bytes, needed) = (if is_signed then i_to_signed_bytes_be I v else i_to_unsigned_bytes_be I v);
           padded_byte = (if is_signed \<and> i_is_negative I v then 0xff else 0x00)
       in if octs > needed then put (replicate (octs - needed) padded_byte @ take needed bytes) self
          else if octs < needed
          then eerr (EncodeError (MoreBytesThanExpected needed octs) (e_codec self)) self
          else put (take needed bytes) self)"

definition encode_integer_with_constraints ::
    "'i integer_ops \<Rightarrow> tag \<Rightarrow> constraints \<Rightarrow> 'i \<Rightarrow> oer_encode_fn" where
  "encode_integer_with_constraints I t cs v =
    ebind
      (case c_value cs of
         Some c \<Rightarrow> (\<lambda>self.
           if \<not> in_bound (vc_value (constraint c)) (i_to_bigint I v) \<and> ext_list c = None
           then eerr (EncodeError (EncValueConstraintNotSatisfied (i_to_bigint I v) (vc_value (constraint c)))
                  (e_codec self)) self
           else
             let (is_signed, octs) =
               (if ext_list c \<noteq> None then (True, None) else (vc_signed (constraint c), vc_range (constraint c)))
             in (case octs of
                   Some octs \<Rightarrow> encode_constrained_integer_with_padding I octs v is_signed
                 | None \<Rightarrow> encode_unconstrained_integer I v is_signed) self)
       | None \<Rightarrow> encode_unconstrained_integer I v True)
      (extend t)"

definition MAX_PERMITTED_LENGTH :: nat where "MAX_PERMITTED_LENGTH = usize_MAX div 8"

definition check_fixed_size_constraint :: "nat \<Rightarrow> constraints \<Rightarrow> codec \<Rightarrow> bool enc_result" where
  "check_fixed_size_constraint len cs c =
    (case c_size cs of
       Some sz \<Rightarrow>
         if \<not> contains (constraint sz) (int len) \<and> ext_list sz = None
         then Err (EncodeError (EncSizeConstraintNotSatisfied len (constraint sz)) c)
         else if is_fixed (constraint sz) \<and> ext_list sz = None then Ok True
         else if len > MAX_PERMITTED_LENGTH then Err (EncodeError LengthExceedsPlatformSize c)
         else Ok False
     | None \<Rightarrow>
         if len > MAX_PERMITTED_LENGTH then Err (EncodeError LengthExceedsPlatformSize c) else Ok False)"

definition extension_bitmap_reserve :: "oer_encoder \<Rightarrow> oer_encoder" where
  "extension_bitmap_reserve self =
    self\<lparr>e_cursor := (e_cursor self)\<lparr>extension_bitmap_cursor := length (e_output self)\<rparr>,
      e_output := e_output self @ replicate (extension_bitmap_total_width (e_cursor self)) 0\<rparr>"

section \<open>Constructed types\<close>

text \<open>\<open>output[pos..pos + bs.len()].copy_from_slice(bs)\<close> panics out of range.\<close>

definition overwrite :: "nat \<Rightarrow> bytes \<Rightarrow> bytes \<Rightarrow> bytes option" where
  "overwrite pos bs buffer =
    (if pos + length bs \<le> length buffer then Some (take pos buffer @ bs @ drop (pos + length bs) buffer) else None)"

text \<open>The octets of a \<open>BitArray<[u8; n], Msb0>\<close> whose first bits are given; setting a bit or
  slicing beyond the array panics.\<close>

definition bit_array :: "(bool list \<Rightarrow> bytes) \<Rightarrow> nat \<Rightarrow> bool list \<Rightarrow> nat \<Rightarrow> bytes option" where
  "bit_array raw n bits width =
    (if length bits \<le> 8 * n \<and> width \<le> n
     then Some (take width (raw (bits @ replicate (8 * n - length bits) False)))
     else None)"

definition canonical_bitfield :: "bool \<Rightarrow> nat \<times> (bool \<times> tag) list \<Rightarrow> nat \<times> (bool \<times> tag) list" where
  "canonical_bitfield set_mode bf =
    (if set_mode then (fst bf, sort_by (\<lambda>a b. const_cmp (snd a) (snd b)) (snd bf)) else bf)"

text \<open>Sections 16.2 of the standard, the preamble.\<close>

definition write_preamble :: "(bool list \<Rightarrow> bytes) \<Rightarrow> bool \<Rightarrow> bool \<Rightarrow> oer_encoder \<Rightarrow> bytes option" where
  "write_preamble raw is_extensible extensions_present self =
    (let RC = length (snd (e_root_bitfield self));
         (needed, bf) = canonical_bitfield (oe_set_encoding (e_options self)) (e_root_bitfield self);
         bits = (if is_extensible \<and> RC > 0 then [extensions_present] else []) @ map fst (take needed bf)
     in if needed > RC then None
        else if needed > 0 \<or> is_extensible then
          (if RC = 0 \<and> is_extensible
           then Some (e_output self @ [push_bit 7 (of_bool extensions_present)])
           else
             Option.bind (bit_array raw RC bits (preamble_width (e_cursor self))) (\<lambda>preamble.
               if oe_set_encoding (e_options self) then Some (e_output self @ preamble)
               else overwrite (preamble_cursor (e_cursor self)) preamble (e_output self)))
        else Some (e_output self))"

text \<open>Section 16.4, the extension addition presence bitmap; the length is first written to the
  worker buffer, which is cleared.\<close>

definition write_extension_bitmap ::
    "(bool list \<Rightarrow> bytes) \<Rightarrow> oer_encoder \<Rightarrow> oer_encoder enc_result option" where
  "write_extension_bitmap raw self =
    (case oer_encode_length (e_worker self) (extension_bitmap_width (e_cursor self)) of
       Inl e \<Rightarrow> Some (Err e)
     | Inr worker \<Rightarrow>
         let start = extension_bitmap_cursor (e_cursor self); cursor = start + length worker in
         Option.bind (overwrite start worker (e_output self)) (\<lambda>output1.
         Option.bind (overwrite cursor [word_of_nat (extension_missing_bits (e_cursor self))] output1) (\<lambda>output2.
         Option.bind (bit_array raw (length (snd (e_extension_bitfield self))) (snd (e_extension_bitfield self))
             (extension_bitfield_width (e_cursor self))) (\<lambda>bitmap.
         Option.bind (overwrite (cursor + 1) bitmap output2) (\<lambda>output3.
           Some (Ok (self\<lparr>e_output := output3, e_worker := []\<rparr>)))))))"

text \<open>\<open>set_output\<close> is the buffer of the parent when the parent encodes a SET.  The result is
  the encoder and the parent's buffer.\<close>

definition oer_encode_constructed ::
    "(bool list \<Rightarrow> bytes) \<Rightarrow> bool \<Rightarrow> tag \<Rightarrow> (tag \<times> bytes) list option \<Rightarrow> oer_encoder \<Rightarrow>
     (oer_encoder \<times> (tag \<times> bytes) list option) enc_result option" where
  "oer_encode_constructed raw is_extensible t set_out self =
    (let extensions_present = (is_extensible \<and> list_ex id (snd (e_extension_bitfield self)));
         insert_into = (\<lambda>self. case set_out of
             Some m \<Rightarrow> (self\<lparr>e_output := []\<rparr>, Some (bt_insert t (e_output self) m))
           | None \<Rightarrow> (self, None))
     in Option.bind (write_preamble raw is_extensible extensions_present self) (\<lambda>output1.
        let self = self\<lparr>e_output := output1,
              e_root_bitfield := canonical_bitfield (oe_set_encoding (e_options self)) (e_root_bitfield self)\<rparr>
        in if \<not> is_extensible \<or> \<not> extensions_present then Some (Ok (insert_into self))
           else Option.bind (write_extension_bitmap raw self) (\<lambda>r. Some (map_ok insert_into r))))"

section \<open>The Encoder trait\<close>

definition oer_encode_octet_string :: "tag \<Rightarrow> constraints \<Rightarrow> bytes \<Rightarrow> oer_encode_fn" where
  "oer_encode_octet_string t cs v =
    ebind (\<lambda>self. case check_fixed_size_constraint (length v) cs (e_codec self) of
             Inl e \<Rightarrow> eerr e self
           | Inr fixed \<Rightarrow> if fixed then put v self else ebind (put_length (length v)) (put v) self)
      (extend t)"

definition oer_encode_any :: "tag \<Rightarrow> bytes \<Rightarrow> oer_encode_fn" where
  "oer_encode_any t v = oer_encode_octet_string t constraints_NONE v"

definition oer_encode_bool :: "tag \<Rightarrow> bool \<Rightarrow> oer_encode_fn" where
  "oer_encode_bool t v = ebind (put (if v then [0xff] else [0x00])) (extend t)"

definition oer_encode_bit_string :: "(bool list \<Rightarrow> bytes) \<Rightarrow> tag \<Rightarrow> constraints \<Rightarrow> bool list \<Rightarrow> oer_encode_fn" where
  "oer_encode_bit_string raw t cs v =
    (let with_length =
       ebind
         (if v = [] then ebind (put_length 1) (put [0x00])
          else
            let missing_bits = (8 - length v mod 8) mod 8;
                octs = word_of_nat missing_bits # raw (v @ replicate missing_bits False)
            in ebind (put_length (length octs)) (put octs))
         (extend t)
     in case c_size cs of
          Some sz \<Rightarrow>
            if is_fixed (constraint sz) \<and> ext_list sz = None then
              (if contains (constraint sz) (int (length v)) then
                 let missing_bits = (8 - (length v AND 7)) AND 7
                 in ebind (put (raw (v @ replicate missing_bits False))) (extend t)
               else (\<lambda>self. eerr (EncodeError (EncSizeConstraintNotSatisfied (length v) (constraint sz))
                       (e_codec self)) self))
            else with_length
        | None \<Rightarrow> with_length)"

definition oer_encode_enumerated :: "tag \<Rightarrow> int \<Rightarrow> oer_encode_fn" where
  "oer_encode_enumerated t number =
    ebind
      (if 0 \<le> number \<and> number \<le> type_max I8
       then encode_constrained_integer_with_padding (prim_ops Isize) 1 number False
       else encode_unconstrained_enum_index number)
      (extend t)"

definition oer_encode_object_identifier :: "tag \<Rightarrow> u32 list \<Rightarrow> oer_encode_fn" where
  "oer_encode_object_identifier t oid self =
    (case object_identifier_as_bytes oid of
       Inl e \<Rightarrow> eerr e self
     | Inr octs \<Rightarrow> ebind (put_length (length octs)) (ebind (put octs) (extend t)) self)"

definition oer_encode_integer :: "'i integer_ops \<Rightarrow> tag \<Rightarrow> constraints \<Rightarrow> 'i \<Rightarrow> oer_encode_fn" where
  "oer_encode_integer I t cs v = encode_integer_with_constraints I t cs v"

text \<open>The octets of a real number, \<open>to_be_bytes\<close> of an IEEE 754 value, are given.\<close>

definition oer_encode_real :: "tag \<Rightarrow> bytes \<Rightarrow> oer_encode_fn" where
  "oer_encode_real t ieee754 = ebind (put ieee754) (extend t)"

definition oer_encode_null :: oer_encode_fn where "oer_encode_null = eret"

definition oer_encode_explicit_prefix :: "bool \<Rightarrow> oer_encode_fn \<Rightarrow> oer_encode_fn \<Rightarrow> oer_encode_fn" where
  "oer_encode_explicit_prefix choice encode encode_with_tag = (if choice then encode else encode_with_tag)"

text \<open>\<open>RL\<close> and \<open>EL\<close> are the numbers of root components and of extension additions of \<open>C\<close>, \<open>nod\<close>
  is \<open>C::FIELDS.number_of_optional_and_default_fields()\<close>.\<close>

definition close_constructed :: "(bool list \<Rightarrow> bytes) \<Rightarrow> bool \<Rightarrow> tag \<Rightarrow> oer_encoder \<Rightarrow> bool \<Rightarrow> oer_encode_fn" where
  "close_constructed raw is_extensible t self collect encoder =
    (case oer_encode_constructed raw is_extensible t
        (if oe_set_encoding (e_options self) then Some (e_set_output self) else None) encoder of
       None \<Rightarrow> None
     | Some (Inl e) \<Rightarrow> Some (Err e)
     | Some (Inr (encoder, set_out)) \<Rightarrow>
         let encoder = (if collect then collect_set encoder else encoder)
         in Some (Ok (self\<lparr>e_output := e_output encoder, e_worker := e_worker encoder,
              e_set_output := (case set_out of Some m \<Rightarrow> m | None \<Rightarrow> e_set_output self)\<rparr>)))"

definition oer_encode_sequence ::
    "(bool list \<Rightarrow> bytes) \<Rightarrow> nat \<Rightarrow> nat \<Rightarrow> nat \<Rightarrow> bool \<Rightarrow> tag \<Rightarrow> oer_encode_fn \<Rightarrow> oer_encode_fn" where
  "oer_encode_sequence raw RL EL nod is_extensible t encoder_scope self =
    (let encoder = from_buffer RL EL (without_set_encoding (e_options self)) (e_output self) (e_worker self);
         cursor = (cursor_new EL nod is_extensible)\<lparr>preamble_cursor := length (e_output encoder)\<rparr>;
         encoder = encoder\<lparr>e_output := e_output encoder @ replicate (preamble_width cursor) 0, e_cursor := cursor\<rparr>
     in ebind encoder_scope (close_constructed raw is_extensible t self False) encoder)"

fun oer_encode_all :: "oer_encode_fn list \<Rightarrow> oer_encode_fn" where
  "oer_encode_all [] = eret"
| "oer_encode_all (v # vs) = ebind v (oer_encode_all vs)"

definition oer_encode_sequence_of :: "tag \<Rightarrow> oer_encode_fn list \<Rightarrow> oer_encode_fn" where
  "oer_encode_sequence_of t values =
    ebind (encode_unconstrained_integer (prim_ops Usize) (int (length values)) False)
      (ebind
        (\<lambda>self. case oer_encode_all values (from_buffer 0 0 (e_options self) (e_output self) (e_worker self)) of
             None \<Rightarrow> None
           | Some (Inl e) \<Rightarrow> Some (Err e)
           | Some (Inr encoder) \<Rightarrow> Some (Ok (self\<lparr>e_output := e_output encoder, e_worker := e_worker encoder\<rparr>)))
        (extend t))"

definition oer_encode_set ::
    "(bool list \<Rightarrow> bytes) \<Rightarrow> nat \<Rightarrow> nat \<Rightarrow> nat \<Rightarrow> bool \<Rightarrow> tag \<Rightarrow> oer_encode_fn \<Rightarrow> oer_encode_fn" where
  "oer_encode_set raw RL EL nod is_extensible t encoder_scope self =
    (let encoder = (from_buffer RL EL ((e_options self)\<lparr>oe_set_encoding := True\<rparr>) (e_output self) (e_worker self))
           \<lparr>e_cursor := cursor_new EL nod is_extensible\<rparr>
     in ebind encoder_scope (close_constructed raw is_extensible t self True) encoder)"

definition oer_encode_set_of :: "tag \<Rightarrow> oer_encode_fn list \<Rightarrow> oer_encode_fn" where
  "oer_encode_set_of t values = oer_encode_sequence_of t values"

definition oer_encode_some :: "tag \<Rightarrow> oer_encode_fn \<Rightarrow> oer_encode_fn" where
  "oer_encode_some t v = ebind (set_presence t True) v"

definition oer_encode_none :: "tag \<Rightarrow> oer_encode_fn" where
  "oer_encode_none t = set_presence t False"

text \<open>A \<open>Tag\<close> has eight octets, the buffer for the tag one more.\<close>

definition oer_encode_choice ::
    "(bool list \<Rightarrow> bytes) \<Rightarrow> tag_tree list \<Rightarrow> tag \<Rightarrow> oer_encode_fn \<Rightarrow> oer_encode_fn" where
  "oer_encode_choice raw VARIANTS t encode_fn self =
    (let (bits, needed) = oer_encode_tag t (replicate (8 * (8 + 1)) False) in
     ebind (put (take (needed div 8) (raw bits)))
       (\<lambda>self.
         let buffer_end = length (e_output self) in
         ebind encode_fn
           (ebind
             (\<lambda>self.
               if tag_contains t VARIANTS then Some (Ok self)
               else if buffer_end > length (e_output self) then None
               else
                 let worker = e_worker self @ drop buffer_end (e_output self) in
                 case oer_encode_length (take buffer_end (e_output self)) (length worker) of
                   Inl e \<Rightarrow> Some (Err e)
                 | Inr output1 \<Rightarrow> Some (Ok (self\<lparr>e_output := output1 @ worker, e_worker := []\<rparr>)))
             (extend t)) self) self)"

text \<open>The value of an extension addition is encoded into the worker buffer by an encoder whose
  own worker is the output buffer.\<close>

definition encode_open :: "oer_encode_fn \<Rightarrow> oer_encode_fn" where
  "encode_open v self =
    (let self = (if extension_bitmap_cursor (e_cursor self) = 0 then extension_bitmap_reserve self else self);
         cursor = length (e_output self)
     in case v (from_buffer 0 0 (e_options self) (e_worker self) (e_output self)) of
          None \<Rightarrow> None
        | Some (Inl e) \<Rightarrow> Some (Err e)
        | Some (Inr encoder) \<Rightarrow>
            (case oer_encode_length (take cursor (e_worker encoder)) (length (e_output encoder)) of
               Inl e \<Rightarrow> Some (Err e)
             | Inr output1 \<Rightarrow>
                 set_extension_presence True (self\<lparr>e_output := output1 @ e_output encoder, e_worker := []\<rparr>)))"

definition oer_encode_extension_addition :: "bool \<Rightarrow> oer_encode_fn \<Rightarrow> oer_encode_fn" where
  "oer_encode_extension_addition is_present v =
    (if is_present then encode_open v else set_extension_presence False)"

definition oer_encode_extension_addition_group :: "oer_encode_fn option \<Rightarrow> oer_encode_fn" where
  "oer_encode_extension_addition_group v =
    (case v of None \<Rightarrow> set_extension_presence False | Some v \<Rightarrow> encode_open v)"

text \<open>\<open>oer::encode\<close> and \<open>coer::encode\<close>.\<close>

definition oer_encode :: "oer_encode_fn \<Rightarrow> bytes enc_result option" where
  "oer_encode v = map_option (map_ok e_output) (v (from_buffer 0 0 oer_options_coer [] []))"

end
