(* ===== verification/Oer_Decoder.thy ===== *)
theory Oer_Decoder
  imports Oer_Encoder Ber_Decoder
begin

text \<open>
  \<open>oer/de.rs\<close>: the decoder of OER and COER.  As for BER, a decoding operation maps the decoder
  to a result and the decoder it leaves behind; the outer \<open>option\<close> is \<open>None\<close> where the code
  panics.  The arrays of the const generics are lists.
\<close>

record oer_decoder_options =
  od_encoding_rules :: oer_encoding_rules
  od_remaining_depth :: nat

definition oer_decoder_options_oer :: oer_decoder_options where
  "oer_decoder_options_oer = \<lparr>od_encoding_rules = OerRules, od_remaining_depth = 128\<rparr>"

definition oer_decoder_options_coer :: oer_decoder_options where
  "oer_decoder_options_coer = \<lparr>od_encoding_rules = CoerRules, od_remaining_depth = 128\<rparr>"

record oer_decoder =
  o_input :: bytes
  o_options :: oer_decoder_options
  o_fields :: "field option list \<times> nat"
  o_extension_fields :: "fields option"
  o_extensions_present :: "(field option list \<times> nat) option option"

type_synonym 'a oer_decode_fn = "oer_decoder \<Rightarrow> ('a dec_result \<times> oer_decoder) option"

definition oer_decoder_new :: "bytes \<Rightarrow> oer_decoder_options \<Rightarrow> oer_decoder" where
  "oer_decoder_new input options =
    \<lparr>o_input = input, o_options = options, o_fields = ([], 0), o_extension_fields = None,
     o_extensions_present = None\<rparr>"

definition o_codec :: "oer_decoder \<Rightarrow> codec" where
  "o_codec self = (case od_encoding_rules (o_options self) of OerRules \<Rightarrow> Oer | CoerRules \<Rightarrow> Coer)"

definition o_coer :: "oer_decoder \<Rightarrow> bool" where
  "o_coer self = is_coer (od_encoding_rules (o_options self))"

definition oret :: "'a \<Rightarrow> 'a oer_decode_fn" where "oret x self = Some (Ok x, self)"

definition oerr :: "decode_error \<Rightarrow> 'a oer_decode_fn" where "oerr e self = Some (Err e, self)"

definition olift :: "'a dec_result \<Rightarrow> 'a oer_decode_fn" where "olift r self = Some (r, self)"

definition obind :: "'a oer_decode_fn \<Rightarrow> ('a \<Rightarrow> 'b oer_decode_fn) \<Rightarrow> 'b oer_decode_fn" where
  "obind m f self =
    (case m self of
       None \<Rightarrow> None
     | Some (Inl e, self') \<Rightarrow> Some (Err e, self')
     | Some (Inr x, self') \<Rightarrow> f x self')"

section \<open>Octets, tags and lengths\<close>

definition parse_one_byte :: "u8 oer_decode_fn" where
  "parse_one_byte self =
    (case o_input self of
       [] \<Rightarrow> oerr (DecodeError ParserFail (o_codec self)) self
     | b # rest \<Rightarrow> oret b (self\<lparr>o_input := rest\<rparr>))"

text \<open>The loop over the octets of a long tag number, on the input that is left; \<open>checked_shl(7)\<close>
  of a \<open>u32\<close> only fails for shifts of 32 and more.\<close>

fun tag_number_loop :: "u32 \<Rightarrow> u8 \<Rightarrow> bytes \<Rightarrow> (decode_error_kind, u32) result \<times> bytes" where
  "tag_number_loop number next_byte input =
    (case checked_shl number 7 of
       None \<Rightarrow> (Inl (CodecSpecific (OerErr (InvalidTagNumberOnChoice number))), input)
     | Some shifted \<Rightarrow>
         let number = shifted OR ucast (next_byte AND 0x7f) in
         if next_byte AND 0x80 = 0 then (Inr number, input)
         else (case input of [] \<Rightarrow> (Inl ParserFail, []) | b # rest \<Rightarrow> tag_number_loop number b rest))"

definition class_of_bits :: "u8 \<Rightarrow> asn_class option" where
  "class_of_bits b =
    (if b = 0 then Some Universal else if b = 1 then Some Application
     else if b = 2 then Some Context else if b = 3 then Some Private else None)"

definition oer_parse_tag :: "tag oer_decode_fn" where
  "oer_parse_tag =
    obind parse_one_byte (\<lambda>first_byte.
      case class_of_bits (drop_bit 6 first_byte) of
        None \<Rightarrow> oerr (from_codec_kind (OerErr (InvalidTagClassOnChoice (drop_bit 6 first_byte))))
      | Some c \<Rightarrow>
          if first_byte AND 0x3f = 0x3f then
            obind parse_one_byte (\<lambda>next_byte.
              if next_byte AND 0x7f = 0
              then oerr (from_codec_kind (OerErr (InvalidTagNumberOnChoice (ucast (next_byte AND 0x80)))))
              else (\<lambda>self.
                case tag_number_loop 0 next_byte (o_input self) of
                  (Inl (CodecSpecific k), rest) \<Rightarrow> oerr (from_codec_kind k) (self\<lparr>o_input := rest\<rparr>)
                | (Inl k, rest) \<Rightarrow> oerr (DecodeError k (o_codec self)) (self\<lparr>o_input := rest\<rparr>)
                | (Inr number, rest) \<Rightarrow> oret (Tag c number) (self\<lparr>o_input := rest\<rparr>)))
          else oret (Tag c (ucast (first_byte AND 0x3f))))"

definition not_canonical :: decode_error where
  "not_canonical = from_codec_kind (CoerErr NotValidCanonicalEncoding)"

definition split_input :: "nat \<Rightarrow> decode_error \<Rightarrow> bytes oer_decode_fn" where
  "split_input n e self =
    (if n \<le> length (o_input self)
     then oret (take n (o_input self)) (self\<lparr>o_input := drop n (o_input self)\<rparr>)
     else oerr e self)"

definition decode_length :: "nat oer_decode_fn" where
  "decode_length =
    obind parse_one_byte (\<lambda>possible_length.
      if possible_length < 128 then oret (unat possible_length)
      else
        let len = possible_length AND 0x7f in
        if len = 0 then (\<lambda>self. oerr (DecodeError ZeroLengthOfLength (o_codec self)) self)
        else (\<lambda>self.
          obind (split_input (unat len) (DecodeError ParserFail (o_codec self))) (\<lambda>data self.
            if o_coer self \<and> data \<noteq> [] \<and> data ! 0 = 0 then oerr not_canonical self
            else
              case try_from_unsigned_bytes Usize data (o_codec self) of
                Inl e \<Rightarrow> oerr e self
              | Inr n \<Rightarrow>
                  if n < 128 \<and> o_coer self then oerr not_canonical self else oret (nat n) self) self))"

text \<open>\<open>NonZeroUsize::new(0).unwrap()\<close> would panic.\<close>

definition extract_data_by_length :: "nat \<Rightarrow> bytes oer_decode_fn" where
  "extract_data_by_length len self =
    (if len = 0 then oret [] self
     else if len \<le> length (o_input self)
     then oret (take len (o_input self)) (self\<lparr>o_input := drop len (o_input self)\<rparr>)
     else if len - length (o_input self) = 0 then None
     else oerr (DecodeError (Incomplete (NeededSize (len - length (o_input self)))) (o_codec self)) self)"

section \<open>Integers\<close>

definition decode_integer_from_bytes :: "'i integer_ops \<Rightarrow> bool \<Rightarrow> nat option \<Rightarrow> 'i oer_decode_fn" where
  "decode_integer_from_bytes I is_signed len =
    obind (case len of Some l \<Rightarrow> oret l | None \<Rightarrow> decode_length) (\<lambda>final_length.
    obind (extract_data_by_length final_length) (\<lambda>data self.
      if o_coer self \<and> \<not> is_signed \<and> data \<noteq> [] \<and> data ! 0 = 0 \<and> len = None then oerr not_canonical self
      else if is_signed then olift (i_try_from_signed_bytes I data (o_codec self)) self
      else olift (i_try_from_unsigned_bytes I data (o_codec self)) self))"

definition decode_integer_with_constraints :: "'i integer_ops \<Rightarrow> constraints \<Rightarrow> 'i oer_decode_fn" where
  "decode_integer_with_constraints I cs =
    (case c_value cs of
       Some v \<Rightarrow>
         let (is_signed, octs) =
           (if ext_list v \<noteq> None then (True, None) else (vc_signed (constraint v), vc_range (constraint v)))
         in obind (decode_integer_from_bytes I is_signed octs) (\<lambda>i self.
              let e = DecodeError (ValueConstraintNotSatisfied (i_to_bigint I i) (vc_value (constraint v)))
                    (o_codec self)
              in case i_to_i128 I i of
                   Some n \<Rightarrow> if contains (vc_value (constraint v)) n then oret i self else oerr e self
                 | None \<Rightarrow> oerr e self)
     | None \<Rightarrow> decode_integer_from_bytes I True None)"

section \<open>Strings\<close>

text \<open>\<open>view_bits\<close> of the \<open>bitvec\<close> crate; slicing beyond the bits panics, and so does the slice when the subtraction
  of the unused bits underflows.\<close>

definition take_bits :: "(bytes \<Rightarrow> bool list) \<Rightarrow> nat \<Rightarrow> bytes \<Rightarrow> bool list oer_decode_fn" where
  "take_bits view_bits n data self =
    (if n \<le> length (view_bits data) then oret (take n (view_bits data)) self else None)"

definition fixed_size :: "constraints \<Rightarrow> size_constraint option" where
  "fixed_size cs =
    (case c_size cs of
       Some sz \<Rightarrow> if is_fixed (constraint sz) \<and> ext_list sz = None then Some (constraint sz) else None
     | None \<Rightarrow> None)"

definition parse_bit_string :: "(bytes \<Rightarrow> bool list) \<Rightarrow> constraints \<Rightarrow> bool list oer_decode_fn" where
  "parse_bit_string view_bits cs =
    (case fixed_size cs of
       Some sz \<Rightarrow>
         (case as_start sz of
            None \<Rightarrow> (\<lambda>self. oerr (DecodeError (SizeConstraintNotSatisfied None) (o_codec self)) self)
          | Some len \<Rightarrow>
              obind (extract_data_by_length ((nat len + 7) div 8)) (\<lambda>data. take_bits view_bits (nat len) data))
     | None \<Rightarrow>
         obind decode_length (\<lambda>len.
           if len = 0 then oret []
           else
             obind parse_one_byte (\<lambda>num_unused_bits.
               if len = 1 \<and> num_unused_bits > 0 then oerr (from_codec_kind (OerErr InvalidOerBitString))
               else if num_unused_bits > 7 then oerr (from_codec_kind (OerErr InvalidOerBitString))
               else if (len - 1) * 8 > usize_MAX
               then (\<lambda>self. oerr (DecodeError LengthExceedsPlatformWidth (o_codec self)) self)
               else
                 obind (extract_data_by_length (len - 1)) (\<lambda>data self.
                   if (len - 1) * 8 < unat num_unused_bits then None
                   else take_bits view_bits ((len - 1) * 8 - unat num_unused_bits) data self))))"

text \<open>\<open>T::try_from(&[u8])\<close> of the restricted string types.\<close>

definition parse_known_multiplier_string ::
    "(bytes \<Rightarrow> (permitted_alphabet_error, 's) result) \<Rightarrow> constraints \<Rightarrow> 's oer_decode_fn" where
  "parse_known_multiplier_string from_slice cs =
    obind
      (case fixed_size cs of
         Some sz \<Rightarrow> (case as_start sz of None \<Rightarrow> (\<lambda>self. None) | Some len \<Rightarrow> extract_data_by_length (nat len))
       | None \<Rightarrow> obind decode_length extract_data_by_length)
      (\<lambda>data self. olift (map_err (\<lambda>e. DecodeError (PermittedAlphabetError e) (o_codec self)) (from_slice data)) self)"

section \<open>Presence of fields\<close>

definition require_field :: "tag \<Rightarrow> bool oer_decode_fn" where
  "require_field t self =
    (let (fs, i) = o_fields self;
         e = DecodeError (MissingTagClassOrValueInSequenceOrSet (tag_class t) (tag_value t)) (o_codec self)
     in if i < length fs then
          let self = self\<lparr>o_fields := (fs, i + 1)\<rparr> in
          (case fs ! i of
             Some f \<Rightarrow> if smallest_tag (tag_tree f) = t then oret True self else oerr e self
           | None \<Rightarrow> oret False self)
        else oerr e self)"

definition extension_is_present :: "field option oer_decode_fn" where
  "extension_is_present self =
    (case o_extensions_present self of
       Some (Some (fs, i)) \<Rightarrow>
         if i < length fs
         then oret (fs ! i) (self\<lparr>o_extensions_present := Some (Some (fs, i + 1))\<rparr>)
         else oerr (DecodeError TypeNotExtensible (o_codec self)) self
     | _ \<Rightarrow> oerr (DecodeError TypeNotExtensible (o_codec self)) self)"

text \<open>Bit \<open>i\<close> of a bit field, most significant bit first.\<close>

definition msb0_bit :: "bytes \<Rightarrow> nat \<Rightarrow> bool" where
  "msb0_bit bs i = (bs ! (i div 8) AND push_bit (7 - (i AND 7)) 1 \<noteq> 0)"

fun extension_field_list :: "bytes \<Rightarrow> nat \<Rightarrow> field list \<Rightarrow> (tag, field option list) result" where
  "extension_field_list bitfield i [] = Inr []"
| "extension_field_list bitfield i (f # fs) =
    (let is_set = (i div 8 < length bitfield \<and> msb0_bit bitfield i) in
     if is_not_optional_or_default f \<and> \<not> is_set then Inl (f_tag f)
     else map_ok (\<lambda>rest. (if is_set then Some f else None) # rest) (extension_field_list bitfield (i + 1) fs))"

definition parse_extension_header :: "bool oer_decode_fn" where
  "parse_extension_header self =
    (case o_extensions_present self of
       Some (Some _) \<Rightarrow> oret True self
     | None \<Rightarrow> oret False self
     | Some None \<Rightarrow>
         obind decode_length (\<lambda>extensions_length.
           if extensions_length < 1 then oerr (from_codec_kind (OerErr InvalidExtensionHeader))
           else (\<lambda>self.
             case o_extension_fields self of
               None \<Rightarrow> oerr (DecodeError TypeNotExtensible (o_codec self)) self
             | Some extension_fields \<Rightarrow>
                 obind (extract_data_by_length extensions_length) (\<lambda>bitfield_bytes.
                   case bitfield_bytes of
                     [] \<Rightarrow> oerr (from_codec_kind (OerErr InvalidExtensionHeader))
                   | first_byte # bitfield \<Rightarrow>
                       if first_byte > 7 \<or> unat first_byte > length bitfield * 8
                       then oerr (from_codec_kind (OerErr InvalidExtensionHeader))
                       else (\<lambda>self.
                         case extension_field_list bitfield 0 (fields_list extension_fields) of
                           Inl t \<Rightarrow> oerr (DecodeError (RequiredExtensionNotPresent t) (o_codec self)) self
                         | Inr fs \<Rightarrow>
                             oret True (self\<lparr>o_extensions_present := Some (Some (fs, 0))\<rparr>))) self)) self)"

text \<open>The preamble: one bit for the extensions, one for every optional or default field.  The
  result is an array of \<open>RC\<close> bits, padded with \<open>False\<close>.  Every bit is read by \<open>bytes[byte_idx]\<close>, which
  panics out of range.\<close>

definition indexed_bit :: "bytes \<Rightarrow> nat \<Rightarrow> bool option" where
  "indexed_bit bytes i = (if i div 8 < length bytes then Some (msb0_bit bytes i) else None)"

text \<open>The loop over the unused bits ends at the first one that is set.\<close>

fun any_bit_set :: "bytes \<Rightarrow> nat list \<Rightarrow> bool option" where
  "any_bit_set bytes [] = Some False"
| "any_bit_set bytes (i # is) =
    Option.bind (indexed_bit bytes i) (\<lambda>is_set. if is_set then Some True else any_bit_set bytes is)"

definition parse_preamble :: "fields \<Rightarrow> bool \<Rightarrow> (bool list \<times> bool) oer_decode_fn" where
  "parse_preamble FIELDS is_extensible =
    (let RC = length (fields_list FIELDS);
         width = number_optional_default FIELDS + of_bool is_extensible
     in obind (extract_data_by_length ((width + 7) div 8)) (\<lambda>bytes self.
          Option.bind (those (map (indexed_bit bytes) [0..<width])) (\<lambda>bits.
          Option.bind (any_bit_set bytes [width..<8 * length bytes]) (\<lambda>unused.
            let extensible_present = (is_extensible \<and> hd bits);
                root = take RC (drop (of_bool is_extensible) bits);
                result = root @ replicate (RC - length root) False
            in if unused then oerr (from_codec_kind (OerErr InvalidPreamble)) self
               else oret (result, extensible_present) self))))"

definition oer_check_recursion_depth :: "unit oer_decode_fn" where
  "oer_check_recursion_depth self =
    (if od_remaining_depth (o_options self) = 0
     then oerr (DecodeError ExceedsMaxParseDepth (o_codec self)) self
     else oret () self)"

section \<open>The Decoder trait\<close>

definition oer_decode_bool :: "bool oer_decode_fn" where
  "oer_decode_bool =
    obind parse_one_byte (\<lambda>byte self.
      if byte = 0 then oret False self
      else if byte = 0xff then oret True self
      else if is_oer (od_encoding_rules (o_options self)) then oret True self
      else oerr (DecodeError (InvalidBool byte) (o_codec self)) self)"

definition oer_decode_bit_string :: "(bytes \<Rightarrow> bool list) \<Rightarrow> constraints \<Rightarrow> bool list oer_decode_fn" where
  "oer_decode_bit_string view_bits cs = parse_bit_string view_bits cs"

definition oer_decode_octet_string :: "constraints \<Rightarrow> bytes oer_decode_fn" where
  "oer_decode_octet_string cs =
    (case fixed_size cs of
       Some sz \<Rightarrow>
         (case as_start sz of
            None \<Rightarrow> (\<lambda>self. oerr (DecodeError (SizeConstraintNotSatisfied None) (o_codec self)) self)
          | Some len \<Rightarrow> extract_data_by_length (nat len))
     | None \<Rightarrow> obind decode_length extract_data_by_length)"

definition oer_decode_any :: "bytes oer_decode_fn" where
  "oer_decode_any = oer_decode_octet_string constraints_NONE"

definition platform_width_error :: "codec \<Rightarrow> decode_error \<Rightarrow> decode_error" where
  "platform_width_error c e =
    (case err_kind e of IntegerOverflow _ \<Rightarrow> DecodeError LengthExceedsPlatformWidth c | _ \<Rightarrow> e)"

definition map_oerr :: "(codec \<Rightarrow> decode_error \<Rightarrow> decode_error) \<Rightarrow> 'a oer_decode_fn \<Rightarrow> 'a oer_decode_fn" where
  "map_oerr f m self =
    (case m self of None \<Rightarrow> None | Some (r, self') \<Rightarrow> Some (map_err (f (o_codec self')) r, self'))"

definition oer_decode_enumerated :: "(int \<Rightarrow> 'e option) \<Rightarrow> 'e oer_decode_fn" where
  "oer_decode_enumerated from_discriminant =
    obind parse_one_byte (\<lambda>byte.
      if byte < 128
      then (\<lambda>self. olift (ok_or (DecodeError (DiscriminantValueNotFound (uint byte)) (o_codec self))
             (from_discriminant (uint byte))) self)
      else
        obind (map_oerr platform_width_error
            (decode_integer_from_bytes (prim_ops Isize) True (Some (unat (byte AND 0x7f))))) (\<lambda>discriminant self.
          if 0 \<le> discriminant \<and> discriminant < 128 \<and> o_coer self then oerr not_canonical self
          else olift (ok_or (DecodeError (DiscriminantValueNotFound discriminant) (o_codec self))
            (from_discriminant discriminant)) self))"

definition oer_decode_integer :: "'i integer_ops \<Rightarrow> constraints \<Rightarrow> 'i oer_decode_fn" where
  "oer_decode_integer I cs = decode_integer_with_constraints I cs"

text \<open>\<open>try_from_ieee754_bytes\<close> of \<open>f32\<close> and \<open>f64\<close> fails exactly on the wrong number of octets; the
  result is the octets.\<close>

definition oer_decode_real :: "nat \<Rightarrow> bytes oer_decode_fn" where
  "oer_decode_real width =
    obind (extract_data_by_length width) (\<lambda>octs self.
      if length octs = width then oret octs self
      else oerr (DecodeError InvalidRealEncoding (o_codec self)) self)"

definition oer_decode_null :: "unit oer_decode_fn" where "oer_decode_null = oret ()"

definition oer_decode_object_identifier :: "nom \<Rightarrow> u32 list oer_decode_fn" where
  "oer_decode_object_identifier N =
    obind decode_length (\<lambda>len.
    obind (extract_data_by_length len) (\<lambda>data self.
      Option.bind (decode_object_identifier_from_bytes N decoder_options_ber data) (\<lambda>r. olift r self)))"

text \<open>The decoder of the components of a SEQUENCE or SET.\<close>

definition constructed_decoder :: "fields option \<Rightarrow> field option list \<Rightarrow> bool \<Rightarrow> oer_decoder \<Rightarrow> oer_decoder" where
  "constructed_decoder EXTENDED_FIELDS fs extensible_present self =
    \<lparr>o_input = o_input self,
     o_options = (o_options self)\<lparr>od_remaining_depth := od_remaining_depth (o_options self) - 1\<rparr>,
     o_fields = (fs, 0), o_extension_fields = EXTENDED_FIELDS,
     o_extensions_present = (if extensible_present then Some None else None)\<rparr>"

text \<open>The optional and default fields against the preamble, as an array of \<open>RC\<close> entries.\<close>

definition presence_fields :: "nat \<Rightarrow> field list \<Rightarrow> bool list \<Rightarrow> field option list" where
  "presence_fields RC fs bitmap =
    (let entries = map (\<lambda>(f, b). if b then Some f else None) (zip fs bitmap)
     in entries @ replicate (RC - length entries) None)"

definition oer_decode_sequence ::
    "fields \<Rightarrow> fields option \<Rightarrow> bool \<Rightarrow> 'a option \<Rightarrow> 'a oer_decode_fn \<Rightarrow> 'a oer_decode_fn" where
  "oer_decode_sequence FIELDS EXTENDED_FIELDS is_extensible default_initializer decode_fn =
    obind oer_check_recursion_depth (\<lambda>_ self.
      if fields_list FIELDS = [] \<or>
         length (fields_list FIELDS) = number_optional_default FIELDS \<and> o_input self = []
      then
        (case default_initializer of
           Some d \<Rightarrow> oret d self
         | None \<Rightarrow> oerr (DecodeError UnexpectedEmptyInput (o_codec self)) self)
      else
        obind (parse_preamble FIELDS is_extensible) (\<lambda>(bitmap, extensible_present) self.
          let fs = presence_fields (length (fields_list FIELDS)) (optional_and_default_fields FIELDS) bitmap in
          case decode_fn (constructed_decoder EXTENDED_FIELDS fs extensible_present self) of
            None \<Rightarrow> None
          | Some (Inl e, _) \<Rightarrow> oerr e self
          | Some (Inr v, inner) \<Rightarrow> oret v (self\<lparr>o_input := o_input inner\<rparr>)) self)"

fun oer_sequence_of_loop ::
    "nat \<Rightarrow> 'a oer_decode_fn \<Rightarrow> oer_decoder \<Rightarrow> 'a list \<Rightarrow> oer_decoder \<Rightarrow> ('a list dec_result \<times> oer_decoder) option" where
  "oer_sequence_of_loop 0 decode decoder items self = oret items self"
| "oer_sequence_of_loop (Suc n) decode decoder items self =
    (case decode decoder of
       None \<Rightarrow> None
     | Some (Inl e, _) \<Rightarrow> oerr e self
     | Some (Inr x, decoder) \<Rightarrow>
         oer_sequence_of_loop n decode decoder (items @ [x]) (self\<lparr>o_input := o_input decoder\<rparr>))"

text \<open>\<open>Self::new\<close>: the decoder of the elements has the array size of the present one.\<close>

definition oer_decoder_self_new :: "oer_decoder \<Rightarrow> bytes \<Rightarrow> oer_decoder_options \<Rightarrow> oer_decoder" where
  "oer_decoder_self_new self input options =
    (oer_decoder_new input options)\<lparr>o_fields := (replicate (length (fst (o_fields self))) None, 0)\<rparr>"

text \<open>\<open>Vec::with_capacity(length)\<close> panics when the size of the allocation exceeds \<open>isize::MAX\<close>;
  \<open>size_of\<close> is the size of an element.\<close>

definition oer_decode_sequence_of :: "nat \<Rightarrow> 'a oer_decode_fn \<Rightarrow> 'a list oer_decode_fn" where
  "oer_decode_sequence_of size_of decode =
    obind oer_check_recursion_depth (\<lambda>_.
    obind decode_length (\<lambda>length_of_quantity.
    obind (extract_data_by_length length_of_quantity) (\<lambda>length_bytes self.
      if o_coer self \<and> length_bytes \<noteq> [] \<and> length_bytes ! 0 = 0 \<and> length length_bytes > 1
      then oerr not_canonical self
      else
        case try_from_unsigned_bytes Usize length_bytes (o_codec self) of
          Inl e \<Rightarrow> oerr e self
        | Inr len \<Rightarrow>
            if len * int size_of > type_max Isize then None
            else
              oer_sequence_of_loop (nat len) decode
                (oer_decoder_self_new self (o_input self)
                  ((o_options self)\<lparr>od_remaining_depth := od_remaining_depth (o_options self) - 1\<rparr>)) [] self)))"

text \<open>\<open>SetOf::from_vec\<close> keeps the elements; the order is not observable.\<close>

definition oer_decode_set_of :: "nat \<Rightarrow> 'a oer_decode_fn \<Rightarrow> 'a multiset oer_decode_fn" where
  "oer_decode_set_of size_of decode = obind (oer_decode_sequence_of size_of decode) (\<lambda>xs. oret (mset xs))"

definition oer_decode_explicit_prefix :: "bool \<Rightarrow> 'a oer_decode_fn \<Rightarrow> 'a oer_decode_fn \<Rightarrow> 'a oer_decode_fn" where
  "oer_decode_explicit_prefix choice decode decode_with_tag = (if choice then decode else decode_with_tag)"

definition oer_decode_optional :: "tag \<Rightarrow> 'a oer_decode_fn \<Rightarrow> 'a option oer_decode_fn" where
  "oer_decode_optional t decode =
    obind (require_field t) (\<lambda>is_present. if is_present then obind decode (\<lambda>x. oret (Some x)) else oret None)"

text \<open>The root fields of a SET in canonical order, those that are present; \<open>decode_fn\<close> decodes the
  field with the given index and tag.\<close>

fun decode_set_fields ::
    "(nat \<Rightarrow> tag \<Rightarrow> 'f oer_decode_fn) \<Rightarrow> field option list \<Rightarrow> nat \<Rightarrow> field list \<Rightarrow> 'f list oer_decode_fn" where
  "decode_set_fields decode_fn field_map opt_index [] = oret []"
| "decode_set_fields decode_fn field_map opt_index (f # fs) =
    (if is_optional_or_default f then
       (if opt_index < length field_map then
          (if field_map ! opt_index \<noteq> None
           then obind (decode_fn (index f) (f_tag f)) (\<lambda>x.
             obind (decode_set_fields decode_fn field_map (opt_index + 1) fs) (\<lambda>xs. oret (x # xs)))
           else decode_set_fields decode_fn field_map (opt_index + 1) fs)
        else (\<lambda>self. None))
     else obind (decode_fn (index f) (f_tag f)) (\<lambda>x.
       obind (decode_set_fields decode_fn field_map opt_index fs) (\<lambda>xs. oret (x # xs))))"

fun decode_set_extensions ::
    "(nat \<Rightarrow> tag \<Rightarrow> 'f oer_decode_fn) \<Rightarrow> nat \<Rightarrow> field list \<Rightarrow> 'f list oer_decode_fn" where
  "decode_set_extensions decode_fn i [] = oret []"
| "decode_set_extensions decode_fn i (f # fs) =
    obind (decode_fn i (f_tag f)) (\<lambda>x.
      obind (decode_set_extensions decode_fn (i + 1) fs) (\<lambda>xs. oret (x # xs)))"

definition oer_decode_set ::
    "fields \<Rightarrow> fields option \<Rightarrow> bool \<Rightarrow> (nat \<Rightarrow> tag \<Rightarrow> 'f oer_decode_fn) \<Rightarrow> ('f list \<Rightarrow> 'a dec_result) \<Rightarrow>
     'a oer_decode_fn" where
  "oer_decode_set FIELDS EXTENDED_FIELDS is_extensible decode_fn field_fn =
    obind oer_check_recursion_depth (\<lambda>_.
    obind (parse_preamble FIELDS is_extensible) (\<lambda>(bitmap, extensible_present) self.
      let field_map = presence_fields (length (fields_list FIELDS))
            (optional_and_default_fields (canonised FIELDS)) bitmap;
          extended = (case EXTENDED_FIELDS of Some fs \<Rightarrow> fields_list fs | None \<Rightarrow> [])
      in case obind (decode_set_fields decode_fn field_map 0 (fields_list (canonised FIELDS))) (\<lambda>xs.
              obind (decode_set_extensions decode_fn (length (fields_list FIELDS)) extended) (\<lambda>ys. oret (xs @ ys)))
              (constructed_decoder EXTENDED_FIELDS field_map extensible_present self) of
           None \<Rightarrow> None
         | Some (Inl e, _) \<Rightarrow> oerr e self
         | Some (Inr values, inner) \<Rightarrow> olift (field_fn values) (self\<lparr>o_input := o_input inner\<rparr>)))"

definition with_depth :: "(nat \<Rightarrow> nat) \<Rightarrow> oer_decoder \<Rightarrow> oer_decoder" where
  "with_depth f self =
    self\<lparr>o_options := (o_options self)\<lparr>od_remaining_depth := f (od_remaining_depth (o_options self))\<rparr>\<rparr>"

definition oer_decode_choice ::
    "tag_tree list \<Rightarrow> tag_tree list option \<Rightarrow> constraints \<Rightarrow> (tag \<Rightarrow> 'a oer_decode_fn) \<Rightarrow> 'a oer_decode_fn" where
  "oer_decode_choice VARIANTS EXTENDED_VARIANTS cs choice_from_tag =
    obind oer_check_recursion_depth (\<lambda>_.
    obind oer_parse_tag (\<lambda>t.
      let is_extensible = constraints_extensible cs;
          extended = (case EXTENDED_VARIANTS of Some vs \<Rightarrow> vs | None \<Rightarrow> [])
      in if tag_contains t VARIANTS
         then (\<lambda>self. map_option (\<lambda>(r, self). (r, with_depth (\<lambda>d. min (d + 1) usize_MAX) self))
                (choice_from_tag t (with_depth (\<lambda>d. d - 1) self)))
         else if is_extensible \<and> tag_contains t extended then
           obind decode_length (\<lambda>len.
           obind (extract_data_by_length len) (\<lambda>bytes self.
             map_option (\<lambda>(r, _). (r, self))
               (choice_from_tag t (with_depth (\<lambda>d. d - 1) (oer_decoder_new bytes (o_options self))))))
         else oerr (from_codec_kind (OerErr (InvalidTagVariantOnChoice t is_extensible)))))"

text \<open>An extension addition: the value is an open type, decoded by a decoder of its own.\<close>

definition oer_decode_extension_addition :: "'a oer_decode_fn \<Rightarrow> 'a option oer_decode_fn" where
  "oer_decode_extension_addition decode =
    obind parse_extension_header (\<lambda>has_extensions.
      if \<not> has_extensions then oret None
      else
        obind extension_is_present (\<lambda>f.
          if f = None then oret None
          else
            obind (oer_decode_octet_string constraints_NONE) (\<lambda>bytes self.
              map_option (\<lambda>(r, _). (map_ok Some r, self))
                (decode (oer_decoder_new bytes (o_options self))))))"

definition oer_decode_extension_addition_group :: "'a oer_decode_fn \<Rightarrow> 'a option oer_decode_fn" where
  "oer_decode_extension_addition_group decode =
    obind parse_extension_header (\<lambda>has_extensions.
      if \<not> has_extensions then oret None
      else
        obind extension_is_present (\<lambda>f.
          if f = None then oret None
          else
            obind (oer_decode_octet_string constraints_NONE) (\<lambda>bytes self.
              map_option (\<lambda>(r, _). (map_ok Some r, self))
                (decode (oer_decoder_new bytes (o_options self))))))"

text \<open>\<open>oer::decode_with_remainder\<close> and \<open>coer::decode_with_remainder\<close>.\<close>

definition oer_decode_with_remainder ::
    "oer_decoder_options \<Rightarrow> 'a oer_decode_fn \<Rightarrow> bytes \<Rightarrow> ('a \<times> bytes) dec_result option" where
  "oer_decode_with_remainder options decode input =
    map_option (\<lambda>(r, decoder). and_then r (\<lambda>x. Ok (x, o_input decoder))) (decode (oer_decoder_new input options))"

definition oer_decode :: "oer_decoder_options \<Rightarrow> 'a oer_decode_fn \<Rightarrow> bytes \<Rightarrow> 'a dec_result option" where
  "oer_decode options decode input = map_option fst (decode (oer_decoder_new input options))"

end
