(* ===== verification/Oer_Codec.thy ===== *)
theory Oer_Codec
  imports Oer_Decoder Ber_Framing
begin

text \<open>
  The contract between the encoders and the decoders of OER and COER.  A codec appends the
  octets of the value to the output and the decoder takes exactly these octets off its
  input.  An open codec does so whatever the second buffer holds and leaves that buffer
  alone: only such a type can be the type of an extension addition.
\<close>

section \<open>Lengths\<close>

lemma usize_octets:
  assumes "n \<le> usize_MAX"
  shows "needed_slice (to_unsigned_bytes_be Usize (int n)) \<noteq> []"
    "be_val (needed_slice (to_unsigned_bytes_be Usize (int n))) = int n"
    "length (needed_slice (to_unsigned_bytes_be Usize (int n))) \<le> 8"
    "\<And>m. 0 < m \<Longrightarrow> int n < 256 ^ m \<Longrightarrow> length (needed_slice (to_unsigned_bytes_be Usize (int n))) \<le> m"
    "snd (to_unsigned_bytes_be Usize (int n)) = length (needed_slice (to_unsigned_bytes_be Usize (int n)))"
proof -
  have t: "in_type Usize (int n)" "0 \<le> int n"
    using assms by (simp_all add: in_type_def type_min_def type_max_def usize_MAX_def)
  note u = unsigned_slice_props [OF t]
  show "needed_slice (to_unsigned_bytes_be Usize (int n)) \<noteq> []"
    "be_val (needed_slice (to_unsigned_bytes_be Usize (int n))) = int n"
    "length (needed_slice (to_unsigned_bytes_be Usize (int n))) \<le> 8"
    "\<And>m. 0 < m \<Longrightarrow> int n < 256 ^ m \<Longrightarrow> length (needed_slice (to_unsigned_bytes_be Usize (int n))) \<le> m"
    using u by (simp_all add: BYTE_WIDTH_def)
  show "snd (to_unsigned_bytes_be Usize (int n)) = length (needed_slice (to_unsigned_bytes_be Usize (int n)))"
    by (rule unsigned_needed_length [OF t])
qed

definition length_octets :: "nat \<Rightarrow> bytes" where
  "length_octets n =
    (let bs = needed_slice (to_unsigned_bytes_be Usize (int n))
     in if n < 128 then bs else (word_of_nat (length bs) OR 0x80) # bs)"

lemma oer_encode_length_octets:
  assumes "n \<le> usize_MAX"
  shows "oer_encode_length buffer n = Ok (buffer @ length_octets n)"
proof -
  obtain bs k where p: "to_unsigned_bytes_be Usize (int n) = (bs, k)" by (cases "to_unsigned_bytes_be Usize (int n)")
  then have k: "k = length (take k bs)" "k \<le> 8"
    using usize_octets(3,5) [OF assms] by (simp_all add: needed_slice_def)
  then have "in_type U8 (int k)" by (simp add: in_type_unsigned)
  with p k show ?thesis
    by (simp add: oer_encode_length_def length_octets_def needed_slice_def Let_def try_into_def)
qed

lemma put_length_octets:
  "n \<le> usize_MAX \<Longrightarrow> put_length n e = Some (Ok (e\<lparr>e_output := e_output e @ length_octets n\<rparr>))"
  by (simp add: put_length_def oer_encode_length_octets)

text \<open>A number of fewer than 128 has one octet, and no encoding starts with a zero octet but that
  of zero.\<close>

lemma short_octets:
  assumes "n < 128"
  shows "needed_slice (to_unsigned_bytes_be Usize (int n)) = [word_of_nat n]"
proof -
  let ?bs = "needed_slice (to_unsigned_bytes_be Usize (int n))"
  have m: "n \<le> usize_MAX" using assms by (simp add: usize_MAX_def)
  note u = usize_octets [OF m]
  have "length ?bs \<le> 1" using u(4) [of 1] assms by simp
  then obtain b where b: "?bs = [b]" using u(1) by (cases ?bs) auto
  then have "uint b = int n" using u(2) by (simp add: be_val_Cons)
  then have "b = word_of_nat n" by (metis of_int_of_nat_eq word_of_int_uint)
  with b show ?thesis by simp
qed

lemma leading_octet_not_zero:
  assumes "n \<le> usize_MAX" "n \<noteq> 0"
  shows "needed_slice (to_unsigned_bytes_be Usize (int n)) ! 0 \<noteq> 0"
proof -
  let ?bs = "needed_slice (to_unsigned_bytes_be Usize (int n))"
  note u = usize_octets [OF assms(1)]
  obtain b bs where b: "?bs = b # bs" using u(1) by (cases ?bs) auto
  show ?thesis
  proof
    assume "?bs ! 0 = 0"
    then have v: "be_val bs = int n" using u(2) b by (simp add: be_val_Cons)
    then have "bs \<noteq> []" using assms(2) by auto
    then have "length ?bs \<le> length bs" using u(4) [of "length bs"] v be_val_less [of bs] by simp
    then show False using b by simp
  qed
qed

lemma length_of_length_octet:
  assumes "0 < k" "k \<le> 8"
  shows "\<not> (word_of_nat k OR 0x80 :: u8) < 128" "(word_of_nat k OR 0x80) AND 0x7f = (word_of_nat k :: u8)"
    "unat (word_of_nat k :: u8) = k" "(word_of_nat k :: u8) \<noteq> 0"
proof -
  have "k \<in> {1, 2, 3, 4, 5, 6, 7, 8}" using assms by auto
  then show "\<not> (word_of_nat k OR 0x80 :: u8) < 128" "(word_of_nat k OR 0x80) AND 0x7f = (word_of_nat k :: u8)"
    "unat (word_of_nat k :: u8) = k" "(word_of_nat k :: u8) \<noteq> 0" by auto
qed

lemma parse_one_byte_Cons:
  "o_input d = b # rest \<Longrightarrow> parse_one_byte d = Some (Ok b, d\<lparr>o_input := rest\<rparr>)"
  by (simp add: parse_one_byte_def oret_def)

lemma decode_length_octets:
  assumes "n \<le> usize_MAX" "o_input d = length_octets n @ rest"
  shows "decode_length d = Some (Ok n, d\<lparr>o_input := rest\<rparr>)"
proof (cases "n < 128")
  case True
  then have "o_input d = word_of_nat n # rest" using assms(2) by (simp add: length_octets_def short_octets)
  moreover have "unat (word_of_nat n :: u8) = n" using True by (simp add: unsigned_of_nat take_bit_nat_eq_self)
  moreover have "(word_of_nat n :: u8) < 128" using True calculation(2) by (simp add: word_less_nat_alt)
  ultimately show ?thesis by (simp add: decode_length_def obind_def parse_one_byte_Cons oret_def)
next
  case False
  let ?bs = "needed_slice (to_unsigned_bytes_be Usize (int n))"
  note u = usize_octets [OF assms(1)]
  have k: "0 < length ?bs" "length ?bs \<le> 8" using u(1,3) by simp_all
  have i: "o_input d = (word_of_nat (length ?bs) OR 0x80) # ?bs @ rest"
    using False assms(2) by (simp add: length_octets_def Let_def)
  have "try_from_unsigned_bytes Usize ?bs c = Ok (int n)" for c
    using u(1-3) by (simp add: try_from_unsigned_bytes_Ok BYTE_WIDTH_def)
  then show ?thesis
    using False i u(1) length_of_length_octet [OF k] leading_octet_not_zero [OF assms(1)]
    by (simp add: decode_length_def obind_def parse_one_byte_Cons oret_def split_input_def)
qed

lemma extract_data_octets:
  "o_input d = data @ rest \<Longrightarrow> extract_data_by_length (length data) d = Some (Ok data, d\<lparr>o_input := rest\<rparr>)"
  by (cases d) (simp add: extract_data_by_length_def oret_def)

section \<open>The contract\<close>

text \<open>The remaining depth is a \<open>usize\<close> that suffices for the nesting of the type.\<close>

abbreviation depth_ok :: "nat \<Rightarrow> oer_decoder_options \<Rightarrow> bool" where
  "depth_ok n options \<equiv> n \<le> od_remaining_depth options \<and> od_remaining_depth options \<le> usize_MAX"

locale oer_codec =
  fixes enc :: "'v \<Rightarrow> oer_encode_fn"
    and dec :: "'v oer_decode_fn"
    and oct :: "'v \<Rightarrow> bytes"
    and wf :: "'v \<Rightarrow> bool"
    and depth :: nat
  assumes enc_octets: "wf v \<Longrightarrow> \<not> oe_set_encoding (e_options e) \<Longrightarrow> e_worker e = [] \<Longrightarrow>
      enc v e = Some (Ok (e\<lparr>e_output := e_output e @ oct v\<rparr>))"
    and dec_octets: "wf v \<Longrightarrow> depth_ok depth (o_options d) \<Longrightarrow> o_input d = oct v @ rest \<Longrightarrow>
      dec d = Some (Ok v, d\<lparr>o_input := rest\<rparr>)"
begin

lemma message_roundtrip:
  assumes "wf v" "depth_ok depth options"
  shows "oer_encode (enc v) = Some (Ok (oct v))"
    and "oer_decode_with_remainder options dec (oct v @ rest) = Some (Ok (v, rest))"
proof -
  have "enc v (from_buffer 0 0 oer_options_coer [] []) =
      Some (Ok ((from_buffer 0 0 oer_options_coer [] [])\<lparr>e_output := oct v\<rparr>))"
    using enc_octets [OF assms(1), of "from_buffer 0 0 oer_options_coer [] []"]
    by (simp add: from_buffer_def oer_options_coer_def)
  then show "oer_encode (enc v) = Some (Ok (oct v))" by (simp add: oer_encode_def)
  have "dec (oer_decoder_new (oct v @ rest) options) =
      Some (Ok v, (oer_decoder_new (oct v @ rest) options)\<lparr>o_input := rest\<rparr>)"
    using assms by (intro dec_octets) (simp_all add: oer_decoder_new_def)
  then show "oer_decode_with_remainder options dec (oct v @ rest) = Some (Ok (v, rest))"
    by (simp add: oer_decode_with_remainder_def)
qed

text \<open>The octets of a value are no prefix of those of another: the encoding is uniquely
  decodable.\<close>

lemma oct_inj:
  assumes "wf v" "wf w" "oct v @ xs = oct w @ ys" "depth \<le> usize_MAX"
  shows "v = w \<and> xs = ys"
proof -
  have d: "depth_ok depth (oer_decoder_options_oer\<lparr>od_remaining_depth := depth\<rparr>)" using assms(4) by simp
  have "Some (Ok (v, xs)) = Some (Ok (w, ys) :: (_ \<times> _) dec_result)"
    using message_roundtrip(2) [OF assms(1) d, of xs] message_roundtrip(2) [OF assms(2) d, of ys] assms(3)
    by metis
  then show ?thesis by simp
qed

lemma encode_all_octets:
  assumes "\<forall>v \<in> set vs. wf v" "\<not> oe_set_encoding (e_options e)" "e_worker e = []"
  shows "oer_encode_all (map enc vs) e = Some (Ok (e\<lparr>e_output := e_output e @ concat (map oct vs)\<rparr>))"
  using assms by (induction vs arbitrary: e) (simp_all add: eret_def ebind_def enc_octets)

lemma sequence_of_loop_octets:
  assumes "\<forall>v \<in> set vs. wf v" "depth_ok depth (o_options decoder)"
    "o_input decoder = concat (map oct vs) @ rest" "o_input self = o_input decoder"
  shows "oer_sequence_of_loop (length vs) dec decoder items self = Some (Ok (items @ vs), self\<lparr>o_input := rest\<rparr>)"
  using assms
proof (induction vs arbitrary: decoder items self)
  case Nil
  then show ?case by (cases self) (simp add: oret_def)
next
  case (Cons v vs)
  let ?i = "concat (map oct vs) @ rest"
  have "dec decoder = Some (Ok v, decoder\<lparr>o_input := ?i\<rparr>)"
    using Cons.prems by (intro dec_octets) simp_all
  moreover have "oer_sequence_of_loop (length vs) dec (decoder\<lparr>o_input := ?i\<rparr>) (items @ [v]) (self\<lparr>o_input := ?i\<rparr>) =
      Some (Ok ((items @ [v]) @ vs), (self\<lparr>o_input := ?i\<rparr>)\<lparr>o_input := rest\<rparr>)"
    using Cons.prems by (intro Cons.IH) simp_all
  ultimately show ?case by simp
qed

end

locale oer_open_codec = oer_codec +
  assumes enc_open: "wf v \<Longrightarrow> \<not> oe_set_encoding (e_options e) \<Longrightarrow>
      enc v e = Some (Ok (e\<lparr>e_output := e_output e @ oct v\<rparr>))"

end
