(* ===== verification/Oer_Types.thy ===== *)
theory Oer_Types
  imports Oer_Codec Ber_Strings
begin

text \<open>
  The primitive types and SEQUENCE OF keep the contract of OER, each as an interpretation on
  the encoder and the decoder of \<open>oer/\<close>.
\<close>

lemma oer_open_codecI:
  assumes "\<And>v e. good v \<Longrightarrow> \<not> oe_set_encoding (e_options e) \<Longrightarrow>
      enc v e = Some (Ok (e\<lparr>e_output := e_output e @ oct v\<rparr>))"
    and "\<And>v d rest. good v \<Longrightarrow> depth_ok depth (o_options d) \<Longrightarrow> o_input d = oct v @ rest \<Longrightarrow>
      dec d = Some (Ok v, d\<lparr>o_input := rest\<rparr>)"
  shows "oer_open_codec enc dec oct good depth"
  using assms by unfold_locales blast+

lemmas oer_steps = ebind_def put_def Oer_Encoder.extend_def eret_def put_length_octets obind_def oret_def olift_def

section \<open>BOOLEAN, OCTET STRING, OBJECT IDENTIFIER\<close>

definition oer_bool_octets :: "bool \<Rightarrow> bytes" where "oer_bool_octets v = [if v then 0xff else 0]"

interpretation oer_bool: oer_open_codec "oer_encode_bool t" oer_decode_bool oer_bool_octets "\<lambda>_. True" 0 for t
  by (rule oer_open_codecI)
    (simp_all add: oer_encode_bool_def oer_bool_octets_def oer_steps oer_decode_bool_def parse_one_byte_Cons)

definition oer_string_octets :: "constraints \<Rightarrow> bytes \<Rightarrow> bytes" where
  "oer_string_octets cs v = (if fixed_size cs = None then length_octets (length v) @ v else v)"

definition oer_string_ok :: "constraints \<Rightarrow> bytes \<Rightarrow> bool" where
  "oer_string_ok cs v \<longleftrightarrow> length v \<le> MAX_PERMITTED_LENGTH \<and>
    (case c_size cs of Some sz \<Rightarrow> contains (constraint sz) (int (length v)) \<or> ext_list sz \<noteq> None | None \<Rightarrow> True)"

lemma fixed_size_Single:
  assumes "fixed_size cs = Some sz" "oer_string_ok cs v"
  shows "sz = Single (int (length v))"
  using assms by (auto simp: fixed_size_def oer_string_ok_def is_fixed_def split: option.splits if_splits bounded.splits)

lemma check_fixed_size_ok:
  assumes "oer_string_ok cs v"
  shows "check_fixed_size_constraint (length v) cs c = Ok (fixed_size cs \<noteq> None)"
  using assms by (auto simp: check_fixed_size_constraint_def oer_string_ok_def fixed_size_def split: option.splits)

lemma MAX_PERMITTED_le: "n \<le> MAX_PERMITTED_LENGTH \<Longrightarrow> n \<le> usize_MAX"
  by (simp add: MAX_PERMITTED_LENGTH_def usize_MAX_def)

interpretation oer_octet_string: oer_open_codec "oer_encode_octet_string t cs" "oer_decode_octet_string cs"
  "oer_string_octets cs" "oer_string_ok cs" 0 for t cs
proof (rule oer_open_codecI)
  fix v and e :: oer_encoder
  assume v: "oer_string_ok cs v" "\<not> oe_set_encoding (e_options e)"
  then have "length v \<le> usize_MAX" by (intro MAX_PERMITTED_le) (simp add: oer_string_ok_def)
  then show "oer_encode_octet_string t cs v e = Some (Ok (e\<lparr>e_output := e_output e @ oer_string_octets cs v\<rparr>))"
    using v by (auto simp: oer_encode_octet_string_def check_fixed_size_ok oer_string_octets_def oer_steps)
next
  fix v and d :: oer_decoder and rest
  assume v: "oer_string_ok cs v" and i: "o_input d = oer_string_octets cs v @ rest"
  then have l: "length v \<le> usize_MAX" by (intro MAX_PERMITTED_le) (simp add: oer_string_ok_def)
  show "oer_decode_octet_string cs d = Some (Ok v, d\<lparr>o_input := rest\<rparr>)"
  proof (cases "fixed_size cs")
    case None
    then show ?thesis
      using i decode_length_octets [OF l, of d "v @ rest"] extract_data_octets [of "d\<lparr>o_input := v @ rest\<rparr>" v rest]
      by (simp add: oer_decode_octet_string_def oer_string_octets_def obind_def)
  next
    case (Some sz)
    then show ?thesis
      using i v fixed_size_Single [OF Some v] extract_data_octets [of d v rest]
      by (simp add: oer_decode_octet_string_def oer_string_octets_def)
  qed
qed

definition oer_oid_ok :: "nom \<Rightarrow> u32 list \<Rightarrow> bool" where
  "oer_oid_ok N v \<longleftrightarrow> nom_documented N \<and> oid_ok v \<and> length (oid_contents v) \<le> usize_MAX"

interpretation oer_oid: oer_open_codec "oer_encode_object_identifier t" "oer_decode_object_identifier N"
  "\<lambda>v. length_octets (length (oid_contents v)) @ oid_contents v" "oer_oid_ok N" 0 for t N
proof (rule oer_open_codecI)
  fix v and d :: oer_decoder and rest
  assume v: "oer_oid_ok N v" and i: "o_input d = (length_octets (length (oid_contents v)) @ oid_contents v) @ rest"
  let ?d = "d\<lparr>o_input := oid_contents v @ rest\<rparr>"
  have "decode_length d = Some (Ok (length (oid_contents v)), ?d)"
    using v i by (intro decode_length_octets) (simp_all add: oer_oid_ok_def)
  moreover have "extract_data_by_length (length (oid_contents v)) ?d = Some (Ok (oid_contents v), ?d\<lparr>o_input := rest\<rparr>)"
    by (rule extract_data_octets) simp
  ultimately show "oer_decode_object_identifier N d = Some (Ok v, d\<lparr>o_input := rest\<rparr>)"
    using v by (simp add: oer_decode_object_identifier_def oer_steps decode_oid_contents oer_oid_ok_def)
qed (simp add: oer_encode_object_identifier_def object_identifier_as_bytes_ok oer_steps oer_oid_ok_def)

section \<open>BIT STRING\<close>

definition oer_bits_octets :: "(bool list \<Rightarrow> bytes) \<Rightarrow> constraints \<Rightarrow> bool list \<Rightarrow> bytes" where
  "oer_bits_octets raw cs v =
    (let missing_bits = (8 - length v mod 8) mod 8; data = raw (v @ replicate missing_bits False)
     in if fixed_size cs = None
        then length_octets (length data + 1) @ word_of_nat missing_bits # data else data)"

definition bits_fit :: "constraints \<Rightarrow> bool list \<Rightarrow> bool" where
  "bits_fit cs v \<longleftrightarrow> length v + 15 \<le> usize_MAX \<and>
    (case fixed_size cs of Some sz \<Rightarrow> contains sz (int (length v)) | None \<Rightarrow> True)"

definition oer_bits_ok :: "(bool list \<Rightarrow> bytes) \<Rightarrow> (bytes \<Rightarrow> bool list) \<Rightarrow> constraints \<Rightarrow> bool list \<Rightarrow> bool" where
  "oer_bits_ok raw view_bits cs v \<longleftrightarrow> bitvec_documented raw view_bits \<and> bits_fit cs v"

lemma and_7: "n AND 7 = n mod 8" for n :: nat
  using take_bit_eq_mask [of 3 n] by (simp add: take_bit_eq_mod mask_eq_exp_minus_1)

lemma bitvec_documentedD:
  assumes "bitvec_documented raw view_bits"
  shows "length (raw b) = (length b + 7) div 8" "take (length b) (view_bits (raw b)) = b"
    "length (view_bits bs) = 8 * length bs"
proof -
  show "length (raw b) = (length b + 7) div 8" "take (length b) (view_bits (raw b)) = b"
    using assms unfolding bitvec_documented_def by blast+
  have "view_bits bs = concat (map msb_bits bs)"
    using assms unfolding bitvec_documented_def by blast
  then show "length (view_bits bs) = 8 * length bs" by (induction bs arbitrary: view_bits) (simp_all add: msb_bits_def)
qed

lemma padding:
  fixes n :: nat
  defines "m \<equiv> (8 - n mod 8) mod 8"
  shows "(n + m + 7) div 8 * 8 = n + m" "m \<le> 7" "(n + m + 7) div 8 = (n + 7) div 8"
proof -
  obtain q r where n: "n = 8 * q + r" and r: "r < 8"
    by (metis mod_less_divisor mult_div_mod_eq zero_less_numeral)
  have "r \<in> {0, 1, 2, 3, 4, 5, 6, 7}" using r by auto
  then show "(n + m + 7) div 8 * 8 = n + m" "m \<le> 7" "(n + m + 7) div 8 = (n + 7) div 8"
    by (auto simp: m_def n)
qed

lemma raw_padded:
  fixes v :: "bool list"
  assumes "bitvec_documented raw view_bits"
  defines "m \<equiv> (8 - length v mod 8) mod 8"
  defines "data \<equiv> raw (v @ replicate m False)"
  shows "length data * 8 = length v + m" "take (length v) (view_bits data) = v" "length (view_bits data) = length data * 8"
    "m \<le> 7" "length data = (length v + 7) div 8"
proof -
  have l: "length data = (length v + m + 7) div 8"
    using bitvec_documentedD(1) [OF assms(1), of "v @ replicate m False"] by (simp add: data_def)
  show "length data * 8 = length v + m" "m \<le> 7" "length data = (length v + 7) div 8"
    using padding [of "length v"] l unfolding m_def by simp_all
  show "length (view_bits data) = length data * 8"
    using bitvec_documentedD(3) [OF assms(1), of data] by simp
  have "take (length v + m) (view_bits data) = v @ replicate m False"
    using bitvec_documentedD(2) [OF assms(1), of "v @ replicate m False"] by (simp add: data_def)
  then have "take (length v) (take (length v + m) (view_bits data)) = v" by simp
  then show "take (length v) (view_bits data) = v" by (simp add: min_def)
qed

interpretation oer_bit_string: oer_open_codec "oer_encode_bit_string raw t cs" "oer_decode_bit_string view_bits cs"
  "oer_bits_octets raw cs" "oer_bits_ok raw view_bits cs" 0 for raw view_bits t cs
proof (rule oer_open_codecI)
  fix v and e :: oer_encoder
  assume v: "oer_bits_ok raw view_bits cs v" "\<not> oe_set_encoding (e_options e)"
  then have "bitvec_documented raw view_bits" by (simp add: oer_bits_ok_def bits_fit_def)
  note r = raw_padded [OF this, of v]
  have "length (raw (v @ replicate ((8 - length v mod 8) mod 8) False)) + 1 \<le> usize_MAX"
    using v(1) r(1,4) unfolding oer_bits_ok_def bits_fit_def usize_MAX_def by linarith
  moreover have "v = [] \<Longrightarrow> raw [] = []" using r(5) by simp
  ultimately show "oer_encode_bit_string raw t cs v e = Some (Ok (e\<lparr>e_output := e_output e @ oer_bits_octets raw cs v\<rparr>))"
    using v by (auto simp: oer_encode_bit_string_def oer_bits_octets_def oer_steps Let_def and_7 oer_bits_ok_def bits_fit_def
        fixed_size_def usize_MAX_def split: option.splits if_splits)
next
  fix v and d :: oer_decoder and rest
  assume v: "oer_bits_ok raw view_bits cs v" and i: "o_input d = oer_bits_octets raw cs v @ rest"
  then have B: "bitvec_documented raw view_bits" by (simp add: oer_bits_ok_def bits_fit_def)
  define m where "m = (8 - length v mod 8) mod 8"
  define data where "data = raw (v @ replicate m False)"
  note r = raw_padded [OF B, of v, folded m_def, folded data_def]
  show "oer_decode_bit_string view_bits cs d = Some (Ok v, d\<lparr>o_input := rest\<rparr>)"
  proof (cases "fixed_size cs")
    case (Some sz)
    then have "sz = Single (int (length v))"
      using v by (auto simp: oer_bits_ok_def bits_fit_def fixed_size_def is_fixed_def split: option.splits if_splits bounded.splits)
    moreover have "extract_data_by_length (length data) d = Some (Ok data, d\<lparr>o_input := rest\<rparr>)"
      using i Some by (intro extract_data_octets) (simp add: oer_bits_octets_def data_def m_def Let_def)
    ultimately show ?thesis
      using Some r(1-3,5) by (simp add: oer_decode_bit_string_def parse_bit_string_def obind_def take_bits_def oret_def)
  next
    case None
    define d1 where "d1 = d\<lparr>o_input := word_of_nat m # data @ rest\<rparr>"
    have "length data + 1 \<le> usize_MAX"
      using v r(1,4) unfolding oer_bits_ok_def bits_fit_def usize_MAX_def by linarith
    then have "decode_length d = Some (Ok (length data + 1), d1)"
      unfolding d1_def using i None
      by (intro decode_length_octets) (simp_all add: oer_bits_octets_def data_def m_def Let_def)
    moreover have "parse_one_byte d1 = Some (Ok (word_of_nat m), d1\<lparr>o_input := data @ rest\<rparr>)"
      by (intro parse_one_byte_Cons) (simp add: d1_def)
    moreover have "extract_data_by_length (length data) (d1\<lparr>o_input := data @ rest\<rparr>) =
        Some (Ok data, (d1\<lparr>o_input := data @ rest\<rparr>)\<lparr>o_input := rest\<rparr>)"
      by (intro extract_data_octets) simp
    moreover have "length data = 0 \<Longrightarrow> m = 0" using r(1) by simp
    moreover have "length data * 8 \<le> usize_MAX" using v r(1,4) by (simp add: oer_bits_ok_def bits_fit_def)
    moreover have "length data * 8 - m = length v" using r(1) by simp
    moreover have "\<not> 7 < m" using r(4) by simp
    ultimately show ?thesis
      using None small_octet [OF r(4)] r(1-3)
      by (auto simp: oer_decode_bit_string_def parse_bit_string_def obind_def take_bits_def oret_def d1_def
          word_less_nat_alt not_less)
  qed
qed

section \<open>Integers\<close>

text \<open>The sign and the number of octets that follow from a value constraint.\<close>

definition integer_layout :: "constraints \<Rightarrow> bool \<times> nat option" where
  "integer_layout cs =
    (case c_value cs of
       Some c \<Rightarrow> if ext_list c \<noteq> None then (True, None) else (vc_signed (constraint c), vc_range (constraint c))
     | None \<Rightarrow> (True, None))"

definition integer_slice :: "'i integer_ops \<Rightarrow> constraints \<Rightarrow> 'i \<Rightarrow> bytes" where
  "integer_slice I cs v =
    needed_slice (if fst (integer_layout cs) then i_to_signed_bytes_be I v else i_to_unsigned_bytes_be I v)"

definition oer_integer_octets :: "'i integer_ops \<Rightarrow> constraints \<Rightarrow> 'i \<Rightarrow> bytes" where
  "oer_integer_octets I cs v =
    (let bs = integer_slice I cs v in
     case snd (integer_layout cs) of
       Some n \<Rightarrow> replicate (n - length bs) (sign_octet (i_to_bigint I v)) @ bs
     | None \<Rightarrow> length_octets (length bs) @ bs)"

definition oer_integer_ok :: "'i integer_ops \<Rightarrow> nat \<Rightarrow> constraints \<Rightarrow> 'i \<Rightarrow> bool" where
  "oer_integer_ok I width cs v \<longleftrightarrow>
    (case c_value cs of
       Some c \<Rightarrow> contains (vc_value (constraint c)) (i_to_bigint I v) \<and> in_type I128 (i_to_bigint I v)
     | None \<Rightarrow> True) \<and>
    (fst (integer_layout cs) \<or> 0 \<le> i_to_bigint I v) \<and>
    (case snd (integer_layout cs) of
       Some n \<Rightarrow> length (integer_slice I cs v) \<le> n \<and> n \<le> min 8 width
     | None \<Rightarrow> length (integer_slice I cs v) \<le> usize_MAX \<and>
         (fst (integer_layout cs) \<or> integer_slice I cs v ! 0 \<noteq> 0))"

lemma be_sval_sign_octet:
  assumes "bs \<noteq> []"
  shows "be_sval (sign_octet (be_sval bs) # bs) = be_sval bs"
proof (cases "be_sval bs < 0")
  case True
  let ?p = "256 ^ length bs :: int"
  have "(2 :: int) ^ (8 * length bs - 1) \<le> ?p"
    unfolding pow256 by (intro power_increasing) simp_all
  then have "- ?p \<le> be_sval bs" using be_sval_fits [OF assms] by (simp add: fits_signed_def)
  then have "(be_sval bs + ?p) mod ?p = be_sval bs + ?p" using True by (intro mod_pos_pos_trivial) simp_all
  then have "be_val bs = be_sval bs + ?p" using be_sval_mod [of bs] by simp
  with True show ?thesis by (simp add: sign_octet_def)
qed (simp add: sign_octet_def be_val_eq_sval)

lemma be_sval_sign_octets:
  assumes "bs \<noteq> []"
  shows "be_sval (replicate n (sign_octet (be_sval bs)) @ bs) = be_sval bs"
proof (induction n)
  case (Suc n)
  then show ?case using be_sval_sign_octet [of "replicate n (sign_octet (be_sval bs)) @ bs"] assms by simp
qed simp

lemma be_val_zero_octets: "be_val (replicate n 0 @ bs) = be_val bs"
  by (induction n) (simp_all add: be_val_Cons)

lemma in_bound_contains: "in_type I128 v \<Longrightarrow> in_bound b v \<longleftrightarrow> contains b v"
  by (cases b) (auto simp: try_into_def split: option.splits)

text \<open>Both directions of an integer, in terms of its layout.\<close>

lemma encode_integer_layout:
  assumes "oer_integer_ok I width cs v"
  shows "oer_encode_integer I t cs v =
    ebind
      (case snd (integer_layout cs) of
         Some n \<Rightarrow> encode_constrained_integer_with_padding I n v (fst (integer_layout cs))
       | None \<Rightarrow> encode_unconstrained_integer I v (fst (integer_layout cs)))
      (Oer_Encoder.extend t)"
  using assms
  by (auto simp: oer_encode_integer_def encode_integer_with_constraints_def integer_layout_def oer_integer_ok_def
      in_bound_contains split: option.splits)

context integer_type
begin

lemma decode_integer_layout:
  assumes "wf v" "oer_integer_ok I width cs v"
    "decode_integer_from_bytes I (fst (integer_layout cs)) (snd (integer_layout cs)) d = Some (Ok v, d')"
  shows "oer_decode_integer I cs d = Some (Ok v, d')"
  using assms
  by (auto simp: oer_decode_integer_def decode_integer_with_constraints_def integer_layout_def oer_integer_ok_def
      obind_def oret_def to_i128 try_into_def split: option.splits)

lemma slice_octets:
  assumes "wf v" "oer_integer_ok I width cs v"
  shows "integer_slice I cs v \<noteq> []"
    "\<And>n c. n + length (integer_slice I cs v) \<le> max width (length (integer_slice I cs v)) \<Longrightarrow>
      (if fst (integer_layout cs) then i_try_from_signed_bytes I else i_try_from_unsigned_bytes I)
        (replicate n (sign_octet (i_to_bigint I v)) @ integer_slice I cs v) c = Ok v"
    "(if fst (integer_layout cs) then i_to_signed_bytes_be I v else i_to_unsigned_bytes_be I v) = (bytes, needed) \<Longrightarrow>
      take needed bytes = integer_slice I cs v \<and> needed = length (integer_slice I cs v)"
proof -
  note s = signed_octets [OF assms(1)]
  have u: "\<not> fst (integer_layout cs) \<Longrightarrow> 0 \<le> i_to_bigint I v" using assms(2) by (auto simp: oer_integer_ok_def)
  note us = unsigned_octets [OF assms(1) u]
  show "integer_slice I cs v \<noteq> []" using s us by (simp add: integer_slice_def)
  show "(if fst (integer_layout cs) then i_to_signed_bytes_be I v else i_to_unsigned_bytes_be I v) = (bytes, needed) \<Longrightarrow>
      take needed bytes = integer_slice I cs v \<and> needed = length (integer_slice I cs v)"
    using s us by (auto simp: integer_slice_def needed_slice_def split: if_splits)
  fix n c
  assume n: "n + length (integer_slice I cs v) \<le> max width (length (integer_slice I cs v))"
  show "(if fst (integer_layout cs) then i_try_from_signed_bytes I else i_try_from_unsigned_bytes I)
        (replicate n (sign_octet (i_to_bigint I v)) @ integer_slice I cs v) c = Ok v"
  proof (cases "fst (integer_layout cs)")
    case True
    then show ?thesis
      using n s be_sval_sign_octets [of "integer_slice I cs v" n]
      by (auto simp: integer_slice_def intro!: from_signed [OF assms(1)])
  next
    case False
    then show ?thesis
      using n us u by (auto simp: integer_slice_def sign_octet_def be_val_zero_octets intro!: from_unsigned [OF assms(1)])
  qed
qed

end

sublocale integer_type \<subseteq> oer_integer: oer_open_codec "oer_encode_integer I tg cs" "oer_decode_integer I cs"
  "oer_integer_octets I cs" "\<lambda>v. wf v \<and> oer_integer_ok I width cs v" 0 for tg cs
proof (rule oer_open_codecI)
  fix v and e :: oer_encoder
  assume v: "wf v \<and> oer_integer_ok I width cs v" and e: "\<not> oe_set_encoding (e_options e)"
  then have ok: "oer_integer_ok I width cs v" by simp
  obtain bytes needed where
    b: "(if fst (integer_layout cs) then i_to_signed_bytes_be I v else i_to_unsigned_bytes_be I v) = (bytes, needed)"
    by (cases "if fst (integer_layout cs) then i_to_signed_bytes_be I v else i_to_unsigned_bytes_be I v")
  note s = slice_octets(3) [OF _ ok b]
  have p: "(if fst (integer_layout cs) \<and> i_is_negative I v then 0xff else 0x00) = sign_octet (i_to_bigint I v)"
    using v by (auto simp: is_negative sign_octet_def oer_integer_ok_def)
  show "oer_encode_integer I tg cs v e = Some (Ok (e\<lparr>e_output := e_output e @ oer_integer_octets I cs v\<rparr>))"
  proof (cases "snd (integer_layout cs)")
    case None
    then have "length (integer_slice I cs v) \<le> usize_MAX" using ok by (simp add: oer_integer_ok_def)
    then show ?thesis
      unfolding encode_integer_layout [OF ok] None option.case encode_unconstrained_integer_def b
      using v e s None by (auto simp: oer_steps oer_integer_octets_def Let_def)
  next
    case (Some n)
    then have "length (integer_slice I cs v) \<le> n" "n \<le> 8" using ok by (simp_all add: oer_integer_ok_def)
    then show ?thesis
      unfolding encode_integer_layout [OF ok] Some option.case ebind_def encode_constrained_integer_with_padding_def b p
      using v e s Some by (auto simp: oer_steps oer_integer_octets_def Let_def)
  qed
next
  fix v and d :: oer_decoder and rest
  assume v: "wf v \<and> oer_integer_ok I width cs v" and i: "o_input d = oer_integer_octets I cs v @ rest"
  then have ok: "wf v" "oer_integer_ok I width cs v" by simp_all
  let ?bs = "integer_slice I cs v"
  have "decode_integer_from_bytes I (fst (integer_layout cs)) (snd (integer_layout cs)) d =
      Some (Ok v, d\<lparr>o_input := rest\<rparr>)"
  proof (cases "snd (integer_layout cs)")
    case None
    then have l: "length ?bs \<le> usize_MAX" "\<not> fst (integer_layout cs) \<Longrightarrow> ?bs ! 0 \<noteq> 0"
      using ok(2) by (simp_all add: oer_integer_ok_def)
    have "decode_length d = Some (Ok (length ?bs), d\<lparr>o_input := ?bs @ rest\<rparr>)"
      using None i by (intro decode_length_octets l) (simp add: oer_integer_octets_def Let_def)
    moreover have "extract_data_by_length (length ?bs) (d\<lparr>o_input := ?bs @ rest\<rparr>) =
        Some (Ok ?bs, d\<lparr>o_input := rest\<rparr>)"
      by (subst extract_data_octets) simp_all
    ultimately show ?thesis
      using None l(2) slice_octets(2) [OF ok, of 0]
      by (auto simp: decode_integer_from_bytes_def obind_def olift_def split: if_splits)
  next
    case (Some n)
    then have l: "length ?bs \<le> n" "n \<le> width"
      using ok(2) by (simp_all add: oer_integer_ok_def)
    let ?data = "replicate (n - length ?bs) (sign_octet (i_to_bigint I v)) @ ?bs"
    have "extract_data_by_length (length ?data) d = Some (Ok ?data, d\<lparr>o_input := rest\<rparr>)"
      using Some i by (intro extract_data_octets) (simp add: oer_integer_octets_def Let_def)
    then show ?thesis
      using Some l slice_octets(2) [OF ok, of "n - length ?bs"]
      by (auto simp: decode_integer_from_bytes_def obind_def olift_def oret_def split: if_splits)
  qed
  then show "oer_decode_integer I cs d = Some (Ok v, d\<lparr>o_input := rest\<rparr>)"
    by (rule decode_integer_layout [OF ok])
qed

section \<open>ENUMERATED\<close>

text \<open>A discriminant is an \<open>isize\<close>; one octet from 0 to 127, otherwise the length with the top
  bit set and the shortest two's complement octets.\<close>

definition oer_enum_octets :: "int \<Rightarrow> bytes" where
  "oer_enum_octets n =
    (if 0 \<le> n \<and> n \<le> 127 then [word_of_int n]
     else let bs = needed_slice (to_signed_bytes_be Isize n) in (word_of_nat (length bs) OR 0x80) # bs)"

definition oer_enum_ok :: "(int \<Rightarrow> 'e option) \<Rightarrow> ('e \<Rightarrow> int) \<Rightarrow> 'e \<Rightarrow> bool" where
  "oer_enum_ok from_discriminant discriminant v \<longleftrightarrow>
    in_type Isize (discriminant v) \<and> from_discriminant (discriminant v) = Some v"

lemma small_unsigned_octet:
  assumes "0 \<le> n" "n \<le> 127"
  shows "needed_slice (to_unsigned_bytes_be Isize n) = [word_of_int n]" "snd (to_unsigned_bytes_be Isize n) = 1"
proof -
  have t: "in_type Isize n" "0 \<le> n" using assms by (simp_all add: in_type_def type_min_def type_max_def)
  let ?bs = "needed_slice (to_unsigned_bytes_be Isize n)"
  have "length ?bs \<le> 1" using unsigned_slice_props(4) [OF t, of 1] assms by simp
  moreover have "0 < length ?bs" using unsigned_slice_props(2) [OF t] by simp
  ultimately obtain b where b: "?bs = [b]" by (auto simp: length_Suc_conv le_Suc_eq)
  then have "uint b = n" using unsigned_slice_props(1) [OF t] by (simp add: be_val_Cons)
  then show "?bs = [word_of_int n]" using b by auto
  show "snd (to_unsigned_bytes_be Isize n) = 1" using unsigned_needed_length [OF t] b by simp
qed

lemma isize_octets:
  assumes "in_type Isize n"
  defines "bs \<equiv> needed_slice (to_signed_bytes_be Isize n)"
  shows "bs \<noteq> []" "length bs \<le> 8" "snd (to_signed_bytes_be Isize n) = length bs"
    "try_from_signed_bytes Isize bs c = Ok n"
proof -
  note s = signed_slice_props [OF assms(1), folded bs_def]
  show "bs \<noteq> []" "length bs \<le> 8" using s by (simp_all add: BYTE_WIDTH_def)
  then show "try_from_signed_bytes Isize bs c = Ok n"
    using s assms(1) by (simp add: try_from_signed_bytes_Ok BYTE_WIDTH_def)
  show "snd (to_signed_bytes_be Isize n) = length bs" unfolding bs_def by (rule signed_needed_length [OF assms(1)]) simp
qed

interpretation oer_enumerated: oer_open_codec "\<lambda>v. oer_encode_enumerated tg (discriminant v)"
  "oer_decode_enumerated from_discriminant" "\<lambda>v. oer_enum_octets (discriminant v)"
  "oer_enum_ok from_discriminant discriminant" 0 for tg discriminant from_discriminant
proof (rule oer_open_codecI)
  fix v and e :: oer_encoder
  assume v: "oer_enum_ok from_discriminant discriminant v" and e: "\<not> oe_set_encoding (e_options e)"
  define n where "n = discriminant v"
  note s = isize_octets [of n]
  obtain bs k where b: "to_signed_bytes_be Isize n = (bs, k)" by (cases "to_signed_bytes_be Isize n")
  obtain bu ku where u: "to_unsigned_bytes_be Isize n = (bu, ku)" by (cases "to_unsigned_bytes_be Isize n")
  have k: "k = length (take k bs)" "k \<le> 8" using v s b by (simp_all add: oer_enum_ok_def n_def needed_slice_def)
  then have "in_type U8 (int k)" by (simp add: in_type_unsigned)
  with k have "encode_unconstrained_enum_index n e =
      Some (Ok (e\<lparr>e_output := e_output e @ (word_of_nat k OR 0x80) # take k bs\<rparr>))"
    by (simp add: encode_unconstrained_enum_index_def b try_into_def put_def)
  moreover have "encode_constrained_integer_with_padding (prim_ops Isize) 1 n False e =
      Some (Ok (e\<lparr>e_output := e_output e @ [word_of_int n]\<rparr>))" if "0 \<le> n" "n \<le> 127"
    using small_unsigned_octet [OF that] u
    by (simp add: encode_constrained_integer_with_padding_def prim_ops_def needed_slice_def put_def)
  ultimately show "oer_encode_enumerated tg (discriminant v) e =
      Some (Ok (e\<lparr>e_output := e_output e @ oer_enum_octets (discriminant v)\<rparr>))"
    using e k unfolding n_def [symmetric]
    by (auto simp: oer_encode_enumerated_def oer_enum_octets_def oer_steps b needed_slice_def type_max_def Let_def)
next
  fix v and d :: oer_decoder and rest
  assume v: "oer_enum_ok from_discriminant discriminant v"
    and i: "o_input d = oer_enum_octets (discriminant v) @ rest"
  define n where "n = discriminant v"
  have t: "in_type Isize n" and f: "from_discriminant n = Some v" using v by (simp_all add: oer_enum_ok_def n_def)
  show "oer_decode_enumerated from_discriminant d = Some (Ok v, d\<lparr>o_input := rest\<rparr>)"
  proof (cases "0 \<le> n \<and> n \<le> 127")
    case True
    then have u: "uint (word_of_int n :: u8) = n" by (simp add: uint_word_of_int)
    then have "(word_of_int n :: u8) < 128" using True by (simp add: word_less_def)
    moreover have "parse_one_byte d = Some (Ok (word_of_int n), d\<lparr>o_input := rest\<rparr>)"
      using i True by (intro parse_one_byte_Cons) (simp add: oer_enum_octets_def n_def)
    ultimately show ?thesis using u f by (simp add: oer_decode_enumerated_def obind_def olift_def)
  next
    case False
    define bs where "bs = needed_slice (to_signed_bytes_be Isize n)"
    note s = isize_octets [OF t, folded bs_def]
    have l: "0 < length bs" using s(1) by simp
    have "parse_one_byte d = Some (Ok (word_of_nat (length bs) OR 0x80), d\<lparr>o_input := bs @ rest\<rparr>)"
      using i False by (intro parse_one_byte_Cons) (auto simp: oer_enum_octets_def n_def bs_def Let_def)
    moreover have "extract_data_by_length (length bs) (d\<lparr>o_input := bs @ rest\<rparr>) = Some (Ok bs, d\<lparr>o_input := rest\<rparr>)"
      by (subst extract_data_octets) simp_all
    ultimately show ?thesis
      using length_of_length_octet [OF l s(2)] s(4) False f
      by (auto simp: oer_decode_enumerated_def obind_def olift_def oret_def map_oerr_def
          decode_integer_from_bytes_def prim_ops_def)
  qed
qed

section \<open>SEQUENCE OF\<close>

text \<open>The quantity is an unconstrained integer that is not negative, the elements follow.\<close>

definition quantity_octets :: "nat \<Rightarrow> bytes" where
  "quantity_octets n =
    (let bs = needed_slice (to_unsigned_bytes_be Usize (int n)) in length_octets (length bs) @ bs)"

definition oer_list_octets :: "('v \<Rightarrow> bytes) \<Rightarrow> 'v list \<Rightarrow> bytes" where
  "oer_list_octets oct vs = quantity_octets (length vs) @ concat (map oct vs)"

definition oer_list_ok :: "('v \<Rightarrow> bool) \<Rightarrow> nat \<Rightarrow> 'v list \<Rightarrow> bool" where
  "oer_list_ok P size_of vs \<longleftrightarrow> list_all P vs \<and> length vs \<le> usize_MAX \<and>
    int (length vs) * int size_of \<le> type_max Isize"

lemma encode_quantity:
  assumes "n \<le> usize_MAX"
  shows "encode_unconstrained_integer (prim_ops Usize) (int n) False e =
    Some (Ok (e\<lparr>e_output := e_output e @ quantity_octets n\<rparr>))"
proof -
  note u = usize_octets(3,5) [OF assms]
  have "length (needed_slice (to_unsigned_bytes_be Usize (int n))) \<le> usize_MAX" using u(1) by (simp add: usize_MAX_def)
  then show ?thesis
    using u(2) by (cases "to_unsigned_bytes_be Usize (int n)")
      (simp add: encode_unconstrained_integer_def prim_ops_def oer_steps quantity_octets_def Let_def needed_slice_def)
qed

lemma decode_quantity:
  assumes "n \<le> usize_MAX" "o_input d = quantity_octets n @ rest"
  defines "bs \<equiv> needed_slice (to_unsigned_bytes_be Usize (int n))"
  shows "decode_length d = Some (Ok (length bs), d\<lparr>o_input := bs @ rest\<rparr>)"
    "extract_data_by_length (length bs) (d\<lparr>o_input := bs @ rest\<rparr>) = Some (Ok bs, d\<lparr>o_input := rest\<rparr>)"
    "try_from_unsigned_bytes Usize bs c = Ok (int n)"
    "\<not> (bs ! 0 = 0 \<and> length bs > 1)"
proof -
  note u = usize_octets [OF assms(1), folded bs_def]
  have "length bs \<le> usize_MAX" using u(3) by (simp add: usize_MAX_def)
  then show "decode_length d = Some (Ok (length bs), d\<lparr>o_input := bs @ rest\<rparr>)"
    using assms(2) by (intro decode_length_octets) (simp_all add: quantity_octets_def bs_def Let_def)
  show "extract_data_by_length (length bs) (d\<lparr>o_input := bs @ rest\<rparr>) = Some (Ok bs, d\<lparr>o_input := rest\<rparr>)"
    by (subst extract_data_octets) simp_all
  show "try_from_unsigned_bytes Usize bs c = Ok (int n)"
    using u(1-3) by (simp add: try_from_unsigned_bytes_Ok BYTE_WIDTH_def)
  show "\<not> (bs ! 0 = 0 \<and> length bs > 1)"
    using leading_octet_not_zero [OF assms(1), folded bs_def] short_octets [of 0, folded bs_def]
    by (cases "n = 0") (auto simp: bs_def)
qed

locale oer_element = oer_codec enc dec oct wf depth
  for enc :: "'v \<Rightarrow> oer_encode_fn" and dec :: "'v oer_decode_fn" and oct wf depth +
  fixes tg :: tag and size_of :: nat

sublocale oer_element \<subseteq> seq_of: oer_codec "\<lambda>vs. oer_encode_sequence_of tg (map enc vs)"
  "oer_decode_sequence_of size_of dec" "oer_list_octets oct" "oer_list_ok wf size_of" "Suc depth"
proof
  fix vs and e :: oer_encoder
  assume vs: "oer_list_ok wf size_of vs" and e: "\<not> oe_set_encoding (e_options e)" "e_worker e = []"
  let ?e = "e\<lparr>e_output := e_output e @ quantity_octets (length vs)\<rparr>"
  have "oer_encode_all (map enc vs) (from_buffer 0 0 (e_options ?e) (e_output ?e) (e_worker ?e)) =
      Some (Ok ((from_buffer 0 0 (e_options ?e) (e_output ?e) (e_worker ?e))
        \<lparr>e_output := e_output ?e @ concat (map oct vs)\<rparr>))"
    using vs e by (subst encode_all_octets) (simp_all add: oer_list_ok_def list_all_iff from_buffer_def)
  then show "oer_encode_sequence_of tg (map enc vs) e = Some (Ok (e\<lparr>e_output := e_output e @ oer_list_octets oct vs\<rparr>))"
    using vs e encode_quantity [of "length vs" e]
    by (simp add: oer_encode_sequence_of_def oer_list_ok_def oer_list_octets_def oer_steps from_buffer_def)
next
  fix vs and d :: oer_decoder and rest
  assume vs: "oer_list_ok wf size_of vs" and depth: "depth_ok (Suc depth) (o_options d)"
    and i: "o_input d = oer_list_octets oct vs @ rest"
  let ?i = "concat (map oct vs) @ rest"
  let ?d = "d\<lparr>o_input := ?i\<rparr>"
  have n: "length vs \<le> usize_MAX" "\<not> type_max Isize < int (length vs) * int size_of"
    using vs by (simp_all add: oer_list_ok_def)
  have "o_input d = quantity_octets (length vs) @ ?i" using i by (simp add: oer_list_octets_def)
  note q = decode_quantity [OF n(1) this]
  have "oer_sequence_of_loop (length vs) dec
      (oer_decoder_self_new ?d ?i ((o_options d)\<lparr>od_remaining_depth := od_remaining_depth (o_options d) - 1\<rparr>)) [] ?d =
      Some (Ok ([] @ vs), ?d\<lparr>o_input := rest\<rparr>)"
    using vs depth
    by (intro sequence_of_loop_octets) (auto simp: oer_list_ok_def list_all_iff oer_decoder_self_new_def oer_decoder_new_def)
  then show "oer_decode_sequence_of size_of dec d = Some (Ok vs, d\<lparr>o_input := rest\<rparr>)"
    using depth n(2) q
    by (auto simp: oer_decode_sequence_of_def oer_check_recursion_depth_def obind_def oret_def)
qed

context oer_element
begin

lemma seq_of_codec: "oer_codec (\<lambda>vs. oer_encode_sequence_of tg (map enc vs))
    (oer_decode_sequence_of size_of dec) (oer_list_octets oct) (oer_list_ok wf size_of) (Suc depth)"
  by unfold_locales

end

end
