(* ===== verification/Oer_Sequence.thy ===== *)
theory Oer_Sequence
  imports Oer_Types
begin

text \<open>
  A SEQUENCE without extension marker keeps the contract of OER again, for any list of
  required and optional components whose own codecs keep it: the bits of the preamble,
  which the encoder reserves first and fills in last, are the bits the decoder reads.
\<close>

section \<open>Bits of a bit field\<close>

lemma nth_msb_bits: "j < 8 \<Longrightarrow> msb_bits b ! j \<longleftrightarrow> b AND push_bit (7 - j) 1 \<noteq> 0"
proof -
  assume "j < 8"
  then have "j \<in> {0, 1, 2, 3, 4, 5, 6, 7}" by auto
  then show ?thesis by (auto simp: msb_bits_def bit_iff_and_push_bit_not_eq_0 simp del: push_bit_numeral_minus_1)
qed

lemma msb0_bit_nth: "i < 8 * length bs \<Longrightarrow> msb0_bit bs i \<longleftrightarrow> concat (map msb_bits bs) ! i"
proof (induction bs arbitrary: i)
  case (Cons b bs)
  show ?case
  proof (cases "i < 8")
    case True
    then show ?thesis by (simp add: msb0_bit_def and_7 nth_append nth_msb_bits)
  next
    case False
    then have "i div 8 = Suc ((i - 8) div 8)" "i mod 8 = (i - 8) mod 8"
      by (simp_all add: le_div_geq le_mod_geq not_less)
    then show ?thesis using Cons.IH [of "i - 8"] Cons.prems False by (simp add: msb0_bit_def and_7 nth_append)
  qed
qed simp

lemma take_concat_msb_bits: "take (8 * w) (concat (map msb_bits bs)) = concat (map msb_bits (take w bs))"
proof (induction w arbitrary: bs)
  case (Suc w)
  then show ?case by (cases bs) (simp_all add: take_append)
qed simp

lemma octet_width:
  fixes n m :: nat
  shows "n \<le> m \<Longrightarrow> (n + 7) div 8 \<le> m" "n \<le> 8 * ((n + 7) div 8)"
proof -
  have w: "8 * ((n + 7) div 8) + (n + 7) mod 8 = n + 7" "(n + 7) mod 8 < 8" by simp_all
  then show "n \<le> 8 * ((n + 7) div 8)" by linarith
  show "n \<le> m \<Longrightarrow> (n + 7) div 8 \<le> m" using w by linarith
qed

text \<open>Reading bits by index does not panic within the octets.\<close>

lemma indexed_bits:
  "n \<le> 8 * length bs \<Longrightarrow> those (map (indexed_bit bs) [0..<n]) = Some (map (msb0_bit bs) [0..<n])"
proof -
  have those_Some: "those (map (\<lambda>x. Some (f x)) xs) = Some (map f xs)" for f :: "nat \<Rightarrow> bool" and xs
    by (induction xs) simp_all
  assume "n \<le> 8 * length bs"
  then have "map (indexed_bit bs) [0..<n] = map (\<lambda>i. Some (msb0_bit bs i)) [0..<n]" by (auto simp: indexed_bit_def)
  then show ?thesis by (simp only: those_Some)
qed

lemma any_bit_set_list_ex: "any_bit_set bs [n..<8 * length bs] = Some (list_ex (msb0_bit bs) [n..<8 * length bs])"
proof -
  have "\<forall>i \<in> set is. i < 8 * length bs \<Longrightarrow> any_bit_set bs is = Some (list_ex (msb0_bit bs) is)" for "is"
    by (induction "is") (auto simp: indexed_bit_def)
  then show ?thesis by simp
qed

text \<open>The octets of a bit field of \<open>n\<close> octets: the given bits, then zeros.\<close>

definition preamble_octets :: "(bool list \<Rightarrow> bytes) \<Rightarrow> nat \<Rightarrow> bool list \<Rightarrow> bytes" where
  "preamble_octets raw n bits =
    take ((length bits + 7) div 8) (raw (bits @ replicate (8 * n - length bits) False))"

lemma preamble_octets_bits:
  assumes "bitvec_documented raw view_bits" "length bits \<le> n"
  shows "length (preamble_octets raw n bits) = (length bits + 7) div 8"
    "map (msb0_bit (preamble_octets raw n bits)) [0..<length bits] = bits"
    "\<not> list_ex (msb0_bit (preamble_octets raw n bits)) [length bits..<8 * length (preamble_octets raw n bits)]"
proof -
  let ?w = "(length bits + 7) div 8" and ?b = "bits @ replicate (8 * n - length bits) False"
  let ?p = "preamble_octets raw n bits"
  have l: "length ?b = 8 * n" using assms(2) by simp
  then have r: "length (raw ?b) = n" using bitvec_documentedD(1) [OF assms(1), of ?b] by simp
  have w: "?w \<le> n" "length bits \<le> 8 * ?w" using assms(2) by (simp_all only: octet_width)
  then show lp: "length ?p = ?w" using r by (simp add: preamble_octets_def)
  have v: "view_bits bs = concat (map msb_bits bs)" for bs
    using assms(1) unfolding bitvec_documented_def by blast
  have "concat (map msb_bits (raw ?b)) = ?b"
    using bitvec_documentedD(2) [OF assms(1), of ?b] l r by (simp add: v)
  then have "concat (map msb_bits ?p) = take (8 * ?w) ?b"
    unfolding preamble_octets_def take_concat_msb_bits [symmetric] by simp
  then have m: "msb0_bit ?p i = ?b ! i" if "i < 8 * ?w" for i
    using that lp msb0_bit_nth [of i ?p] by (simp only: nth_take)
  show "map (msb0_bit ?p) [0..<length bits] = bits"
    using w(2) by (intro nth_equalityI) (simp_all add: m nth_append)
  show "\<not> list_ex (msb0_bit ?p) [length bits..<8 * length ?p]"
    using w lp by (auto simp: list_ex_iff m nth_append)
qed

section \<open>Components\<close>

record 'v component =
  k_field :: field
  k_enc :: "'v \<Rightarrow> oer_encode_fn"
  k_dec :: "'v oer_decode_fn"
  k_oct :: "'v \<Rightarrow> bytes"
  k_wf :: "'v \<Rightarrow> bool"

abbreviation k_optional :: "'v component \<Rightarrow> bool" where
  "k_optional k \<equiv> is_optional_or_default (k_field k)"

text \<open>What the derived implementations do for a component: an optional one goes through
  \<open>encode_some\<close>, \<open>encode_none\<close> and \<open>decode_optional\<close>.\<close>

definition component_enc :: "'v component \<Rightarrow> 'v option \<Rightarrow> oer_encode_fn" where
  "component_enc k v =
    (if k_optional k then
       (case v of Some x \<Rightarrow> oer_encode_some (f_tag (k_field k)) (k_enc k x)
        | None \<Rightarrow> oer_encode_none (f_tag (k_field k)))
     else (case v of Some x \<Rightarrow> k_enc k x | None \<Rightarrow> eret))"

definition component_dec :: "'v component \<Rightarrow> 'v option oer_decode_fn" where
  "component_dec k =
    (if k_optional k then oer_decode_optional (f_tag (k_field k)) (k_dec k)
     else obind (k_dec k) (\<lambda>x. oret (Some x)))"

fun components_enc :: "'v component list \<Rightarrow> 'v option list \<Rightarrow> oer_encode_fn" where
  "components_enc (k # ks) (v # vs) = ebind (component_enc k v) (components_enc ks vs)"
| "components_enc _ _ = eret"

fun components_dec :: "'v component list \<Rightarrow> 'v option list oer_decode_fn" where
  "components_dec [] = oret []"
| "components_dec (k # ks) =
    obind (component_dec k) (\<lambda>v. obind (components_dec ks) (\<lambda>vs. oret (v # vs)))"

definition component_ok :: "'v component \<Rightarrow> 'v option \<Rightarrow> bool" where
  "component_ok k v \<longleftrightarrow> (case v of Some x \<Rightarrow> k_wf k x | None \<Rightarrow> k_optional k)"

fun components_oct :: "'v component list \<Rightarrow> 'v option list \<Rightarrow> bytes" where
  "components_oct (k # ks) (v # vs) = (case v of Some x \<Rightarrow> k_oct k x | None \<Rightarrow> []) @ components_oct ks vs"
| "components_oct _ _ = []"

fun presence_bits :: "'v component list \<Rightarrow> 'v option list \<Rightarrow> bool list" where
  "presence_bits (k # ks) (v # vs) = (if k_optional k then [v \<noteq> None] else []) @ presence_bits ks vs"
| "presence_bits _ _ = []"

abbreviation optional_fields :: "'v component list \<Rightarrow> field list" where
  "optional_fields ks \<equiv> filter is_optional_or_default (map k_field ks)"

lemma length_presence_bits:
  "length vs = length ks \<Longrightarrow> length (presence_bits ks vs) = length (optional_fields ks)"
  by (induction ks vs rule: presence_bits.induct) simp_all

definition sequence_octets :: "(bool list \<Rightarrow> bytes) \<Rightarrow> 'v component list \<Rightarrow> 'v option list \<Rightarrow> bytes" where
  "sequence_octets raw ks vs = preamble_octets raw (length ks) (presence_bits ks vs) @ components_oct ks vs"

section \<open>The contract\<close>

locale oer_components =
  fixes raw :: "bool list \<Rightarrow> bytes" and view_bits :: "bytes \<Rightarrow> bool list"
    and ks :: "'v component list" and depth :: nat
    and tg :: tag and EXTENDED :: "fields option" and dflt :: "'v option list option"
  assumes documented: "bitvec_documented raw view_bits"
    and not_empty: "ks \<noteq> []"
    and codecs: "k \<in> set ks \<Longrightarrow> oer_codec (k_enc k) (k_dec k) (k_oct k) (k_wf k) depth"
    and field_tags: "k \<in> set ks \<Longrightarrow> smallest_tag (tag_tree (k_field k)) = f_tag (k_field k)"
begin

text \<open>One component, then all of them: the bit field holds one more bit for an optional one.\<close>

lemma component_enc_octets:
  assumes "component_ok k v" "k \<in> set ks" "\<not> oe_set_encoding (e_options e)" "e_worker e = []"
    "e_root_bitfield e = (i, arr)" "k_optional k \<Longrightarrow> i < length arr \<and> i < cur_number_optional_default (e_cursor e)"
  shows "\<exists>arr'. length arr' = length arr \<and>
    map fst (take (i + of_bool (k_optional k)) arr') = map fst (take i arr) @ presence_bits [k] [v] \<and>
    component_enc k v e =
      Some (Ok (e\<lparr>e_output := e_output e @ components_oct [k] [v],
        e_root_bitfield := (i + of_bool (k_optional k), arr')\<rparr>))"
proof -
  note enc = oer_codec.enc_octets [OF codecs [OF assms(2)]]
  show ?thesis
  proof (cases "k_optional k")
    case False
    then obtain x where "v = Some x" "k_wf k x" using assms(1) by (auto simp: component_ok_def split: option.splits)
    with False assms(3-5) show ?thesis
      by (cases e) (simp add: component_enc_def enc)
  next
    case True
    let ?arr = "arr[i := (v \<noteq> None, f_tag (k_field k))]"
    have i: "i < length arr" "i < cur_number_optional_default (e_cursor e)" using assms(6) True by simp_all
    then have "set_presence (f_tag (k_field k)) (v \<noteq> None) e = Some (Ok (e\<lparr>e_root_bitfield := (i + 1, ?arr)\<rparr>))"
      using assms(5) by (auto simp: set_presence_def)
    moreover have "map fst (take (Suc i) ?arr) = map fst (take i arr) @ [v \<noteq> None]"
      using i(1) by (simp add: take_Suc_conv_app_nth)
    ultimately show ?thesis
      using True assms(1,3,4)
      by (intro exI [of _ ?arr])
        (auto simp: component_enc_def component_ok_def oer_encode_some_def oer_encode_none_def ebind_def enc
          split: option.splits)
  qed
qed

lemma components_enc_octets:
  assumes "list_all2 component_ok js vs" "set js \<subseteq> set ks" "\<not> oe_set_encoding (e_options e)" "e_worker e = []"
    "e_root_bitfield e = (i, arr)" "i + length (optional_fields js) \<le> length arr"
    "i + length (optional_fields js) \<le> cur_number_optional_default (e_cursor e)"
  shows "\<exists>arr'. length arr' = length arr \<and>
    map fst (take (i + length (optional_fields js)) arr') = map fst (take i arr) @ presence_bits js vs \<and>
    components_enc js vs e =
      Some (Ok (e\<lparr>e_output := e_output e @ components_oct js vs,
        e_root_bitfield := (i + length (optional_fields js), arr')\<rparr>))"
  using assms
proof (induction js vs arbitrary: e i arr rule: list_all2_induct)
  case Nil
  then show ?case by (intro exI [of _ arr]) (cases e, simp add: eret_def)
next
  case (Cons k js v vs)
  let ?i = "i + of_bool (k_optional k)"
  obtain arr1 where a: "length arr1 = length arr"
    "map fst (take ?i arr1) = map fst (take i arr) @ presence_bits [k] [v]"
    "component_enc k v e = Some (Ok (e\<lparr>e_output := e_output e @ components_oct [k] [v], e_root_bitfield := (?i, arr1)\<rparr>))"
    using component_enc_octets [of k v e i arr] Cons.hyps(1) Cons.prems by (auto split: if_splits)
  define e1 where "e1 = e\<lparr>e_output := e_output e @ components_oct [k] [v], e_root_bitfield := (?i, arr1)\<rparr>"
  obtain arr2 where b: "length arr2 = length arr1"
    "map fst (take (?i + length (optional_fields js)) arr2) = map fst (take ?i arr1) @ presence_bits js vs"
    "components_enc js vs e1 = Some (Ok (e1\<lparr>e_output := e_output e1 @ components_oct js vs,
        e_root_bitfield := (?i + length (optional_fields js), arr2)\<rparr>))"
    using Cons.IH [of e1 ?i arr1] Cons.prems a(1) by (auto simp: e1_def split: if_splits)
  show ?case
    using a b by (intro exI [of _ arr2]) (auto simp: ebind_def e1_def split: if_splits)
qed

definition FIELDS :: fields where "FIELDS = from_static (map k_field ks)"

lemma FIELDS_facts [simp]:
  "fields_list FIELDS = map k_field ks" "number_optional_default FIELDS = length (optional_fields ks)"
  "optional_and_default_fields FIELDS = optional_fields ks"
  using from_static_fold [of "map k_field ks" False 0]
  by (simp_all add: FIELDS_def from_static_def optional_and_default_fields_def)

lemma cursor_new_plain:
  "preamble_width (cursor_new 0 n False) = (n + 7) div 8"
  "cur_number_optional_default (cursor_new 0 n False) = n"
proof -
  have "(n + (8 - n mod 8) mod 8) div 8 = (n + 7) div 8"
    using padding [of n] by (metis div_mult_self_is_m zero_less_numeral)
  then show "preamble_width (cursor_new 0 n False) = (n + 7) div 8"
    by (simp add: cursor_new_def Let_def and_7)
qed (simp add: cursor_new_def Let_def)

lemma write_preamble_octets:
  assumes "length arr = length ks" "map fst (take n arr) = bits" "n = length bits" "n \<le> length ks"
    "e_root_bitfield e = (n, arr)" "e_cursor e = (cursor_new 0 n False)\<lparr>preamble_cursor := length before\<rparr>"
    "\<not> oe_set_encoding (e_options e)" "e_output e = before @ replicate ((n + 7) div 8) 0 @ body"
  shows "write_preamble raw False False e = Some (before @ preamble_octets raw (length ks) bits @ body)"
proof (cases "n = 0")
  case True
  then show ?thesis
    using assms by (simp add: write_preamble_def canonical_bitfield_def preamble_octets_def)
next
  case False
  have w: "(n + 7) div 8 \<le> length ks" using assms(4) by (rule octet_width)
  have "length (preamble_octets raw (length ks) bits) = (n + 7) div 8"
    using preamble_octets_bits(1) [OF documented] assms(3,4) by simp
  then have "overwrite (length before) (preamble_octets raw (length ks) bits) (e_output e) =
      Some (before @ preamble_octets raw (length ks) bits @ body)"
    by (simp add: overwrite_def assms(8))
  moreover have "bit_array raw (length ks) bits ((n + 7) div 8) = Some (preamble_octets raw (length ks) bits)"
    using w assms(3,4) by (simp add: bit_array_def preamble_octets_def)
  ultimately show ?thesis
    using assms(1,2,4-7) False
    by (simp add: write_preamble_def canonical_bitfield_def cursor_new_plain)
qed

lemma sequence_enc_octets:
  assumes "list_all2 component_ok ks vs" "\<not> oe_set_encoding (e_options e)" "e_worker e = []"
  shows "oer_encode_sequence raw (length ks) 0 (number_optional_default FIELDS) False tg (components_enc ks vs) e =
    Some (Ok (e\<lparr>e_output := e_output e @ sequence_octets raw ks vs\<rparr>))"
proof -
  let ?n = "length (optional_fields ks)"
  let ?c = "(cursor_new 0 ?n False)\<lparr>preamble_cursor := length (e_output e)\<rparr>"
  let ?f = "from_buffer (length ks) 0 (without_set_encoding (e_options e)) (e_output e) (e_worker e)"
  define e1 where "e1 = ?f\<lparr>e_output := e_output e @ replicate ((?n + 7) div 8) 0, e_cursor := ?c\<rparr>"
  have n: "?n \<le> length ks" using length_filter_le [of is_optional_or_default "map k_field ks"] by simp
  obtain arr where arr: "length arr = length ks" "map fst (take ?n arr) = presence_bits ks vs"
    "components_enc ks vs e1 = Some (Ok (e1\<lparr>e_output := e_output e1 @ components_oct ks vs,
        e_root_bitfield := (?n, arr)\<rparr>))"
    using components_enc_octets [OF assms(1), of e1 0 "replicate (length ks) (False, new_private 0)"] n assms(3)
    by (auto simp: e1_def from_buffer_def without_set_encoding_def cursor_new_plain)
  have l: "?n = length (presence_bits ks vs)"
    using assms(1) by (simp add: length_presence_bits list_all2_lengthD)
  define e2 where "e2 = e1\<lparr>e_output := e_output e1 @ components_oct ks vs, e_root_bitfield := (?n, arr)\<rparr>"
  have "write_preamble raw False False e2 = Some (e_output e @ sequence_octets raw ks vs)"
    unfolding sequence_octets_def
    using arr(1,2) l n
    by (intro write_preamble_octets) (simp_all add: e2_def e1_def from_buffer_def without_set_encoding_def)
  then show ?thesis
    using arr(3) assms(2,3)
    by (simp add: oer_encode_sequence_def ebind_def close_constructed_def oer_encode_constructed_def Let_def
        cursor_new_plain e2_def e1_def from_buffer_def without_set_encoding_def)
qed

text \<open>Decoding: the entries of the presence array that are left are those of the components
  that are left.\<close>

definition entries :: "'v component list \<Rightarrow> 'v option list \<Rightarrow> field option list" where
  "entries js vs = map (\<lambda>(f, b). if b then Some f else None) (zip (optional_fields js) (presence_bits js vs))"

lemma entries_Cons:
  "entries (k # js) (v # vs) =
    (if k_optional k then [if v \<noteq> None then Some (k_field k) else None] else []) @ entries js vs"
  by (simp add: entries_def)

lemma zip_left_part: "length xs = length ys \<Longrightarrow> zip xs (ys @ zs) = zip xs ys"
  by (simp add: zip_append2)

lemma require_field_present:
  assumes "o_fields d = (fs, i)" "drop i fs = (if b then Some f else None) # later" "smallest_tag (tag_tree f) = t"
  shows "require_field t d = Some (Ok b, d\<lparr>o_fields := (fs, i + 1)\<rparr>)"
proof -
  have "\<not> length fs \<le> i" using assms(2) by auto
  moreover have "fs ! i = (if b then Some f else None)" using assms(2) by (rule nth_via_drop)
  ultimately show ?thesis using assms(1,3) by (simp add: require_field_def oret_def)
qed

lemma component_dec_octets:
  assumes "component_ok k v" "k \<in> set ks" "depth_ok depth (o_options d)"
    "o_input d = components_oct [k] [v] @ rest" "o_fields d = (fs, i)" "drop i fs = entries (k # js) (v # vs) @ tail"
  shows "component_dec k d = Some (Ok v, d\<lparr>o_input := rest, o_fields := (fs, i + of_bool (k_optional k))\<rparr>)"
proof -
  note dec = oer_codec.dec_octets [OF codecs [OF assms(2)]]
  show ?thesis
  proof (cases "k_optional k")
    case False
    then obtain x where "v = Some x" "k_wf k x" using assms(1) by (auto simp: component_ok_def split: option.splits)
    with False assms(3-5) show ?thesis
      by (cases d) (simp add: component_dec_def obind_def oret_def dec)
  next
    case True
    then have "require_field (f_tag (k_field k)) d = Some (Ok (v \<noteq> None), d\<lparr>o_fields := (fs, i + 1)\<rparr>)"
      using assms(5,6) field_tags [OF assms(2)]
      by (intro require_field_present [where f = "k_field k"]) (simp_all add: entries_Cons)
    then show ?thesis
      using True assms(1,3,4)
      by (cases d) (auto simp: component_dec_def component_ok_def oer_decode_optional_def obind_def oret_def dec
          split: option.splits)
  qed
qed

lemma components_dec_octets:
  assumes "list_all2 component_ok js vs" "set js \<subseteq> set ks" "depth_ok depth (o_options d)"
    "o_input d = components_oct js vs @ rest" "o_fields d = (fs, i)" "drop i fs = entries js vs @ tail"
  shows "\<exists>n. components_dec js d = Some (Ok vs, d\<lparr>o_input := rest, o_fields := (fs, n)\<rparr>)"
  using assms
proof (induction js vs arbitrary: d i rule: list_all2_induct)
  case Nil
  then show ?case by (intro exI [of _ i]) (cases d, simp add: oret_def)
next
  case (Cons k js v vs)
  let ?i = "i + of_bool (k_optional k)"
  define d1 where "d1 = d\<lparr>o_input := components_oct js vs @ rest, o_fields := (fs, ?i)\<rparr>"
  have "component_dec k d = Some (Ok v, d1)"
    unfolding d1_def using Cons by (intro component_dec_octets [where js = js and vs = vs]) simp_all
  moreover have "drop ?i fs = entries js vs @ tail"
    using Cons.prems(5) by (auto simp: entries_Cons drop_Suc simp flip: drop_drop) (metis drop_Suc list.sel(3) tl_drop)+
  then obtain n where "components_dec js d1 = Some (Ok vs, d1\<lparr>o_input := rest, o_fields := (fs, n)\<rparr>)"
    using Cons.IH [of d1 ?i] Cons.prems by (auto simp: d1_def)
  ultimately show ?case by (auto simp: obind_def oret_def d1_def)
qed

lemma parse_preamble_octets:
  assumes "length vs = length ks" "o_input d = preamble_octets raw (length ks) (presence_bits ks vs) @ rest"
  shows "parse_preamble FIELDS False d =
    Some (Ok (presence_bits ks vs @ replicate (length ks - length (presence_bits ks vs)) False, False),
      d\<lparr>o_input := rest\<rparr>)"
proof -
  let ?b = "presence_bits ks vs"
  let ?p = "preamble_octets raw (length ks) ?b"
  have l: "length ?b = length (optional_fields ks)" using assms(1) by (rule length_presence_bits)
  then have n: "length ?b \<le> length ks" using length_filter_le [of is_optional_or_default "map k_field ks"] by simp
  note b = preamble_octets_bits [OF documented n]
  have "extract_data_by_length (length ?p) d = Some (Ok ?p, d\<lparr>o_input := rest\<rparr>)"
    by (rule extract_data_octets) (rule assms(2))
  moreover have "length ?b \<le> 8 * length ?p" using octet_width(2) [of "length ?b"] b(1) by simp
  note indexed_bits [OF this] any_bit_set_list_ex [of ?p "length ?b"]
  ultimately show ?thesis
    using b n
    unfolding parse_preamble_def FIELDS_facts obind_def l [symmetric]
    by (simp add: Let_def oret_def)
qed

lemma sequence_dec_octets:
  assumes "list_all2 component_ok ks vs" "depth_ok (Suc depth) (o_options d)"
    "o_input d = sequence_octets raw ks vs @ rest"
  shows "oer_decode_sequence FIELDS EXTENDED False dflt (components_dec ks) d = Some (Ok vs, d\<lparr>o_input := rest\<rparr>)"
proof -
  let ?b = "presence_bits ks vs" and ?i = "components_oct ks vs @ rest"
  have l: "length vs = length ks" using assms(1) by (simp add: list_all2_lengthD)
  then have lb: "length ?b = length (optional_fields ks)" by (rule length_presence_bits)
  define fs where "fs = presence_fields (length ks) (optional_fields ks) (?b @ replicate (length ks - length ?b) False)"
  have fs: "fs = entries ks vs @ replicate (length ks - length (entries ks vs)) None"
    using zip_left_part [OF lb [symmetric]] by (simp add: fs_def presence_fields_def entries_def Let_def)
  define i where "i = constructed_decoder EXTENDED fs False (d\<lparr>o_input := ?i\<rparr>)"
  have "\<exists>n. components_dec ks i = Some (Ok vs, i\<lparr>o_input := rest, o_fields := (fs, n)\<rparr>)"
    using assms(2) fs
    by (intro components_dec_octets [OF assms(1), where i = 0]) (auto simp: i_def constructed_decoder_def)
  then obtain n where "components_dec ks i = Some (Ok vs, i\<lparr>o_input := rest, o_fields := (fs, n)\<rparr>)" ..
  moreover have "o_input (i\<lparr>o_input := rest, o_fields := (fs, n)\<rparr>) = rest" by simp
  moreover have "oer_check_recursion_depth d = Some (Ok (), d)"
    using assms(2) by (simp add: oer_check_recursion_depth_def oret_def)
  moreover have "parse_preamble FIELDS False d =
      Some (Ok (?b @ replicate (length ks - length ?b) False, False), d\<lparr>o_input := ?i\<rparr>)"
    using assms(3) by (intro parse_preamble_octets l) (simp add: sequence_octets_def)
  moreover have "\<not> (map k_field ks = [] \<or> length (map k_field ks) = length (optional_fields ks) \<and> o_input d = [])"
  proof
    assume "map k_field ks = [] \<or> length (map k_field ks) = length (optional_fields ks) \<and> o_input d = []"
    then have a: "length (optional_fields ks) = length ks \<and> o_input d = []" using not_empty by auto
    then have "0 < length ?b" "length ?b \<le> length ks" using lb not_empty by simp_all
    then have "preamble_octets raw (length ks) ?b \<noteq> []"
      using preamble_octets_bits(1) [OF documented, of ?b "length ks"] octet_width(2) [of "length ?b"] by auto
    then show False using a assms(3) by (simp add: sequence_octets_def)
  qed
  ultimately show ?thesis
    unfolding oer_decode_sequence_def obind_def FIELDS_facts by (auto simp add: oret_def simp flip: fs_def i_def)
qed

end

sublocale oer_components \<subseteq> seq: oer_codec
  "\<lambda>vs. oer_encode_sequence raw (length ks) 0 (number_optional_default FIELDS) False tg (components_enc ks vs)"
  "oer_decode_sequence FIELDS EXTENDED False dflt (components_dec ks)"
  "sequence_octets raw ks" "list_all2 component_ok ks" "Suc depth"
  by unfold_locales (rule sequence_enc_octets sequence_dec_octets; assumption)+

context oer_components
begin

lemma sequence_codec: "oer_codec
    (\<lambda>vs. oer_encode_sequence raw (length ks) 0 (number_optional_default FIELDS) False tg (components_enc ks vs))
    (oer_decode_sequence FIELDS EXTENDED False dflt (components_dec ks))
    (sequence_octets raw ks) (list_all2 component_ok ks) (Suc depth)"
  by unfold_locales

end

end
