(* ===== verification/Oer_Choice.thy ===== *)
theory Oer_Choice
  imports Oer_Sequence
begin

text \<open>
  A CHOICE keeps the contract of OER for variants whose tag numbers are below 63 and so fit
  the first octet.
\<close>

section \<open>Tags of one octet\<close>

definition tag_octet :: "tag \<Rightarrow> u8" where
  "tag_octet t = push_bit 6 (class_as_u8 (tag_class t)) OR ucast (tag_value t)"

lemma high_bits_small:
  fixes n :: u32
  assumes "n < 64" "6 \<le> k"
  shows "\<not> bit n k"
proof -
  have "unat n < 2 ^ 6" using assms(1) by (simp add: word_less_nat_alt)
  then have "\<not> bit (unat n) k" using assms(2) by (metis bit_take_bit_iff not_less take_bit_nat_eq_self)
  then show ?thesis by (auto simp: bit_unsigned_iff dest: bit_imp_le_length)
qed

lemma msb_bits_inj: "msb_bits a = msb_bits b \<Longrightarrow> a = b"
proof (rule bit_word_eqI)
  fix n
  assume "msb_bits a = msb_bits b" "n < LENGTH(8)"
  then have "n \<in> {0, 1, 2, 3, 4, 5, 6, 7}" by auto
  then show "bit a n = bit b n" using \<open>msb_bits a = msb_bits b\<close> by (auto simp: msb_bits_def)
qed

lemma small_tag_bits:
  assumes "tag_value t < 63"
  shows "oer_encode_tag t (replicate 72 False) = (msb_bits (tag_octet t) @ replicate 64 False, 8)"
proof -
  have "tag_value t < 64" using assms order.strict_trans by fastforce
  then have h: "\<not> bit (tag_value t) 6" "\<not> bit (tag_value t) 7" by (simp_all add: high_bits_small)
  have r: "replicate 72 False = [False, False, False, False, False, False, False, False] @ replicate 64 False"
    by (simp add: numeral_eq_Suc)
  have m: "tag_value t AND push_bit i 1 \<noteq> 0 \<longleftrightarrow> bit (tag_value t) i" for i
    by (simp only: bit_iff_and_push_bit_not_eq_0)
  show ?thesis
    using assms h m [of 0] m [of 1] m [of 2] m [of 3] m [of 4] m [of 5]
    by (cases "tag_class t")
      (simp_all add: oer_encode_tag_def r put_bit_def class_bits_def tag_octet_def msb_bits_def bit_simps Let_def)
qed

lemma raw_tag_octet:
  assumes "bitvec_documented raw view_bits"
  shows "take 1 (raw (msb_bits b @ replicate 64 False)) = [b]"
proof -
  let ?bits = "msb_bits b @ replicate 64 False"
  have l: "length (raw ?bits) = 9" using bitvec_documentedD(1) [OF assms, of ?bits] by simp
  then obtain c cs where c: "raw ?bits = c # cs" by (cases "raw ?bits") auto
  have "take 72 (concat (map msb_bits (raw ?bits))) = ?bits"
    using assms bitvec_documentedD(2) [OF assms, of ?bits] unfolding bitvec_documented_def by simp
  then have "take 8 (take 72 (concat (map msb_bits (raw ?bits)))) = msb_bits b" by simp
  then have "msb_bits c = msb_bits b" using c by simp
  then show ?thesis using c msb_bits_inj by simp
qed

lemma tag_octet_fields:
  assumes "tag_value t < 63"
  shows "class_of_bits (drop_bit 6 (tag_octet t)) = Some (tag_class t)"
    "tag_octet t AND 0x3f \<noteq> 0x3f" "ucast (tag_octet t AND 0x3f) = tag_value t"
proof -
  have lt: "tag_value t < 64" using assms order.strict_trans by fastforce
  let ?u = "ucast (tag_value t) :: u8"
  have h: "\<not> bit (tag_value t) k" if "6 \<le> k" for k using lt that by (rule high_bits_small)
  have "drop_bit 6 (tag_octet t) = class_as_u8 (tag_class t)"
  proof (rule bit_word_eqI)
    fix n assume "n < LENGTH(8)"
    then have "n \<in> {0, 1, 2, 3, 4, 5, 6, 7}" by auto
    then show "bit (drop_bit 6 (tag_octet t)) n = bit (class_as_u8 (tag_class t)) n"
      by (cases "tag_class t") (auto simp: tag_octet_def bit_simps h)
  qed
  then show "class_of_bits (drop_bit 6 (tag_octet t)) = Some (tag_class t)"
    by (cases "tag_class t") (simp_all add: class_of_bits_def)
  have o: "tag_octet t AND 0x3f = ?u"
  proof (rule bit_word_eqI)
    fix n assume "n < LENGTH(8)"
    then have "n \<in> {0, 1, 2, 3, 4, 5, 6, 7}" by auto
    then show "bit (tag_octet t AND 0x3f) n = bit ?u n"
      by (auto simp: tag_octet_def bit_simps h)
  qed
  have u: "ucast ?u = tag_value t"
  proof (rule bit_word_eqI)
    fix n
    show "bit (ucast ?u :: u32) n = bit (tag_value t) n"
      using h [of n] by (cases "n < 8") (auto simp: bit_simps dest: bit_imp_le_length)
  qed
  then show "ucast (tag_octet t AND 0x3f) = tag_value t" using o by simp
  show "tag_octet t AND 0x3f \<noteq> 0x3f"
  proof
    assume "tag_octet t AND 0x3f = 0x3f"
    then have "tag_value t = ucast (0x3f :: u8)" using o u by simp
    then show False using assms by simp
  qed
qed

section \<open>CHOICE\<close>

text \<open>The variants as components whose fields carry the tags; a value is the tag of its variant
  and the value of the variant.\<close>

definition variant :: "'v component list \<Rightarrow> tag \<Rightarrow> 'v component option" where
  "variant ks t = find (\<lambda>k. f_tag (k_field k) = t) ks"

definition VARIANTS :: "'v component list \<Rightarrow> tag_tree list" where
  "VARIANTS ks = map (\<lambda>k. Leaf (f_tag (k_field k))) ks"

definition choice_enc :: "(bool list \<Rightarrow> bytes) \<Rightarrow> 'v component list \<Rightarrow> tag \<times> 'v \<Rightarrow> oer_encode_fn" where
  "choice_enc raw ks tv =
    (case variant ks (fst tv) of
       Some k \<Rightarrow> oer_encode_choice raw (VARIANTS ks) (fst tv) (k_enc k (snd tv))
     | None \<Rightarrow> eret)"

definition choice_from_tag :: "'v component list \<Rightarrow> tag \<Rightarrow> (tag \<times> 'v) oer_decode_fn" where
  "choice_from_tag ks t =
    (case variant ks t of
       Some k \<Rightarrow> obind (k_dec k) (\<lambda>v. oret (t, v))
     | None \<Rightarrow> oerr (from_codec_kind (OerErr (InvalidTagVariantOnChoice t False))))"

definition choice_oct :: "'v component list \<Rightarrow> tag \<times> 'v \<Rightarrow> bytes" where
  "choice_oct ks tv =
    tag_octet (fst tv) # (case variant ks (fst tv) of Some k \<Rightarrow> k_oct k (snd tv) | None \<Rightarrow> [])"

definition choice_ok :: "'v component list \<Rightarrow> tag \<times> 'v \<Rightarrow> bool" where
  "choice_ok ks tv \<longleftrightarrow> tag_value (fst tv) < 63 \<and>
    (case variant ks (fst tv) of Some k \<Rightarrow> k_wf k (snd tv) | None \<Rightarrow> False)"

lemma variant_SomeD: "variant ks t = Some k \<Longrightarrow> k \<in> set ks \<and> f_tag (k_field k) = t"
  by (auto simp: variant_def find_Some_iff)

lemma tag_contains_VARIANTS: "tag_contains t (VARIANTS ks) \<longleftrightarrow> variant ks t \<noteq> None"
  by (induction ks) (auto simp: VARIANTS_def variant_def)

locale oer_variants =
  fixes raw :: "bool list \<Rightarrow> bytes" and view_bits :: "bytes \<Rightarrow> bool list"
    and ks :: "'v component list" and depth :: nat
    and EXTENDED :: "tag_tree list option" and cs :: constraints
  assumes documented: "bitvec_documented raw view_bits"
    and codecs: "k \<in> set ks \<Longrightarrow> oer_codec (k_enc k) (k_dec k) (k_oct k) (k_wf k) depth"

sublocale oer_variants \<subseteq> choice: oer_codec "choice_enc raw ks"
  "oer_decode_choice (VARIANTS ks) EXTENDED cs (choice_from_tag ks)" "choice_oct ks" "choice_ok ks" "Suc depth"
proof
  fix tv and e :: oer_encoder
  assume v: "choice_ok ks tv" and e: "\<not> oe_set_encoding (e_options e)" "e_worker e = []"
  obtain t v where tv: "tv = (t, v)" by (cases tv)
  then obtain k where k: "variant ks t = Some k" "k_wf k v" "tag_value t < 63"
    using v by (auto simp: choice_ok_def split: option.splits)
  have c: "tag_contains t (VARIANTS ks)" "k \<in> set ks"
    using k(1) variant_SomeD [OF k(1)] by (simp_all add: tag_contains_VARIANTS)
  note enc = oer_codec.enc_octets [OF codecs [OF c(2)] k(2)]
  have "oer_encode_tag t (replicate 72 False) = (msb_bits (tag_octet t) @ replicate 64 False, 8)"
    by (rule small_tag_bits [OF k(3)])
  then show "choice_enc raw ks tv e = Some (Ok (e\<lparr>e_output := e_output e @ choice_oct ks tv\<rparr>))"
    using k(1) c(1) e raw_tag_octet [OF documented, of "tag_octet t"]
    by (simp add: tv choice_enc_def choice_oct_def oer_encode_choice_def oer_steps enc)
next
  fix tv and d :: oer_decoder and rest
  assume v: "choice_ok ks tv" and depth: "depth_ok (Suc depth) (o_options d)"
    and i: "o_input d = choice_oct ks tv @ rest"
  obtain t v where tv: "tv = (t, v)" by (cases tv)
  then obtain k where k: "variant ks t = Some k" "k_wf k v" "tag_value t < 63"
    using v by (auto simp: choice_ok_def split: option.splits)
  have c: "tag_contains t (VARIANTS ks)" "k \<in> set ks"
    using k(1) variant_SomeD [OF k(1)] by (simp_all add: tag_contains_VARIANTS)
  define d1 where "d1 = d\<lparr>o_input := k_oct k v @ rest\<rparr>"
  have "parse_one_byte d = Some (Ok (tag_octet t), d1)"
    unfolding d1_def using i k(1) by (intro parse_one_byte_Cons) (simp add: tv choice_oct_def)
  then have "oer_parse_tag d = Some (Ok t, d1)"
    using tag_octet_fields [OF k(3)] by (cases t) (simp add: oer_parse_tag_def obind_def oret_def)
  moreover have "k_dec k (with_depth (\<lambda>n. n - 1) d1) = Some (Ok v, (with_depth (\<lambda>n. n - 1) d1)\<lparr>o_input := rest\<rparr>)"
    using depth by (intro oer_codec.dec_octets [OF codecs [OF c(2)] k(2)]) (auto simp: d1_def with_depth_def)
  ultimately show "oer_decode_choice (VARIANTS ks) EXTENDED cs (choice_from_tag ks) d = Some (Ok tv, d\<lparr>o_input := rest\<rparr>)"
    using depth k(1) c(1)
    by (cases d) (auto simp: tv oer_decode_choice_def oer_check_recursion_depth_def obind_def oret_def Let_def
        choice_from_tag_def with_depth_def d1_def)
qed

context oer_variants
begin

lemma choice_codec: "oer_codec (choice_enc raw ks)
    (oer_decode_choice (VARIANTS ks) EXTENDED cs (choice_from_tag ks)) (choice_oct ks) (choice_ok ks) (Suc depth)"
  by unfold_locales

end

end
