(* ===== verification/Oer_Schema.thy ===== *)
theory Oer_Schema
  imports Oer_Choice
begin

text \<open>
  The closure of the contract of OER: a datatype of ASN.1 types, each with the encoder and the
  decoder that the derived implementations put together from the operations of \<open>oer/\<close>.  One
  induction over the types shows that every type keeps the contract.
\<close>

section \<open>Types and values\<close>

datatype asn_type =
    TBool
  | TNull
  | TInteger int_type constraints
  | TEnumerated "int list"
  | TOctets constraints
  | TBits constraints
  | TOid
  | TSequenceOf tag asn_type
  | TSequence "(field \<times> asn_type) list"
  | TChoice "(field \<times> asn_type) list"

datatype asn_value =
    VBool bool
  | VNull
  | VInteger int
  | VEnumerated int
  | VOctets bytes
  | VBits "bool list"
  | VOid "u32 list"
  | VSequenceOf "asn_value list"
  | VSequence "asn_value option list"
  | VChoice tag asn_value

text \<open>A codec on a type of its own as one on the common type of values.\<close>

definition embed ::
    "field \<Rightarrow> ('a \<Rightarrow> 'v) \<Rightarrow> ('v \<Rightarrow> 'a option) \<Rightarrow> ('a \<Rightarrow> oer_encode_fn) \<Rightarrow> 'a oer_decode_fn \<Rightarrow>
     ('a \<Rightarrow> bytes) \<Rightarrow> ('a \<Rightarrow> bool) \<Rightarrow> 'v component" where
  "embed f C un enc dec oct good =
    \<lparr>k_field = f,
     k_enc = (\<lambda>v. case un v of Some x \<Rightarrow> enc x | None \<Rightarrow> eret),
     k_dec = obind dec (\<lambda>x. oret (C x)),
     k_oct = (\<lambda>v. case un v of Some x \<Rightarrow> oct x | None \<Rightarrow> []),
     k_wf = (\<lambda>v. case un v of Some x \<Rightarrow> good x | None \<Rightarrow> False)\<rparr>"

lemma embed_codec:
  fixes f :: field
  assumes "oer_codec enc dec oct good depth" "\<And>v x. un v = Some x \<longleftrightarrow> v = C x" "depth \<le> depth'"
  defines "k \<equiv> embed f C un enc dec oct good"
  shows "oer_codec (k_enc k) (k_dec k) (k_oct k) (k_wf k) depth'"
proof
  fix v and e :: oer_encoder
  assume "k_wf k v" and e: "\<not> oe_set_encoding (e_options e)" "e_worker e = []"
  then obtain x where "un v = Some x" "good x" by (auto simp: k_def embed_def split: option.splits)
  then show "k_enc k v e = Some (Ok (e\<lparr>e_output := e_output e @ k_oct k v\<rparr>))"
    using oer_codec.enc_octets [OF assms(1) _ e] by (simp add: k_def embed_def)
next
  fix v and d :: oer_decoder and rest
  assume "k_wf k v" and d: "depth_ok depth' (o_options d)" "o_input d = k_oct k v @ rest"
  then obtain x where x: "un v = Some x" "good x" by (auto simp: k_def embed_def split: option.splits)
  then show "k_dec k d = Some (Ok v, d\<lparr>o_input := rest\<rparr>)"
    using oer_codec.dec_octets [OF assms(1) x(2), of d rest] d assms(3) assms(2) [of v x]
    by (simp add: k_def embed_def obind_def oret_def)
qed

fun un_bool where "un_bool (VBool b) = Some b" | "un_bool _ = None"
fun un_null where "un_null VNull = Some ()" | "un_null _ = None"
fun un_integer where "un_integer (VInteger i) = Some i" | "un_integer _ = None"
fun un_enumerated where "un_enumerated (VEnumerated i) = Some i" | "un_enumerated _ = None"
fun un_octets where "un_octets (VOctets x) = Some x" | "un_octets _ = None"
fun un_bits where "un_bits (VBits x) = Some x" | "un_bits _ = None"
fun un_oid where "un_oid (VOid x) = Some x" | "un_oid _ = None"
fun un_sequence_of where "un_sequence_of (VSequenceOf x) = Some x" | "un_sequence_of _ = None"
fun un_sequence where "un_sequence (VSequence x) = Some x" | "un_sequence _ = None"
fun un_choice where "un_choice (VChoice t v) = Some (t, v)" | "un_choice _ = None"

lemma un_iff:
  "un_bool v = Some x \<longleftrightarrow> v = VBool x"
  "un_null v = Some y \<longleftrightarrow> v = (\<lambda>_. VNull) y"
  "un_integer v = Some i \<longleftrightarrow> v = VInteger i"
  "un_enumerated v = Some i \<longleftrightarrow> v = VEnumerated i"
  "un_octets v = Some bs \<longleftrightarrow> v = VOctets bs"
  "un_bits v = Some b \<longleftrightarrow> v = VBits b"
  "un_oid v = Some arcs \<longleftrightarrow> v = VOid arcs"
  "un_sequence_of v = Some vs \<longleftrightarrow> v = VSequenceOf vs"
  "un_sequence v = Some os \<longleftrightarrow> v = VSequence os"
  by (cases v; simp; fail)+

lemma un_choice_iff: "un_choice v = Some tv \<longleftrightarrow> v = (\<lambda>(t, v). VChoice t v) tv"
  by (cases v; cases tv; auto)

text \<open>What is outside the sources: the bit containers, the parser combinators used for object
  identifiers, and the size of a Rust type.\<close>

record oer_env =
  env_raw :: "bool list \<Rightarrow> bytes"
  env_view_bits :: "bytes \<Rightarrow> bool list"
  env_nom :: nom
  env_size_of :: "asn_type \<Rightarrow> nat"

definition env_documented :: "oer_env \<Rightarrow> bool" where
  "env_documented E \<longleftrightarrow> bitvec_documented (env_raw E) (env_view_bits E) \<and> nom_documented (env_nom E)"

definition enum_of :: "int list \<Rightarrow> int \<Rightarrow> int option" where
  "enum_of ds n = (if n \<in> set ds then Some n else None)"

fun type_codec :: "oer_env \<Rightarrow> asn_type \<Rightarrow> field \<Rightarrow> asn_value component" where
  "type_codec E TBool f =
    embed f VBool un_bool (oer_encode_bool (f_tag f)) oer_decode_bool oer_bool_octets (\<lambda>_. True)"
| "type_codec E TNull f =
    embed f (\<lambda>_. VNull) un_null (\<lambda>_. oer_encode_null) oer_decode_null (\<lambda>_. []) (\<lambda>_. True)"
| "type_codec E (TInteger it cs) f =
    embed f VInteger un_integer (oer_encode_integer (prim_ops it) (f_tag f) cs) (oer_decode_integer (prim_ops it) cs)
      (oer_integer_octets (prim_ops it) cs) (\<lambda>v. prim_wf it v \<and> oer_integer_ok (prim_ops it) (BYTE_WIDTH it) cs v)"
| "type_codec E (TEnumerated ds) f =
    embed f VEnumerated un_enumerated (oer_encode_enumerated (f_tag f)) (oer_decode_enumerated (enum_of ds))
      oer_enum_octets (oer_enum_ok (enum_of ds) (\<lambda>v. v))"
| "type_codec E (TOctets cs) f =
    embed f VOctets un_octets (oer_encode_octet_string (f_tag f) cs) (oer_decode_octet_string cs)
      (oer_string_octets cs) (oer_string_ok cs)"
| "type_codec E (TBits cs) f =
    embed f VBits un_bits (oer_encode_bit_string (env_raw E) (f_tag f) cs) (oer_decode_bit_string (env_view_bits E) cs)
      (oer_bits_octets (env_raw E) cs) (bits_fit cs)"
| "type_codec E TOid f =
    embed f VOid un_oid (oer_encode_object_identifier (f_tag f)) (oer_decode_object_identifier (env_nom E))
      (\<lambda>v. length_octets (length (oid_contents v)) @ oid_contents v)
      (\<lambda>v. oid_ok v \<and> length (oid_contents v) \<le> usize_MAX)"
| "type_codec E (TSequenceOf t T) f =
    (let k = type_codec E T (new_required 0 t (Leaf t) []) in
     embed f VSequenceOf un_sequence_of (\<lambda>vs. oer_encode_sequence_of (f_tag f) (map (k_enc k) vs))
       (oer_decode_sequence_of (env_size_of E T) (k_dec k)) (oer_list_octets (k_oct k)) (oer_list_ok (k_wf k) (env_size_of E T)))"
| "type_codec E (TSequence fs) f =
    (let ks = map (\<lambda>(g, T). type_codec E T g) fs; FIELDS = from_static (map fst fs) in
     embed f VSequence un_sequence
       (\<lambda>vs. oer_encode_sequence (env_raw E) (length fs) 0 (number_optional_default FIELDS) False (f_tag f)
          (components_enc ks vs))
       (oer_decode_sequence FIELDS None False None (components_dec ks))
       (sequence_octets (env_raw E) ks) (list_all2 component_ok ks))"
| "type_codec E (TChoice fs) f =
    (let ks = map (\<lambda>(g, T). type_codec E T g) fs in
     embed f (\<lambda>(t, v). VChoice t v) un_choice (choice_enc (env_raw E) ks)
       (oer_decode_choice (VARIANTS ks) None constraints_NONE (choice_from_tag ks)) (choice_oct ks) (choice_ok ks))"


text \<open>The nesting of a type, and the types the derive macro can produce: a SEQUENCE has components,
  and the tag tree of a component starts with its tag.\<close>

fun nesting :: "asn_type \<Rightarrow> nat" where
  "nesting (TSequenceOf t T) = Suc (nesting T)"
| "nesting (TSequence fs) = Suc (Max (insert 0 (set (map (\<lambda>(g, T). nesting T) fs))))"
| "nesting (TChoice fs) = Suc (Max (insert 0 (set (map (\<lambda>(g, T). nesting T) fs))))"
| "nesting _ = 0"

fun type_ok :: "asn_type \<Rightarrow> bool" where
  "type_ok (TSequenceOf t T) = type_ok T"
| "type_ok (TSequence fs) \<longleftrightarrow> fs \<noteq> [] \<and>
    list_all (\<lambda>(g, T). smallest_tag (tag_tree g) = f_tag g \<and> type_ok T) fs"
| "type_ok (TChoice fs) = list_all (\<lambda>(g, T). type_ok T) fs"
| "type_ok _ = True"

lemma k_field_type_codec [simp]: "k_field (type_codec E T f) = f"
  by (cases T) (simp_all add: embed_def Let_def)

lemma nesting_parts:
  "(g, T) \<in> set fs \<Longrightarrow> nesting T \<le> nesting (TSequence fs) - 1" "Suc (nesting (TSequence fs) - 1) = nesting (TSequence fs)"
  "(g, T) \<in> set fs \<Longrightarrow> nesting T \<le> nesting (TChoice fs) - 1" "Suc (nesting (TChoice fs) - 1) = nesting (TChoice fs)"
  by (auto intro!: Max_ge)

lemma codec_weaken: "oer_codec enc dec oct good depth \<Longrightarrow> depth \<le> depth' \<Longrightarrow> oer_codec enc dec oct good depth'"
  unfolding oer_codec_def by (meson order_trans)

lemma codec_restrict:
  assumes "oer_codec enc dec oct good depth" "\<And>v. good' v \<Longrightarrow> good v"
  shows "oer_codec enc dec oct good' depth"
  using assms unfolding oer_codec_def by blast

lemma oer_null_codec: "oer_codec (\<lambda>_ :: unit. oer_encode_null) oer_decode_null (\<lambda>_. []) (\<lambda>_. True) 0"
  by unfold_locales (simp_all add: oer_encode_null_def oer_decode_null_def eret_def oret_def)

lemma type_codec_keeps_contract:
  assumes "env_documented E" "type_ok T"
  shows "oer_codec (k_enc (type_codec E T f)) (k_dec (type_codec E T f)) (k_oct (type_codec E T f))
    (k_wf (type_codec E T f)) (nesting T)"
  using assms(2)
proof (induction T arbitrary: f)
  case TBool
  show ?case unfolding type_codec.simps by (rule embed_codec [OF oer_bool.oer_codec_axioms]) (simp_all add: un_iff)
next
  case TNull
  show ?case unfolding type_codec.simps by (rule embed_codec [OF oer_null_codec]) (simp_all add: un_iff)
next
  case (TInteger it cs)
  show ?case unfolding type_codec.simps
    by (rule embed_codec [OF prim.oer_integer.oer_codec_axioms]) (simp_all add: un_iff)
next
  case (TEnumerated ds)
  show ?case unfolding type_codec.simps
    by (rule embed_codec [OF oer_enumerated.oer_codec_axioms]) (simp_all add: un_iff)
next
  case (TOctets cs)
  show ?case unfolding type_codec.simps
    by (rule embed_codec [OF oer_octet_string.oer_codec_axioms]) (simp_all add: un_iff)
next
  case (TBits cs)
  show ?case unfolding type_codec.simps
    by (rule embed_codec [OF codec_restrict [OF oer_bit_string.oer_codec_axioms]])
      (use assms(1) in \<open>simp_all add: un_iff oer_bits_ok_def env_documented_def\<close>)
next
  case TOid
  show ?case unfolding type_codec.simps
    by (rule embed_codec [OF codec_restrict [OF oer_oid.oer_codec_axioms]])
      (use assms(1) in \<open>simp_all add: un_iff oer_oid_ok_def env_documented_def\<close>)
next
  case (TSequenceOf t T)
  define k where "k = type_codec E T (new_required 0 t (Leaf t) [])"
  have "oer_element (k_enc k) (k_dec k) (k_oct k) (k_wf k) (nesting T)"
    unfolding oer_element_def k_def using TSequenceOf by simp
  then have "oer_codec (\<lambda>vs. oer_encode_sequence_of (f_tag f) (map (k_enc k) vs))
      (oer_decode_sequence_of (env_size_of E T) (k_dec k)) (oer_list_octets (k_oct k))
      (oer_list_ok (k_wf k) (env_size_of E T)) (Suc (nesting T))"
    by (rule oer_element.seq_of_codec)
  then show ?case unfolding type_codec.simps Let_def k_def [symmetric]
    by (rule embed_codec) (simp_all add: un_iff)
next
  case (TSequence fs)
  define ks where "ks = map (\<lambda>(g, T). type_codec E T g) fs"
  let ?n = "nesting (TSequence fs) - 1"
  have "oer_components (env_raw E) (env_view_bits E) ks ?n"
  proof (rule oer_components.intro)
    fix k assume "k \<in> set ks"
    then obtain g T where gT: "(g, T) \<in> set fs" "k = type_codec E T g" by (auto simp: ks_def)
    have "nesting T \<le> ?n" using gT(1) by (rule nesting_parts)
    moreover have "type_ok T" using TSequence.prems gT(1) by (auto simp: list_all_iff)
    then have "oer_codec (k_enc k) (k_dec k) (k_oct k) (k_wf k) (nesting T)"
      unfolding gT(2) by (intro TSequence.IH [OF gT(1)]) simp_all
    ultimately show "oer_codec (k_enc k) (k_dec k) (k_oct k) (k_wf k) ?n" by (rule codec_weaken [rotated])
    show "key (k_field k) = f_tag (k_field k)" using TSequence.prems gT by (auto simp: list_all_iff)
  qed (use TSequence.prems assms(1) in \<open>simp_all add: ks_def env_documented_def\<close>)
  note codec = oer_components.sequence_codec [OF this, unfolded oer_components.FIELDS_def [OF this] nesting_parts(2)]
  have "map k_field ks = map fst fs" "length ks = length fs" by (auto simp: ks_def)
  note codec = codec [unfolded this]
  show ?case unfolding type_codec.simps Let_def ks_def [symmetric]
    by (rule embed_codec [OF codec un_iff(9) order_refl])
next
  case (TChoice fs)
  define ks where "ks = map (\<lambda>(g, T). type_codec E T g) fs"
  let ?n = "nesting (TChoice fs) - 1"
  have "oer_variants (env_raw E) (env_view_bits E) ks ?n"
  proof (rule oer_variants.intro)
    fix k assume "k \<in> set ks"
    then obtain g T where gT: "(g, T) \<in> set fs" "k = type_codec E T g" by (auto simp: ks_def)
    have "nesting T \<le> ?n" using gT(1) by (rule nesting_parts)
    moreover have "type_ok T" using TChoice.prems gT(1) by (auto simp: list_all_iff)
    then have "oer_codec (k_enc k) (k_dec k) (k_oct k) (k_wf k) (nesting T)"
      unfolding gT(2) by (intro TChoice.IH [OF gT(1)]) simp_all
    ultimately show "oer_codec (k_enc k) (k_dec k) (k_oct k) (k_wf k) ?n" by (rule codec_weaken [rotated])
  qed (use assms(1) in \<open>simp add: env_documented_def\<close>)
  note codec = oer_variants.choice_codec [OF this, unfolded nesting_parts(4)]
  show ?case unfolding type_codec.simps Let_def ks_def [symmetric]
    by (rule embed_codec [OF codec un_choice_iff order_refl])
qed
end
