(* ===== verification/Oer_Messages.thy ===== *)
theory Oer_Messages
  imports Oer_Schema Ber_Messages
begin

text \<open>
  Whole messages under OER and COER: the constructed types interpreted on the codecs of the
  model, round trips for every type, canonical lengths, and inputs on which encoder and
  decoder disagree.
\<close>

section \<open>Constructed types on the codecs of the model\<close>

interpretation oer_integers: oer_element "oer_encode_integer (prim_ops it) INTEGER cs"
  "oer_decode_integer (prim_ops it) cs" "oer_integer_octets (prim_ops it) cs"
  "\<lambda>v. prim_wf it v \<and> oer_integer_ok (prim_ops it) (BYTE_WIDTH it) cs v" 0 tg size_of for it cs tg size_of
  by unfold_locales

definition ref_env :: oer_env where
  "ref_env = \<lparr>env_raw = ref_raw, env_view_bits = ref_from_vec, env_nom = ref_nom, env_size_of = (\<lambda>_. 8)\<rparr>"

lemma ref_env_documented: "env_documented ref_env"
  by (simp add: env_documented_def ref_env_def bitvec_ref ref_nom_documented)

definition required_field :: "nat \<Rightarrow> tag \<Rightarrow> field" where "required_field i t = new_required i t (Leaf t) []"
definition optional_field :: "nat \<Rightarrow> tag \<Rightarrow> field" where "optional_field i t = new_optional i t (Leaf t) []"

definition ranged :: "int \<Rightarrow> int \<Rightarrow> constraints" where
  "ranged s e = constraints_new [CValue (extensible_new (value_new (const_new s e)))]"

text \<open>A SEQUENCE of a required INTEGER (0..1000), an optional OCTET STRING, an optional SEQUENCE
  OF BOOLEAN and a CHOICE of a BIT STRING and an ENUMERATED.\<close>

definition answer_variants :: "(field \<times> asn_type) list" where
  "answer_variants = [(required_field 0 (new_context 0), TBits constraints_NONE),
     (required_field 1 (new_context 1), TEnumerated [0, 200])]"

definition request_components :: "(field \<times> asn_type) list" where
  "request_components = [(required_field 0 INTEGER, TInteger U16 (ranged 0 1000)),
     (optional_field 1 OCTET_STRING, TOctets constraints_NONE),
     (optional_field 2 SEQUENCE, TSequenceOf BOOL TBool),
     (required_field 3 (new_context 0), TChoice answer_variants)]"

definition codecs_of :: "(field \<times> asn_type) list \<Rightarrow> asn_value component list" where
  "codecs_of fs = map (\<lambda>(g, T). type_codec ref_env T g) fs"

interpretation answer: oer_variants ref_raw ref_from_vec "codecs_of answer_variants" 0 None constraints_NONE
proof (rule oer_variants.intro)
  fix k assume "k \<in> set (codecs_of answer_variants)"
  then obtain g T where gT: "(g, T) \<in> set answer_variants" "k = type_codec ref_env T g" by (auto simp: codecs_of_def)
  then have "type_ok T" "nesting T \<le> 0" by (auto simp: answer_variants_def)
  then show "oer_codec (k_enc k) (k_dec k) (k_oct k) (k_wf k) 0"
    unfolding gT(2) by (intro codec_weaken [OF type_codec_keeps_contract [OF ref_env_documented]])
qed (rule bitvec_ref)

interpretation request: oer_components ref_raw ref_from_vec "codecs_of request_components" 1 SEQUENCE None None
proof (rule oer_components.intro)
  fix k assume "k \<in> set (codecs_of request_components)"
  then obtain g T where gT: "(g, T) \<in> set request_components" "k = type_codec ref_env T g" by (auto simp: codecs_of_def)
  then have "type_ok T" "nesting T \<le> 1" by (auto simp: request_components_def answer_variants_def)
  then show "oer_codec (k_enc k) (k_dec k) (k_oct k) (k_wf k) 1"
    unfolding gT(2) by (intro codec_weaken [OF type_codec_keeps_contract [OF ref_env_documented]])
  have "smallest_tag (tag_tree g) = f_tag g" using gT(1) unfolding request_components_def by (auto; code_simp)
  then show "key (k_field k) = f_tag (k_field k)" by (simp add: gT(2))
qed (simp_all add: bitvec_ref codecs_of_def request_components_def)

section \<open>Lemmas\<close>

lemma length_octets_unique:
  assumes "data \<noteq> []" "data ! 0 \<noteq> 0" "be_val data = int n" "n \<le> usize_MAX"
  shows "needed_slice (to_unsigned_bytes_be Usize (int n)) = data"
proof (rule be_val_inj)
  let ?bs = "needed_slice (to_unsigned_bytes_be Usize (int n))"
  note u = usize_octets [OF assms(4)]
  show "be_val ?bs = be_val data" using u(2) assms(3) by simp
  obtain b bs where b: "data = b # bs" using assms(1) by (cases data) auto
  have "length ?bs \<le> length data" using u(4) [of "length data"] be_val_less [of data] assms(1,3) by simp
  moreover have "(256 :: int) ^ length bs < 256 ^ length ?bs"
  proof -
    have "uint b \<noteq> 0" using assms(2) b by (simp add: uint_0_iff)
    then have "1 \<le> uint b" using uint_nonnegative [of b] by linarith
    then have "256 ^ length bs \<le> be_val data" using b by (simp add: be_val_Cons add_increasing2)
    also have "\<dots> < 256 ^ length ?bs" using be_val_less [of ?bs] u(2) assms(3) by simp
    finally show ?thesis .
  qed
  then have "length bs < length ?bs" using power_less_imp_less_exp [of "256 :: int"] by simp
  ultimately show "length ?bs = length data" using b by simp
qed

lemma length_octet_cases:
  fixes b :: u8
  assumes "\<not> b < 128"
  shows "(b AND 0x7f) OR 0x80 = b"
proof -
  have "128 \<le> uint b" "uint b < 256" using assms uint_bounded [of b] by (simp_all add: word_less_def)
  then have "uint b div 2 ^ 7 = 1" by (simp add: div_pos_geq)
  then have "bit (uint b) 7" by (simp add: bit_iff_odd)
  then have "bit b 7" by (simp add: bit_uint_iff)
  show ?thesis
  proof (rule bit_word_eqI)
    fix n assume "n < LENGTH(8)"
    then have "n \<in> {0, 1, 2, 3, 4, 5, 6, 7}" by auto
    with \<open>bit b 7\<close> show "bit ((b AND 0x7f) OR 0x80) n = bit b n" by (auto simp: bit_simps)
  qed
qed


lemma ranged_513:
  "integer_slice (prim_ops U16) (ranged 0 1000) 513 = [2, 1]" "integer_layout (ranged 0 1000) = (False, Some 2)"
  "map_option (\<lambda>c. vc_value (constraint c)) (c_value (ranged 0 1000)) = Some (Range (Some 0) (Some 1000))"
  by code_simp+

lemma request_513: "oer_integer_ok (prim_ops U16) 2 (ranged 0 1000) 513"
  using ranged_513 by (auto simp: oer_integer_ok_def in_type_def type_min_def type_max_def prim_ops_def [of U16]
    split: option.splits)

definition request_value :: asn_value where
  "request_value = VSequence [Some (VInteger 513), None, Some (VSequenceOf [VBool True, VBool False]),
     Some (VChoice (new_context 1) (VEnumerated 200))]"

lemma request_value_wf: "k_wf (type_codec ref_env (TSequence request_components) (required_field 0 SEQUENCE)) request_value"
  by (simp add: request_components_def request_value_def embed_def Let_def component_ok_def answer_variants_def
      required_field_def optional_field_def new_required_def new_optional_def new_field_def is_optional_or_default_def
      prim_wf_def in_type_def type_min_def type_max_def BYTE_WIDTH_def request_513 oer_list_ok_def usize_MAX_def
      ref_env_def variant_def choice_ok_def new_context_def oer_enum_ok_def enum_of_def)

definition returns :: "'a option \<Rightarrow> bool" where "returns r \<longleftrightarrow> r \<noteq> None"

lemma obind_returns:
  "returns (m d) \<Longrightarrow> (\<And>x d'. m d = Some (Ok x, d') \<Longrightarrow> returns (f x d')) \<Longrightarrow> returns (obind m f d)"
  by (auto simp: returns_def obind_def split: option.splits sum.splits)

lemma basic_returns [simp]:
  "returns (oret x d)" "returns (oerr e d)" "returns (olift r d)" "returns (parse_one_byte d)"
  "returns (split_input n e d)" "returns (extract_data_by_length n d)"
  by (simp_all add: returns_def oret_def oerr_def olift_def parse_one_byte_def split_input_def extract_data_by_length_def
      split: list.splits)


lemma decode_length_returns [simp]: "returns (decode_length d)"
  unfolding decode_length_def
  by (intro obind_returns) (auto simp: Let_def intro!: obind_returns split: sum.splits)


lemma decode_integer_from_bytes_returns [simp]: "returns (decode_integer_from_bytes I sg len d)"
  unfolding decode_integer_from_bytes_def
  by (auto intro!: obind_returns split: option.splits)













lemma range_octets: "range_in_bytes (const_new s e) = (sg, Some n) \<Longrightarrow> n \<in> {1, 2, 4, 8}"
  by (auto simp: const_new_def Let_def octet_size_by_range_def split: if_splits)

lemma ranged_layout:
  "c_value (ranged s e) = Some (extensible_new (value_new (const_new s e)))"
  "integer_layout (ranged s e) = range_in_bytes (const_new s e)"
  by (simp_all add: ranged_def constraints_new_def constraints_NONE_def integer_layout_def extensible_new_def
      value_new_def split: prod.splits)

lemma ranged_value: "c_value (ranged s e) = Some c \<Longrightarrow> vc_value (constraint c) = const_new s e"
  by (auto simp: ranged_layout extensible_new_def value_new_def split: prod.splits)

lemma prim_to_bigint [simp]: "i_to_bigint (prim_ops it) v = v"
  by (simp add: prim_ops_def)

section \<open>Properties\<close>

text \<open>C1: for every ASN.1 type built from BOOLEAN, NULL, INTEGER, ENUMERATED, OCTET STRING, BIT STRING,
  OBJECT IDENTIFIER, SEQUENCE OF, SEQUENCE with required and optional components and CHOICE, every
  well-formed value is encoded and then decoded to itself, by OER and by COER, whatever octets
  follow it.\<close>

theorem oer_schema_roundtrip:
  assumes "env_documented E" "type_ok T" "k_wf (type_codec E T f) v"
    "nesting T \<le> od_remaining_depth options" "od_remaining_depth options \<le> usize_MAX"
  shows "\<exists>octets. oer_encode (k_enc (type_codec E T f) v) = Some (Ok octets) \<and>
    oer_decode_with_remainder options (k_dec (type_codec E T f)) (octets @ rest) = Some (Ok (v, rest))"
  using oer_codec.message_roundtrip [OF type_codec_keeps_contract [OF assms(1,2)] assms(3)] assms(4,5) by blast

theorem oer_schema_roundtrip_witness:
  "\<exists>octets. oer_encode (k_enc (type_codec ref_env (TSequence request_components) (required_field 0 SEQUENCE)) request_value) =
      Some (Ok octets) \<and>
    oer_decode_with_remainder oer_decoder_options_coer
      (k_dec (type_codec ref_env (TSequence request_components) (required_field 0 SEQUENCE))) (octets @ [7]) =
      Some (Ok (request_value, [7]))"
proof (rule oer_schema_roundtrip)
  show "type_ok (TSequence request_components)" by code_simp
  have "nesting (TSequence request_components) = 2" by code_simp
  then show "nesting (TSequence request_components) \<le> od_remaining_depth oer_decoder_options_coer"
    by (simp add: oer_decoder_options_coer_def)
qed (simp_all only: ref_env_documented request_value_wf, simp add: oer_decoder_options_coer_def usize_MAX_def)

text \<open>C12: an INTEGER with a non-negative range is encoded in exactly the number of octets the
  constraint allots, big-endian, and decoded again.\<close>

theorem oer_constrained_integer_roundtrip:
  assumes "0 \<le> s" "s \<le> v" "v \<le> e" "in_type I128 e" "range_in_bytes (const_new s e) = (False, Some n)"
    "prim_wf it v" "n \<le> BYTE_WIDTH it" "od_remaining_depth options \<le> usize_MAX"
  shows "\<exists>octets. length octets = n \<and> be_val octets = v \<and>
    oer_encode (oer_encode_integer (prim_ops it) t (ranged s e) v) = Some (Ok octets) \<and>
    oer_decode_with_remainder options (oer_decode_integer (prim_ops it) (ranged s e)) (octets @ rest) =
      Some (Ok (v, rest))"
proof -
  note n = range_octets [OF assms(5)]
  let ?bs = "integer_slice (prim_ops it) (ranged s e) v"
  have t: "in_type it v" "0 \<le> v" using assms(1,2,6) by (simp_all add: prim_wf_def)
  have L: "integer_layout (ranged s e) = (False, Some n)" using ranged_layout(2) assms(5) by metis
  have bs: "?bs = needed_slice (to_unsigned_bytes_be it v)"
    by (simp add: integer_slice_def L prim_ops_def)
  note u = unsigned_slice_props [OF t, folded bs]
  have "octet_size_by_range e = Some n"
    using assms(1-5) by (auto simp: const_new_def Let_def unsigned_abs_def max_def)
  then have "v < 256 ^ n" using octet_size_by_range_iff [of e n] assms(1-3) by simp
  then have len: "length ?bs \<le> n" using n by (intro u(4)) auto
  have "in_type I128 v" using assms(1-4) by (simp add: in_type_def type_min_def)
  then have ok: "oer_integer_ok (prim_ops it) (BYTE_WIDTH it) (ranged s e) v"
    using len n t(2) assms(2,3,7) unfolding oer_integer_ok_def L fst_conv snd_conv option.case
    by (auto simp: ranged_value const_new_def split: option.splits)
  have "oer_integer_octets (prim_ops it) (ranged s e) v = replicate (n - length ?bs) 0 @ ?bs"
    using t(2) by (simp add: oer_integer_octets_def Let_def L sign_octet_def)
  then have "length (oer_integer_octets (prim_ops it) (ranged s e) v) = n"
    "be_val (oer_integer_octets (prim_ops it) (ranged s e) v) = v"
    using len u(1) by (simp_all add: be_val_zero_octets)
  then show ?thesis
    using prim.oer_integer.message_roundtrip [OF conjI [OF assms(6) ok], of options] assms(8) by auto
qed

theorem oer_constrained_integer_roundtrip_witness:
  "\<exists>octets. length octets = 2 \<and> be_val octets = 513 \<and>
    oer_encode (oer_encode_integer (prim_ops U32) INTEGER (ranged 0 1000) 513) = Some (Ok octets) \<and>
    oer_decode_with_remainder oer_decoder_options_oer (oer_decode_integer (prim_ops U32) (ranged 0 1000)) (octets @ []) =
      Some (Ok (513, []))"
proof (rule oer_constrained_integer_roundtrip)
  show "range_in_bytes (const_new 0 1000) = (False, Some 2)" by code_simp
qed (simp_all add: in_type_def type_min_def type_max_def prim_wf_def BYTE_WIDTH_def oer_decoder_options_oer_def usize_MAX_def)

text \<open>C13: COER accepts a length only in its canonical form: what \<open>decode_length\<close> consumed are the
  octets the encoder writes for the result.\<close>

theorem coer_length_canonical:
  assumes "decode_length d = Some (Ok n, d')" "o_coer d"
  shows "o_input d = length_octets n @ o_input d'"
proof -
  obtain b rest where i: "o_input d = b # rest"
    using assms(1) by (auto simp: decode_length_def obind_def parse_one_byte_def oerr_def split: list.splits)
  define d1 where "d1 = d\<lparr>o_input := rest\<rparr>"
  have p: "parse_one_byte d = Some (Ok b, d1)" unfolding d1_def using i by (rule parse_one_byte_Cons)
  show ?thesis
  proof (cases "b < 128")
    case True
    then have "n = unat b" "d' = d1" using assms(1) p by (simp_all add: decode_length_def obind_def oret_def)
    moreover have "unat b < 128" using True by (simp add: word_less_nat_alt)
    ultimately show ?thesis using i short_octets [of "unat b"] by (simp add: length_octets_def d1_def)
  next
    case False
    let ?l = "unat (b AND 0x7f)"
    define data where "data = take ?l rest"
    have f: "b AND 0x7f \<noteq> 0" "?l \<le> length rest" "\<not> (data \<noteq> [] \<and> data ! 0 = 0)" "128 \<le> n"
      "try_from_unsigned_bytes Usize data (o_codec d) = Ok (int n)" "o_input d' = drop ?l rest"
      using assms p False unfolding decode_length_def obind_def
      by (auto simp: split_input_def oerr_def oret_def d1_def data_def o_coer_def o_codec_def Let_def split: if_splits sum.splits)
    then have v: "data \<noteq> []" "data ! 0 \<noteq> 0" "be_val data = int n" "length data = ?l" "length data \<le> 8"
      by (auto simp: try_from_unsigned_bytes_Ok data_def BYTE_WIDTH_def)
    have "be_val data < 256 ^ 8"
      using be_val_less [of data] power_increasing [OF v(5), of "256 :: int"] by simp
    then have "n \<le> usize_MAX" using v(3) by (simp add: usize_MAX_def)
    from length_octets_unique [OF v(1-3) this] show ?thesis
      using f v i length_octet_cases [OF False] append_take_drop_id [of ?l rest]
      by (simp add: length_octets_def Let_def data_def)
  qed
qed

theorem coer_length_canonical_witness:
  "o_input (oer_decoder_new [0x81, 0xc8, 9] oer_decoder_options_coer) =
    length_octets 200 @ o_input ((oer_decoder_new [0x81, 0xc8, 9] oer_decoder_options_coer)\<lparr>o_input := [9]\<rparr>)"
proof (rule coer_length_canonical)
  show "decode_length (oer_decoder_new [0x81, 0xc8, 9] oer_decoder_options_coer) =
      Some (Ok 200, (oer_decoder_new [0x81, 0xc8, 9] oer_decoder_options_coer)\<lparr>o_input := [9]\<rparr>)" by code_simp
  show "o_coer (oer_decoder_new [0x81, 0xc8, 9] oer_decoder_options_coer)" by code_simp
qed



section \<open>Where encoder and decoder disagree\<close>

definition choice_octets :: "tag \<Rightarrow> bytes enc_result option" where
  "choice_octets t = oer_encode (oer_encode_choice ref_raw [Leaf t] t (oer_encode_bool BOOL True))"

text \<open>The tag numbers 64 and 128 of a CHOICE become the same octets, and the decoder refuses these octets:
  \<open>encode_tag\<close> writes the bits of a number above 62 in the wrong order.\<close>

lemma oer_tags_64_128:
  "choice_octets (new_context 64) = Some (Ok [0xbf, 0x80, 0x01, 0xff])"
  "choice_octets (new_context 128) = Some (Ok [0xbf, 0x80, 0x01, 0xff])"
  "map_option fst (oer_parse_tag (oer_decoder_new [0xbf, 0x80, 0x01, 0xff] oer_decoder_options_oer)) =
    Some (Err (from_codec_kind (OerErr (InvalidTagNumberOnChoice 128))))"
  by code_simp+

text \<open>Doubling a number puts a zero bit in the place of the last of the leading zeros.\<close>

lemma emit_first_double:
  "r < j \<Longrightarrow> m AND 1 = 0 \<Longrightarrow> emit_first j r m s = emit_first j (Suc r) (drop_bit 1 m) s"
proof (induction j arbitrary: r s)
  case (Suc j)
  then show ?case by (cases r) simp_all
qed simp

lemma tag_number_bits_half: "m \<noteq> 0 \<Longrightarrow> tag_number_bits m = Suc (tag_number_bits (drop_bit 1 m))"
  by (subst tag_number_bits.simps) (simp add: word_greater_zero_iff)

lemma oer_encode_tag_double:
  assumes "m AND 1 = 0" "63 \<le> drop_bit 1 m" "tag_number_bits m mod 7 \<noteq> 0"
  shows "oer_encode_tag (Tag c m) bv = oer_encode_tag (Tag c (drop_bit 1 m)) bv"
proof -
  let ?n = "drop_bit 1 m" and ?k = tag_number_bits
  have "unat ?n \<le> unat m" by (simp add: unat_drop_bit_eq drop_bit_eq_div unat_div)
  moreover have n: "63 \<le> unat ?n" using assms(2) by (simp add: word_le_nat_alt)
  ultimately have m: "\<not> m < 63" "m \<noteq> 0" "\<not> ?n < 63" by (auto simp: word_less_nat_alt)
  have "?k m mod 7 = Suc (?k ?n mod 7)"
    using assms(3) by (simp add: tag_number_bits_half [OF m(2)] mod_Suc split: if_splits)
  then have r: "7 - ?k ?n mod 7 = Suc (7 - ?k m mod 7)" "7 - ?k m mod 7 < 7" using mod_less_divisor [of 7 "?k m"] by linarith+
  have "emit_first 7 (7 - ?k m mod 7) m s = emit_first 7 (7 - ?k ?n mod 7) ?n s" for s
    unfolding r(1) by (rule emit_first_double [OF r(2) assms(1)])
  then show ?thesis using m by (simp add: oer_encode_tag_def Let_def)
qed
lemma choice_octets_of_codec:
  assumes "oer_codec enc dec oct good depth" "good v" "tag_contains t vs"
  shows "oer_encode (oer_encode_choice raw vs t (enc v)) =
    Some (Ok (take (snd (oer_encode_tag t (replicate 72 False)) div 8) (raw (fst (oer_encode_tag t (replicate 72 False)))) @ oct v))"
proof -
  let ?e = "from_buffer 0 0 oer_options_coer [] []"
  let ?o = "take (snd (oer_encode_tag t (replicate 72 False)) div 8) (raw (fst (oer_encode_tag t (replicate 72 False))))"
  have "enc v (?e\<lparr>e_output := ?o\<rparr>) = Some (Ok (?e\<lparr>e_output := ?o @ oct v\<rparr>))"
    using oer_codec.enc_octets [OF assms(1,2), of "?e\<lparr>e_output := ?o\<rparr>"] by (simp add: from_buffer_def oer_options_coer_def)
  then show ?thesis
    using assms(3)
    by (simp add: oer_encode_def oer_encode_choice_def case_prod_unfold oer_steps Let_def from_buffer_def oer_options_coer_def)
qed

text \<open>C18: two alternatives of a CHOICE whose tags have the same class and the numbers \<open>n\<close> and \<open>2 n\<close>, with \<open>n\<close> at
  least 63 and the bits of \<open>2 n\<close> not a multiple of seven, have the same octets for every value: no decoder can
  tell them apart.\<close>

theorem oer_long_tags_collide:
  assumes "env_documented E" "type_ok T" "k_wf (type_codec E T f) v"
    "m AND 1 = 0" "63 \<le> drop_bit 1 m" "tag_number_bits m mod 7 \<noteq> 0"
    "tag_contains (Tag c m) vs" "tag_contains (Tag c (drop_bit 1 m)) vs"
  shows "\<exists>octets. oer_encode (oer_encode_choice (env_raw E) vs (Tag c m) (k_enc (type_codec E T f) v)) = Some (Ok octets) \<and>
    oer_encode (oer_encode_choice (env_raw E) vs (Tag c (drop_bit 1 m)) (k_enc (type_codec E T f) v)) = Some (Ok octets)"
  using choice_octets_of_codec [OF type_codec_keeps_contract [OF assms(1,2)] assms(3,7)]
    choice_octets_of_codec [OF type_codec_keeps_contract [OF assms(1,2)] assms(3,8)] oer_encode_tag_double [OF assms(4-6)]
  by metis

theorem oer_long_tags_collide_witness:
  "\<exists>octets. oer_encode (oer_encode_choice (env_raw ref_env) [Leaf (Tag Context 64), Leaf (Tag Context 128)] (Tag Context 128)
      (k_enc (type_codec ref_env TBool (required_field 0 BOOL)) (VBool True))) = Some (Ok octets) \<and>
    oer_encode (oer_encode_choice (env_raw ref_env) [Leaf (Tag Context 64), Leaf (Tag Context 128)] (Tag Context (drop_bit 1 128))
      (k_enc (type_codec ref_env TBool (required_field 0 BOOL)) (VBool True))) = Some (Ok octets)"
proof (rule oer_long_tags_collide [OF ref_env_documented])
  have "tag_number_bits 128 = 8" by code_simp
  then show "tag_number_bits 128 mod 7 \<noteq> 0" by simp
qed (simp_all add: embed_def const_eq_def)

text \<open>A SET whose only component is a SEQUENCE OF is encoded as nothing: the encoder of the
  elements still has \<open>set_encoding\<close> set and moves every element into a buffer that is dropped.\<close>

lemma oer_set_loses_sequence_of:
  "oer_encode (oer_encode_set ref_raw 1 0 0 False SET
     (oer_encode_sequence_of SEQUENCE [oer_encode_bool BOOL True, oer_encode_bool BOOL False])) = Some (Ok [])"
  by code_simp






lemma signed_needed_iff:
  assumes "prim_wf it v" "0 < n"
  shows "length (needed_slice (to_signed_bytes_be it v)) \<le> n \<longleftrightarrow> fits_signed n v"
proof -
  let ?bs = "needed_slice (to_signed_bytes_be it v)"
  have wf: "in_type it v" "it = U128 \<Longrightarrow> v < 2 ^ 127" using assms(1) by (simp_all add: prim_wf_def)
  note s = signed_slice_props [OF wf]
  have "fits_signed (length ?bs) v" using be_sval_fits [OF s(2)] s(1) by simp
  then have "fits_signed n v" if "length ?bs \<le> n"
    using that unfolding fits_signed_def
    by (smt (verit) diff_le_mono mult_le_mono2 power_increasing_iff)
  then show ?thesis using s(4) [OF _ assms(2)] by blast
qed

text \<open>C37: an INTEGER (s..e) with a negative lower bound is given the \<open>n\<close> octets that hold the absolute values of
  its bounds as unsigned numbers, and encoded in two's complement: a permitted value is encoded, in exactly \<open>n\<close> octets,
  if and only if it lies between \<open>-2^(8n-1)\<close> and \<open>2^(8n-1)-1\<close>, and is an error otherwise.\<close>

theorem oer_signed_range_encodable:
  assumes "s < 0" "s \<le> v" "v \<le> e" "in_type I128 s" "in_type I128 e" "range_in_bytes (const_new s e) = (sg, Some n)" "prim_wf it v"
  shows "(\<forall>u. contains (const_new s e) u \<longrightarrow> \<bar>u\<bar> < 256 ^ n) \<and>
    (if - (2 ^ (8 * n - 1)) \<le> v \<and> v < 2 ^ (8 * n - 1)
     then \<exists>octets. length octets = n \<and> be_sval octets = v \<and>
       oer_encode (oer_encode_integer (prim_ops it) t (ranged s e) v) = Some (Ok octets)
     else \<exists>needed > n. oer_encode (oer_encode_integer (prim_ops it) t (ranged s e) v) =
       Some (Err (EncodeError (MoreBytesThanExpected needed n) Coer)))"
proof -
  note n = range_octets [OF assms(6)]
  define m where "m = max \<bar>s\<bar> \<bar>e\<bar>"
  have layout: "octet_size_by_range (cast I128 m) = Some n" "sg"
    using assms(1,6) by (auto simp: const_new_def Let_def unsigned_abs_def max_def m_def)
  have "m < 256 ^ n"
  proof (cases "in_type I128 m")
    case True
    then have "cast I128 m = m" by (rule cast_id)
    then show ?thesis using octet_size_by_range_iff [OF layout(1)] by simp
  next
    case False
    then have "m = 2 ^ 127" using assms(4,5) by (auto simp: in_type_def type_min_def type_max_def m_def max_def)
    then have "octet_size_by_range (cast I128 m) = None" by simp code_simp
    then show ?thesis using layout(1) by simp
  qed
  then have "max \<bar>s\<bar> \<bar>e\<bar> < 256 ^ n" by (simp only: m_def)
  then have inside: "\<forall>u. contains (const_new s e) u \<longrightarrow> \<bar>u\<bar> < 256 ^ n" by (auto simp: const_new_def)
  let ?bs = "needed_slice (to_signed_bytes_be it v)"
  obtain bytes needed where b: "to_signed_bytes_be it v = (bytes, needed)" by (cases "to_signed_bytes_be it v")
  have wf: "in_type it v" "it = U128 \<Longrightarrow> v < 2 ^ 127" using assms(7) by (simp_all add: prim_wf_def)
  have needed: "needed = length ?bs" "take needed bytes = ?bs" using signed_needed_length [OF wf] b by (simp_all add: needed_slice_def)
  have fits: "length ?bs \<le> n \<longleftrightarrow> - (2 ^ (8 * n - 1)) \<le> v \<and> v < 2 ^ (8 * n - 1)"
    using signed_needed_iff [OF assms(7), of n] n by (auto simp: fits_signed_def)
  have bound: "in_bound (const_new s e) v" using assms(2,3) in_bound_contains [of v] assms(4,5)
    by (simp add: const_new_def in_type_def)
  have sign: "\<not> signed_type it \<Longrightarrow> \<not> v < 0" using wf(1) by (simp add: in_type_unsigned)
  let ?pad = "if v < 0 then 0xff else 0 :: u8"
  have enc: "oer_encode (oer_encode_integer (prim_ops it) t (ranged s e) v) =
    Some (if n < length ?bs then Err (EncodeError (MoreBytesThanExpected (length ?bs) n) Coer)
      else Ok (replicate (n - length ?bs) ?pad @ ?bs))"
    using n layout(2) bound needed b sign assms(6) ranged_layout [of s e]
    by (auto simp: oer_encode_def oer_encode_integer_def encode_integer_with_constraints_def
        encode_constrained_integer_with_padding_def prim_ops_def oer_steps eerr_def from_buffer_def oer_options_coer_def
        extensible_new_def value_new_def e_codec_def oer_enc_codec_def split: prod.splits)
  show ?thesis
  proof (cases "length ?bs \<le> n")
    case True
    note s = signed_slice_props [OF wf]
    have p: "?pad = sign_octet (be_sval ?bs)" using s(1) by (simp add: sign_octet_def)
    have "be_sval (replicate (n - length ?bs) ?pad @ ?bs) = v"
      using be_sval_sign_octets [OF s(2), of "n - length ?bs"] s(1) unfolding p by simp
    then show ?thesis using True enc fits inside
      by (auto intro!: exI [of _ "replicate (n - length ?bs) ?pad @ ?bs"])
  next
    case False
    then show ?thesis using enc fits inside by auto
  qed
qed

theorem oer_signed_range_encodable_witness:
  "\<exists>needed. 1 < needed \<and> oer_encode (oer_encode_integer (prim_ops I16) INTEGER (ranged (- 200) 200) 150) =
    Some (Err (EncodeError (MoreBytesThanExpected needed 1) Coer))"
proof -
  have "range_in_bytes (const_new (- 200) 200) = (True, Some 1)" by code_simp
  then show ?thesis
    using oer_signed_range_encodable [of "- 200" 150 200 True 1 I16 INTEGER]
    by (auto simp: in_type_def type_min_def type_max_def prim_wf_def)
qed

text \<open>Nine octets make \<open>Vec::with_capacity\<close> in \<open>decode_sequence_of\<close> panic: the quantity is not
  compared with the input that is left.\<close>

lemma oer_quantity_panics:
  "oer_decode oer_decoder_options_oer (oer_decode_sequence_of 8 (oer_decode_integer (prim_ops U64) constraints_NONE))
     [8, 0x10, 0, 0, 0, 0, 0, 0, 0] = None"
  by code_simp

definition nested_extension :: "bytes enc_result option" where
  "nested_extension = oer_encode (oer_encode_sequence ref_raw 1 1 0 True SEQUENCE
     (ebind (oer_encode_bool BOOL True)
       (oer_encode_extension_addition True
         (oer_encode_sequence ref_raw 1 1 0 True SEQUENCE
           (ebind (oer_encode_bool BOOL False)
             (oer_encode_extension_addition True (oer_encode_bool BOOL True)))))))"

text \<open>An extension addition that has an extension addition itself is encoded wrongly: the inner
  encoder uses the output of the outer one as its worker and writes the length of its bitmap there.\<close>

lemma oer_nested_extension_corrupted:
  "nested_extension \<noteq> Some (Ok [0x80, 0xff, 2, 7, 0x80, 7, 0x80, 0, 2, 7, 0x80, 1, 0xff])"
  by code_simp

end
