(* ===== verification/Bit_Vectors.thy ===== *)
theory Bit_Vectors
  imports Ber_Strings
begin

text \<open>
  The bit containers of the crate \<open>bitvec\<close> as the character strings and PER use them: lists of
  bits, most significant first, with the conversions of the crate as the parameter \<open>B\<close> and what
  it documents of them as \<open>bits_documented\<close>; the number a list of bits denotes.
\<close>

record bitvec_ops =
  bv_raw :: "bool list \<Rightarrow> bytes"
  bv_from_slice :: "bytes \<Rightarrow> bool list"
  bv_view_u32 :: "u32 \<Rightarrow> bool list"
  bv_load_be :: "bool list \<Rightarrow> nat"

definition bits_val :: "bool list \<Rightarrow> nat" where
  "bits_val bs = foldl (\<lambda>n b. 2 * n + of_bool b) 0 bs"

fun to_bits :: "nat \<Rightarrow> nat \<Rightarrow> bool list" where
  "to_bits 0 n = []"
| "to_bits (Suc k) n = to_bits k (n div 2) @ [odd n]"

definition bits_documented :: "bitvec_ops \<Rightarrow> bool" where
  "bits_documented B \<longleftrightarrow>
    bitvec_documented (bv_raw B) (bv_from_slice B) \<and>
    (\<forall>w. bv_view_u32 B w = map (bit w) (rev [0..<32])) \<and>
    (\<forall>bs. 0 < length bs \<and> length bs \<le> 64 \<longrightarrow> bv_load_be B bs = bits_val bs)"

text \<open>A concrete storage.\<close>

definition ref_bitvec :: bitvec_ops where
  "ref_bitvec =
    \<lparr>bv_raw = ref_raw, bv_from_slice = ref_from_vec, bv_view_u32 = (\<lambda>w. map (bit w) (rev [0..<32])),
     bv_load_be = bits_val\<rparr>"

lemma ref_bitvec_documented: "bits_documented ref_bitvec"
  by (simp add: bits_documented_def ref_bitvec_def bitvec_ref)

section \<open>The number of a list of bits\<close>

lemma bits_val_Nil [simp]: "bits_val [] = 0"
  by (simp add: bits_val_def)

lemma bits_val_snoc [simp]: "bits_val (bs @ [b]) = 2 * bits_val bs + of_bool b"
  by (simp add: bits_val_def)

lemma bits_val_append: "bits_val (xs @ ys) = bits_val xs * 2 ^ length ys + bits_val ys"
  by (induction ys rule: rev_induct) (simp_all add: append_assoc [symmetric] algebra_simps del: append_assoc)

lemma bits_val_Cons: "bits_val (b # bs) = of_bool b * 2 ^ length bs + bits_val bs"
  using bits_val_append [of "[b]" bs] bits_val_snoc [of "[]" b] by simp

lemma bits_val_less: "bits_val bs < 2 ^ length bs"
  by (induction bs rule: rev_induct) (auto simp: of_bool_def)

lemma length_to_bits [simp]: "length (to_bits k n) = k"
  by (induction k arbitrary: n) simp_all

lemma bits_val_to_bits: "bits_val (to_bits k n) = n mod 2 ^ k"
proof (induction k arbitrary: n)
  case (Suc k)
  have "n mod 2 ^ Suc k = 2 * (n div 2 mod 2 ^ k) + n mod 2" by (simp add: mod_mult2_eq)
  then show ?case using Suc by (simp add: odd_iff_mod_2_eq_one of_bool_def)
qed simp

lemma to_bits_bits_val [simp]: "to_bits (length bs) (bits_val bs) = bs"
  by (induction bs rule: rev_induct) simp_all

lemma bits_val_inj: "length xs = length ys \<Longrightarrow> bits_val xs = bits_val ys \<Longrightarrow> xs = ys"
  by (metis to_bits_bits_val)

lemma bits_val_replicate_False [simp]: "bits_val (replicate n False @ bs) = bits_val bs"
  by (induction n) (simp_all add: bits_val_Cons)

lemma to_bits_eqI: "length bs = k \<Longrightarrow> bits_val bs = n \<Longrightarrow> to_bits k n = bs"
  using to_bits_bits_val by blast

lemma drop_eq_to_bits:
  assumes "bits_val bs < 2 ^ k" "k \<le> length bs"
  shows "drop (length bs - k) bs = to_bits k (bits_val bs)"
proof -
  let ?n = "length bs - k"
  have "bits_val bs = bits_val (take ?n bs) * 2 ^ k + bits_val (drop ?n bs)"
    using bits_val_append [of "take ?n bs" "drop ?n bs"] assms(2) by simp
  moreover from this have "bits_val (take ?n bs) = 0"
    using assms(1) by (metis add_lessD1 less_mult_imp_div_less mult.commute nonzero_mult_div_cancel_right
        not_gr_zero less_one mult_less_cancel2 mult_1 not_less)
  ultimately show ?thesis using assms(2) by (intro to_bits_eqI [symmetric]) simp_all
qed

lemma bits_val_bits:
  "bits_val (map (bit n) (rev [0..<k])) = take_bit k n" for n :: nat
proof (induction k)
  case (Suc k)
  have "take_bit (Suc k) n = of_bool (bit n k) * 2 ^ k + take_bit k n"
    by (simp add: take_bit_Suc_from_most mult.commute)
  then show ?case using Suc by (simp add: bits_val_Cons)
qed simp

lemma map_bit_word: "map (bit w) (rev [0..<k]) = to_bits k (unat w)" for w :: u32
proof -
  have "bit w = bit (unat w)" by (rule ext) (simp add: bit_unsigned_iff)
  then have "bits_val (map (bit w) (rev [0..<k])) = unat w mod 2 ^ k"
    by (simp only: bits_val_bits take_bit_eq_mod)
  then show ?thesis using bits_val_to_bits [of k "unat w"] by (intro bits_val_inj) simp_all
qed

lemma bits_val_msb: "bits_val (msb_bits b) = unat b"
proof -
  have "msb_bits b = map (bit (unat b)) (rev [0..<8])"
    by (simp add: msb_bits_def bit_unsigned_iff upt_rec numeral_nat)
  then have "bits_val (msb_bits b) = take_bit 8 (unat b)" by (simp only: bits_val_bits)
  also have "unat b < 2 ^ 8" using unsigned_less [of b] by simp
  then have "take_bit 8 (unat b) = unat b" by (simp only: take_bit_nat_eq_self)
  finally show ?thesis .
qed

lemma bits_val_octets: "bits_val (concat (map msb_bits bs)) = nat (be_val bs)"
proof (induction bs rule: rev_induct)
  case (snoc b bs)
  have "nat (be_val bs * 256 + uint b) = nat (be_val bs) * 256 + unat b"
    by (simp add: nat_add_distrib nat_mult_distrib)
  then show ?case using snoc by (simp add: bits_val_append bits_val_msb)
qed simp

section \<open>What the crate documents\<close>

lemma bits_documentedD:
  assumes "bits_documented B"
  shows "bv_from_slice B bs = concat (map msb_bits bs)"
    and "length (bv_from_slice B bs) = 8 * length bs"
    and "bits_val (bv_from_slice B bs) = nat (be_val bs)"
    and "0 < length bits \<Longrightarrow> length bits \<le> 64 \<Longrightarrow> bv_load_be B bits = bits_val bits"
    and "length (bv_raw B bits) = (length bits + 7) div 8"
    and "take (length bits) (bv_from_slice B (bv_raw B bits)) = bits"
    and "bv_view_u32 B w = to_bits 32 (unat w)"
proof -
  show s: "bv_from_slice B bs = concat (map msb_bits bs)" for bs
    using assms unfolding bits_documented_def bitvec_documented_def by blast
  show "length (bv_from_slice B bs) = 8 * length bs" "bits_val (bv_from_slice B bs) = nat (be_val bs)"
    by (simp_all add: s bits_val_octets)
  show "0 < length bits \<Longrightarrow> length bits \<le> 64 \<Longrightarrow> bv_load_be B bits = bits_val bits"
    using assms unfolding bits_documented_def by blast
  show "length (bv_raw B bits) = (length bits + 7) div 8"
    and "take (length bits) (bv_from_slice B (bv_raw B bits)) = bits"
    using assms unfolding bits_documented_def bitvec_documented_def by blast+
  have "bv_view_u32 B w = map (bit w) (rev [0..<32])" using assms unfolding bits_documented_def by blast
  then show "bv_view_u32 B w = to_bits 32 (unat w)" by (simp only: map_bit_word)
qed

lemma raw_from_slice:
  assumes "bits_documented B"
  shows "bv_raw B (bv_from_slice B bs) = bs"
proof -
  note B = bits_documentedD [OF assms]
  let ?r = "bv_raw B (bv_from_slice B bs)"
  have l: "length ?r = length bs" using B(5) [of "bv_from_slice B bs"] by (simp add: B(2))
  have "bv_from_slice B ?r = bv_from_slice B bs"
    using B(6) [of "bv_from_slice B bs"] l by (simp add: B(2))
  then have "be_val ?r = be_val bs" using B(3) by (metis be_val_nonneg eq_nat_nat_iff)
  then show ?thesis using l by (intro be_val_inj)
qed

lemma be_val_raw:
  assumes "bits_documented B" "length bits mod 8 = 0"
  shows "be_val (bv_raw B bits) = int (bits_val bits)" "length (bv_raw B bits) = length bits div 8"
    "bv_from_slice B (bv_raw B bits) = bits"
proof -
  note B = bits_documentedD [OF assms(1)]
  show l: "length (bv_raw B bits) = length bits div 8" using assms(2) by (simp add: B(5)) presburger
  then show s: "bv_from_slice B (bv_raw B bits) = bits"
    using B(6) [of bits] B(2) [of "bv_raw B bits"] assms(2) by (simp add: mod_0_imp_dvd)
  show "be_val (bv_raw B bits) = int (bits_val bits)" using B(3) [of "bv_raw B bits"] s by simp
qed

end
