(* ===== verification/Restricted_Strings.thy ===== *)
theory Restricted_Strings
  imports Bit_Vectors
begin

text \<open>
  \<open>types/strings.rs\<close>, \<open>types/strings/constrained.rs\<close> and the restricted character string types
  under \<open>types/strings/\<close>.  A string is the list of its characters; the type \<open>T\<close> of a
  character has \<open>char_size\<close> octets.  \<open>B\<close> stands for the conversions of the crate \<open>bitvec\<close>.  The outer \<open>option\<close> is \<open>None\<close> where the code panics.
\<close>

section \<open>Character sets\<close>

datatype character_set_name = Bmp | General | Graphic | IA5 | Numeric | Printable | Teletex | Visible

definition bytes_to_chars :: "bytes \<Rightarrow> u32 list" where
  "bytes_to_chars input = map ucast input"

text \<open>A contiguous part of one of the tables, from \<open>a\<close> to \<open>b\<close> inclusive.\<close>

definition codes :: "nat \<Rightarrow> nat \<Rightarrow> u32 list" where
  "codes a b = map word_of_nat [a..<Suc b]"

definition ascii :: "string \<Rightarrow> bytes" where "ascii s = map of_char s"

definition visible_character_set :: "u32 list" where "visible_character_set = codes 0x20 0x7E"
definition ia5_character_set :: "u32 list" where "ia5_character_set = codes 0x00 0x7F"
definition general_character_set :: "u32 list" where
  "general_character_set = codes 0x00 0x1F @ codes 0x20 0x20 @ codes 0x21 0x7E @ codes 0x7F 0x7F @ codes 0xA1 0xFF"
definition graphic_character_set :: "u32 list" where
  "graphic_character_set = codes 0x20 0x20 @ codes 0x21 0x7E @ codes 0xA1 0xFF"
definition numeric_character_set :: "u32 list" where
  "numeric_character_set = bytes_to_chars (ascii '' 0123456789'')"
definition printable_character_set :: "u32 list" where
  "printable_character_set = bytes_to_chars (ascii
    ''ABCDEFGHIJKLMNOPQRSTUVWXYZabcdefghijklmnopqrstuvwxyz0123456789 '' @ [0x27] @ ascii ''()+,-./:=?'')"
definition bmp_character_set :: "u32 list" where "bmp_character_set = codes 0x0000 0xFFFD"
definition teletex_character_set :: "u32 list" where "teletex_character_set = [0]"

definition CHARACTER_SET :: "character_set_name \<Rightarrow> u32 list" where
  "CHARACTER_SET S =
    (case S of
       Visible \<Rightarrow> visible_character_set | IA5 \<Rightarrow> ia5_character_set | General \<Rightarrow> general_character_set
     | Graphic \<Rightarrow> graphic_character_set | Numeric \<Rightarrow> numeric_character_set
     | Printable \<Rightarrow> printable_character_set | Bmp \<Rightarrow> bmp_character_set | Teletex \<Rightarrow> teletex_character_set)"

fun char_size :: "character_set_name \<Rightarrow> nat" where
  "char_size Bmp = 2"
| "char_size Teletex = 4"
| "char_size _ = 1"

definition CHARACTER_SET_WIDTH :: "character_set_name \<Rightarrow> nat" where
  "CHARACTER_SET_WIDTH S = log2 (int (length (CHARACTER_SET S)))"

definition contains_char :: "character_set_name \<Rightarrow> u32 \<Rightarrow> bool" where
  "contains_char S ch = (if S = Teletex then True else List.member (CHARACTER_SET S) ch)"

text \<open>\<open>push_char\<close> casts to the type of a character.\<close>

definition push_char :: "character_set_name \<Rightarrow> u32 list \<Rightarrow> u32 \<Rightarrow> u32 list" where
  "push_char S string ch = string @ [take_bit (8 * char_size S) ch]"

section \<open>Octets\<close>

fun chunks_fuel :: "nat \<Rightarrow> nat \<Rightarrow> 'a list \<Rightarrow> 'a list list" where
  "chunks_fuel 0 n xs = []"
| "chunks_fuel (Suc k) n xs = (if length xs < n then [] else take n xs # chunks_fuel k n (drop n xs))"

text \<open>\<open>chunks_exact\<close> panics for size 0; the length of the list bounds the number of chunks.\<close>

definition chunks_exact :: "nat \<Rightarrow> 'a list \<Rightarrow> 'a list list option" where
  "chunks_exact n xs = (if n = 0 then None else Some (chunks_fuel (length xs) n xs))"

text \<open>\<open>T::from_u8\<close>, \<open>from_u16\<close> and \<open>from_u32\<close> fail if the value does not fit; three octets do not
  convert to an array of four, and the default is 0.\<close>

definition process_chunk :: "character_set_name \<Rightarrow> nat \<Rightarrow> bytes \<Rightarrow> u32 option" where
  "process_chunk S width chunk =
    (let v = (if width = 3 then 0 else be_val chunk)
     in if v < 2 ^ (8 * char_size S) then Some (word_of_int v) else None)"

fun check_chunks :: "character_set_name \<Rightarrow> nat \<Rightarrow> bytes list \<Rightarrow> u32 list \<Rightarrow> (permitted_alphabet_error, u32 list) result" where
  "check_chunks S width [] vec = Ok vec"
| "check_chunks S width (chunk # cs) vec =
    (case process_chunk S width chunk of
       Some character \<Rightarrow>
         if contains_char S character then check_chunks S width cs (vec @ [character])
         else Err (InvalidRestrictedString character)
     | None \<Rightarrow> check_chunks S width cs vec)"

definition try_from_slice_with_width ::
    "character_set_name \<Rightarrow> bytes \<Rightarrow> nat \<Rightarrow> (permitted_alphabet_error, u32 list) result option" where
  "try_from_slice_with_width S input width =
    (if width = 0 then Some (Err AlphabetOther)
     else if length input mod width \<noteq> 0 then Some (Err (InvalidData (length input) width))
     else if width > 4 then None
     else Option.bind (chunks_exact width input) (\<lambda>cs. Some (check_chunks S width cs [])))"

definition try_from_slice :: "character_set_name \<Rightarrow> bytes \<Rightarrow> (permitted_alphabet_error, u32 list) result option" where
  "try_from_slice S input = try_from_slice_with_width S input (char_size S)"

text \<open>The octets of a string: \<open>as_iso646_bytes\<close> and \<open>as_bytes\<close> for characters of one octet,
  \<open>to_bytes\<close> for the others.\<close>

definition string_bytes :: "character_set_name \<Rightarrow> u32 list \<Rightarrow> bytes" where
  "string_bytes S v = concat (map (\<lambda>ch. be_bytes (char_size S) (uint ch)) v)"

section \<open>Bit strings\<close>

text \<open>\<open>2u32.pow(width)\<close> wraps.\<close>

definition should_be_indexed :: "nat \<Rightarrow> u32 list \<Rightarrow> bool" where
  "should_be_indexed width character_set = ((2 :: u32) ^ width \<le> fold max character_set 0)"

text \<open>\<open>view_bits::<Msb0>()[(u32::BITS - width)..]\<close> and \<open>load_be::<u32>()\<close>.\<close>

definition low_bits :: "bitvec_ops \<Rightarrow> nat \<Rightarrow> u32 \<Rightarrow> bool list option" where
  "low_bits B width w = (if width \<le> 32 then Some (drop (32 - width) (bv_view_u32 B w)) else None)"

definition load_u32 :: "bitvec_ops \<Rightarrow> bool list \<Rightarrow> u32 option" where
  "load_u32 B bs = (if 0 < length bs \<and> length bs \<le> 32 then Some (word_of_nat (bv_load_be B bs)) else None)"

definition build_index_map :: "character_set_name \<Rightarrow> (u32 \<times> u32) list" where
  "build_index_map S = fold (\<lambda>(i, e). bt_insert e (word_of_nat i)) (enumerate 0 (CHARACTER_SET S)) []"

definition enumerate_map :: "u32 list \<Rightarrow> (u32 \<times> u32) list" where
  "enumerate_map alphabet = fold (\<lambda>(i, e). bt_insert (word_of_nat i) e) (enumerate 0 alphabet) []"

definition build_character_map :: "character_set_name \<Rightarrow> (u32 \<times> u32) list" where
  "build_character_map S = enumerate_map (CHARACTER_SET S)"

fun append_chars :: "('c \<Rightarrow> bool list option) \<Rightarrow> 'c list \<Rightarrow> bool list option" where
  "append_chars f [] = Some []"
| "append_chars f (ch # v) = Option.bind (f ch) (\<lambda>b. Option.bind (append_chars f v) (\<lambda>bs. Some (b @ bs)))"

definition to_index_string :: "bitvec_ops \<Rightarrow> character_set_name \<Rightarrow> u32 list \<Rightarrow> bool list option" where
  "to_index_string B S =
    append_chars (\<lambda>ch. Option.bind (map_of (build_index_map S) ch) (low_bits B (CHARACTER_SET_WIDTH S)))"

definition to_bit_string :: "bitvec_ops \<Rightarrow> character_set_name \<Rightarrow> u32 list \<Rightarrow> bool list option" where
  "to_bit_string B S = append_chars (low_bits B (CHARACTER_SET_WIDTH S))"

definition to_index_or_value_bitstring :: "bitvec_ops \<Rightarrow> character_set_name \<Rightarrow> u32 list \<Rightarrow> bool list option" where
  "to_index_or_value_bitstring B S v =
    (if should_be_indexed (CHARACTER_SET_WIDTH S) (CHARACTER_SET S) then to_index_string B S v else to_bit_string B S v)"

definition next_power_of_two :: "nat \<Rightarrow> nat" where
  "next_power_of_two n = (if n \<le> 1 then 1 else 2 ^ (log2 (int n)))"

definition is_power_of_two :: "nat \<Rightarrow> bool" where
  "is_power_of_two n = (n \<noteq> 0 \<and> next_power_of_two n = n)"

text \<open>\<open>if width.is_power_of_two() { width } else { width.next_power_of_two() }\<close>.\<close>

definition round_width :: "nat \<Rightarrow> nat" where
  "round_width width = (if is_power_of_two width then width else next_power_of_two width)"

definition octet_aligned_char_width :: "character_set_name \<Rightarrow> nat" where
  "octet_aligned_char_width S = round_width (CHARACTER_SET_WIDTH S)"

definition to_octet_aligned_index_string :: "bitvec_ops \<Rightarrow> character_set_name \<Rightarrow> u32 list \<Rightarrow> bytes option" where
  "to_octet_aligned_index_string B S v =
    map_option (bv_raw B)
      (append_chars
        (\<lambda>ch. Option.bind (Option.bind (map_of (build_index_map S) ch) (low_bits B (CHARACTER_SET_WIDTH S)))
           (\<lambda>b. Some (replicate (octet_aligned_char_width S - CHARACTER_SET_WIDTH S) False @ b))) v)"

definition to_octet_aligned_string :: "bitvec_ops \<Rightarrow> character_set_name \<Rightarrow> u32 list \<Rightarrow> bytes option" where
  "to_octet_aligned_string B S v =
    map_option (bv_raw B) (append_chars (low_bits B (octet_aligned_char_width S)) v)"

fun bits_loop :: "bitvec_ops \<Rightarrow> character_set_name \<Rightarrow> bool list list \<Rightarrow> u32 list \<Rightarrow>
    (permitted_alphabet_error, u32 list) result option" where
  "bits_loop B S [] string = Some (Ok string)"
| "bits_loop B S (ch # cs) string =
    Option.bind (load_u32 B ch) (\<lambda>ch.
      if contains_char S ch then bits_loop B S cs (push_char S string ch)
      else Some (Err (InvalidRestrictedString ch)))"

definition try_from_bits :: "bitvec_ops \<Rightarrow> character_set_name \<Rightarrow> bool list \<Rightarrow> nat \<Rightarrow>
    (permitted_alphabet_error, u32 list) result option" where
  "try_from_bits B S bits character_width =
    (if character_width = 0 \<or> length bits mod character_width \<noteq> 0
     then Some (Err (InvalidData (length bits) character_width))
     else Option.bind (chunks_exact character_width bits) (\<lambda>cs. bits_loop B S cs []))"

fun index_loop :: "bitvec_ops \<Rightarrow> character_set_name \<Rightarrow> (u32 \<times> u32) list \<Rightarrow> bool list list \<Rightarrow> u32 list \<Rightarrow>
    (permitted_alphabet_error, u32 list) result option" where
  "index_loop B S alphabet [] string = Some (Ok string)"
| "index_loop B S alphabet (ch # cs) string =
    Option.bind (load_u32 B ch) (\<lambda>i.
      case map_of alphabet i of
        Some c \<Rightarrow> index_loop B S alphabet cs (push_char S string c)
      | None \<Rightarrow> Some (Err (IndexNotFound (unat i))))"

text \<open>The free function of \<open>constrained.rs\<close>; \<open>alphabet\<close> is an ordered map.\<close>

definition try_from_alphabet_map :: "bitvec_ops \<Rightarrow> character_set_name \<Rightarrow> bool list \<Rightarrow> (u32 \<times> u32) list \<Rightarrow>
    (permitted_alphabet_error, u32 list) result option" where
  "try_from_alphabet_map B S input alphabet =
    (let width = log2 (int (length alphabet)) in
     if should_be_indexed width (map snd alphabet)
     then Option.bind (chunks_exact width input) (\<lambda>cs. index_loop B S alphabet cs [])
     else try_from_bits B S input width)"

definition try_from_permitted_alphabet :: "bitvec_ops \<Rightarrow> character_set_name \<Rightarrow> bool list \<Rightarrow>
    (u32 \<times> u32) list option \<Rightarrow> (permitted_alphabet_error, u32 list) result option" where
  "try_from_permitted_alphabet B S input alphabet =
    try_from_alphabet_map B S input
      (case alphabet of Some m \<Rightarrow> m | None \<Rightarrow> build_character_map S)"

section \<open>Strings over an alphabet known at run time\<close>

record dyn_constrained_character_string =
  dyn_character_set :: "(u32 \<times> u32) list"
  dyn_buffer :: "bool list"

fun indexed_chars :: "bitvec_ops \<Rightarrow> nat \<Rightarrow> (u32 \<times> u32) list \<Rightarrow> u32 list \<Rightarrow> bool list \<Rightarrow>
    (permitted_alphabet_error, bool list) result option" where
  "indexed_chars B width alphabet [] buffer = Some (Ok buffer)"
| "indexed_chars B width alphabet (ch # data) buffer =
    (case map_of alphabet ch of
       None \<Rightarrow> Some (Err (CharacterNotFound ch))
     | Some i \<Rightarrow>
         Option.bind (low_bits B width i) (\<lambda>b. indexed_chars B width alphabet data (buffer @ b)))"

definition dyn_from_bits :: "bitvec_ops \<Rightarrow> u32 list \<Rightarrow> u32 list \<Rightarrow>
    (permitted_alphabet_error, dyn_constrained_character_string) result option" where
  "dyn_from_bits B data character_set =
    (let char_width = log2 (int (length character_set)) in
     if should_be_indexed char_width character_set then
       let alphabet = fold (\<lambda>(i, a). bt_insert a (word_of_nat i)) (enumerate 0 character_set) [] in
       map_option (map_ok (\<lambda>buffer. \<lparr>dyn_character_set = alphabet, dyn_buffer = buffer\<rparr>))
         (indexed_chars B char_width alphabet data [])
     else
       map_option (\<lambda>buffer. Ok \<lparr>dyn_character_set = enumerate_map character_set, dyn_buffer = buffer\<rparr>)
         (append_chars (low_bits B char_width) data))"

definition dyn_character_width :: "dyn_constrained_character_string \<Rightarrow> nat" where
  "dyn_character_width self = log2 (int (length (dyn_character_set self)))"

text \<open>Indexing with a range of characters; a range beyond the buffer panics.\<close>

definition dyn_index_range :: "dyn_constrained_character_string \<Rightarrow> nat \<Rightarrow> nat \<Rightarrow> bool list option" where
  "dyn_index_range self start end =
    (let width = dyn_character_width self in
     if start * width \<le> end * width \<and> end * width \<le> length (dyn_buffer self)
     then Some (drop (start * width) (take (end * width) (dyn_buffer self))) else None)"

end
