(* ===== verification/Per_Encoder.thy ===== *)
theory Per_Encoder
  imports Restricted_Strings Integer_Type Asn_Fields Ber_Encoder
begin

text \<open>
  \<open>per/enc.rs\<close> and \<open>per.rs\<close>: the encoder of UPER and APER.  The output is a list of bits.  The
  const generics \<open>RCL\<close> and \<open>ECL\<close> are the lengths of the two bit fields.  Operations that write to a
  buffer of their own take and return that buffer.  The outer \<open>option\<close> is \<open>None\<close> where the code
  panics.
\<close>

definition SIXTEEN_K :: nat where "SIXTEEN_K = 16384"
definition THIRTY_TWO_K :: nat where "THIRTY_TWO_K = 32768"
definition FOURTY_EIGHT_K :: nat where "FOURTY_EIGHT_K = 49152"
definition SIXTY_FOUR_K :: nat where "SIXTY_FOUR_K = 65536"

definition SMALL_UNSIGNED_CONSTRAINT :: constraints where
  "SMALL_UNSIGNED_CONSTRAINT = constraints_new [CValue (extensible_new (value_new (const_new 0 63)))]"

definition LARGE_UNSIGNED_CONSTRAINT :: constraints where
  "LARGE_UNSIGNED_CONSTRAINT = constraints_new [CValue (extensible_new (value_new (start_from 0)))]"

definition range_from_len :: "nat \<Rightarrow> int" where
  "range_from_len bit_length = cast I128 (cast I128 (2 ^ bit_length) - 1)"

section \<open>ENUMERATED\<close>

text \<open>The associated constants of the trait \<open>Enumerated\<close>.\<close>

record 'e enumerated =
  en_VARIANTS :: "'e list"
  en_EXTENDED_VARIANTS :: "'e list option"
  en_DISCRIMINANTS :: "('e \<times> int) list"
  en_EXTENDED_DISCRIMINANTS :: "('e \<times> int) list option"

fun position :: "('e \<Rightarrow> bool) \<Rightarrow> 'e list \<Rightarrow> nat option" where
  "position p [] = None"
| "position p (x # xs) = (if p x then Some 0 else map_option Suc (position p xs))"

definition get :: "'a list \<Rightarrow> nat \<Rightarrow> 'a option" where
  "get xs i = (if i < length xs then Some (xs ! i) else None)"

definition variance :: "'e enumerated \<Rightarrow> nat" where
  "variance E = length (en_VARIANTS E)"

definition extended_variance :: "'e enumerated \<Rightarrow> nat" where
  "extended_variance E = (case en_EXTENDED_VARIANTS E of None \<Rightarrow> 0 | Some vs \<Rightarrow> length vs)"

definition complete_variance :: "'e enumerated \<Rightarrow> nat" where
  "complete_variance E = variance E + extended_variance E"

definition is_extended_variant :: "'e enumerated \<Rightarrow> 'e \<Rightarrow> bool" where
  "is_extended_variant E v = (case en_EXTENDED_VARIANTS E of None \<Rightarrow> False | Some vs \<Rightarrow> List.member vs v)"

definition enumeration_index :: "'e enumerated \<Rightarrow> 'e \<Rightarrow> nat option" where
  "enumeration_index E v =
    (if is_extended_variant E v then Option.bind (en_EXTENDED_VARIANTS E) (position (\<lambda>lhs. lhs = v))
     else position (\<lambda>lhs. lhs = v) (en_VARIANTS E))"

definition all_discriminants :: "'e enumerated \<Rightarrow> ('e \<times> int) list" where
  "all_discriminants E = en_DISCRIMINANTS E @ (case en_EXTENDED_DISCRIMINANTS E of None \<Rightarrow> [] | Some ds \<Rightarrow> ds)"

definition discriminant :: "'e enumerated \<Rightarrow> 'e \<Rightarrow> int option" where
  "discriminant E v = map_option snd (List.find (\<lambda>(lhs, n). lhs = v) (all_discriminants E))"

definition from_discriminant :: "'e enumerated \<Rightarrow> int \<Rightarrow> 'e option" where
  "from_discriminant E n = map_option fst (List.find (\<lambda>(v, m). n = m) (all_discriminants E))"

definition from_enumeration_index :: "'e enumerated \<Rightarrow> nat \<Rightarrow> 'e option" where
  "from_enumeration_index E i = get (en_VARIANTS E) i"

definition from_extended_enumeration_index :: "'e enumerated \<Rightarrow> nat \<Rightarrow> 'e option" where
  "from_extended_enumeration_index E i = Option.bind (en_EXTENDED_VARIANTS E) (\<lambda>vs. get vs i)"

section \<open>The encoder\<close>

record per_encoder_options =
  pe_aligned :: bool
  pe_set_encoding :: bool

definition per_enc_aligned :: per_encoder_options where
  "per_enc_aligned = \<lparr>pe_aligned = True, pe_set_encoding = False\<rparr>"

definition per_enc_unaligned :: per_encoder_options where
  "per_enc_unaligned = \<lparr>pe_aligned = False, pe_set_encoding = False\<rparr>"

definition per_without_set_encoding :: "per_encoder_options \<Rightarrow> per_encoder_options" where
  "per_without_set_encoding self = self\<lparr>pe_set_encoding := False\<rparr>"

definition per_enc_current_codec :: "per_encoder_options \<Rightarrow> codec" where
  "per_enc_current_codec self = (if pe_aligned self then Aper else Uper)"

type_synonym bits = "bool list"

record per_encoder =
  p_options :: per_encoder_options
  p_output :: bits
  p_set_output :: "(tag \<times> bits) list"
  p_number_optional_default_fields :: nat
  p_root_bitfield :: "nat \<times> (bool \<times> tag) list"
  p_extension_bitfield :: "nat \<times> bool list"
  p_extension_fields :: "bytes option list"
  p_is_extension_sequence :: bool
  p_parent_output_length :: "nat option"

type_synonym per_encode_fn = "per_encoder \<Rightarrow> per_encoder enc_result option"

text \<open>The part of a buffer for a range of positions, in the closures passed to \<open>encode_length\<close>.\<close>

type_synonym range_fn = "nat \<Rightarrow> nat \<Rightarrow> bits enc_result option"

definition per_encoder_new :: "nat \<Rightarrow> nat \<Rightarrow> per_encoder_options \<Rightarrow> per_encoder" where
  "per_encoder_new RCL ECL options =
    \<lparr>p_options = options, p_output = [], p_set_output = [], p_number_optional_default_fields = 0,
     p_root_bitfield = (0, replicate RCL (False, new_private 0)), p_extension_bitfield = (0, replicate ECL False),
     p_extension_fields = replicate ECL None, p_is_extension_sequence = False, p_parent_output_length = None\<rparr>"

definition p_codec :: "per_encoder \<Rightarrow> codec" where
  "p_codec self = per_enc_current_codec (p_options self)"

text \<open>The \<open>?\<close> operator.\<close>

definition pbind :: "('e, 'a) result option \<Rightarrow> ('a \<Rightarrow> ('e, 'b) result option) \<Rightarrow> ('e, 'b) result option" where
  "pbind r f = (case r of None \<Rightarrow> None | Some (Inl e) \<Rightarrow> Some (Err e) | Some (Inr x) \<Rightarrow> f x)"

lemma pbind_simps [simp]: "pbind None f = None" "pbind (Some (Inl e)) f = Some (Inl e)" "pbind (Some (Inr x)) f = f x"
  by (simp_all add: pbind_def)

lemma pbind_cong [fundef_cong]:
  "r = r' \<Longrightarrow> (\<And>x. r' = Some (Inr x) \<Longrightarrow> f x = g x) \<Longrightarrow> pbind r f = pbind r' g"
  by (auto simp: pbind_def split: option.splits sum.splits)

definition output_length :: "per_encoder \<Rightarrow> nat" where
  "output_length self =
    (let n = length (p_output self);
         n = n + of_bool (p_is_extension_sequence self);
         n = n + p_number_optional_default_fields self;
         n = n + (case p_parent_output_length self of Some k \<Rightarrow> k | None \<Rightarrow> 0)
     in if pe_set_encoding (p_options self) then n + sum_list (map (\<lambda>(t, b). length b) (p_set_output self)) else n)"

definition new_set_encoder :: "nat \<Rightarrow> nat \<Rightarrow> fields \<Rightarrow> bool \<Rightarrow> per_encoder \<Rightarrow> per_encoder" where
  "new_set_encoder RL EL FIELDS is_extensible self =
    (per_encoder_new RL EL ((p_options self)\<lparr>pe_set_encoding := True\<rparr>))
      \<lparr>p_number_optional_default_fields := number_optional_default FIELDS,
       p_is_extension_sequence := is_extensible, p_parent_output_length := Some (output_length self)\<rparr>"

definition new_sequence_encoder :: "nat \<Rightarrow> nat \<Rightarrow> fields \<Rightarrow> bool \<Rightarrow> per_encoder \<Rightarrow> per_encoder" where
  "new_sequence_encoder RL EL FIELDS is_extensible self =
    (per_encoder_new RL EL (per_without_set_encoding (p_options self)))
      \<lparr>p_number_optional_default_fields := number_optional_default FIELDS,
       p_is_extension_sequence := is_extensible, p_parent_output_length := Some (output_length self)\<rparr>"

text \<open>\<open>mem::take\<close> leaves an empty output behind.\<close>

definition bitstring_output :: "per_encoder \<Rightarrow> bits \<times> per_encoder" where
  "bitstring_output self =
    (if pe_set_encoding (p_options self) then (concat (map snd (p_set_output self)), self)
     else (p_output self, self\<lparr>p_output := []\<rparr>))"

definition force_pad_to_alignment :: "bits \<Rightarrow> bits" where
  "force_pad_to_alignment buffer =
    (if length buffer mod 8 \<noteq> 0 then buffer @ replicate (8 - length buffer mod 8) False else buffer)"

definition per_output :: "bitvec_ops \<Rightarrow> per_encoder \<Rightarrow> bytes \<times> per_encoder" where
  "per_output B self =
    (let (output, self) = bitstring_output self in (bv_raw B (force_pad_to_alignment output), self))"

definition per_set_presence :: "tag \<Rightarrow> bool \<Rightarrow> per_encode_fn" where
  "per_set_presence t b self =
    (let (i, arr) = p_root_bitfield self in
     if length arr > 0 then
       (if p_number_optional_default_fields self < i + 1 then Some (Ok self)
        else if i < length arr then Some (Ok (self\<lparr>p_root_bitfield := (i + 1, arr[i := (b, t)])\<rparr>))
        else None)
     else Some (Ok self))"

definition per_set_extension_presence :: "bool \<Rightarrow> per_encode_fn" where
  "per_set_extension_presence b self =
    (let (i, arr) = p_extension_bitfield self in
     if length arr > 0 then
       (if i < length arr then Some (Ok (self\<lparr>p_extension_bitfield := (i + 1, arr[i := b])\<rparr>)) else None)
     else Some (Ok self))"

definition pad_to_alignment :: "per_encoder \<Rightarrow> bits \<Rightarrow> bits" where
  "pad_to_alignment self buffer =
    (if pe_aligned (p_options self) then
       let n = output_length self + length buffer in
       if n mod 8 \<noteq> 0 then buffer @ replicate (8 - n mod 8) False else buffer
     else buffer)"

text \<open>The bit is pushed to the buffer; the result tells whether the value is an extended one.\<close>

definition encode_extensible_bit :: "constraints \<Rightarrow> bits \<Rightarrow> bool \<Rightarrow> bool \<times> bits" where
  "encode_extensible_bit cs buffer extensible_condition =
    (if constraints_extensible cs then (\<not> extensible_condition, buffer @ [\<not> extensible_condition])
     else (False, buffer))"

text \<open>The condition of the strings and of SEQUENCE OF: an extensible size constraint holds.\<close>

definition size_in_root :: "constraints \<Rightarrow> nat \<Rightarrow> bool" where
  "size_in_root cs n =
    (case c_size cs of Some sz \<Rightarrow> ext_list sz \<noteq> None \<and> contains (constraint sz) (int n) | None \<Rightarrow> False)"

text \<open>The two ways \<open>extend\<close> is called: with a buffer and with a single bit.\<close>

definition per_extend :: "tag \<Rightarrow> bits \<Rightarrow> per_encoder \<Rightarrow> per_encoder" where
  "per_extend t input self =
    (if pe_set_encoding (p_options self) then self\<lparr>p_set_output := bt_insert t input (p_set_output self)\<rparr>
     else self\<lparr>p_output := p_output self @ input\<rparr>)"

section \<open>Lengths\<close>

definition encode_non_negative_binary_integer :: "bitvec_ops \<Rightarrow> bits \<Rightarrow> int \<Rightarrow> bytes \<Rightarrow> bits" where
  "encode_non_negative_binary_integer B buffer rng bytes =
    (let total_bits = log2 rng;
         bits = bv_from_slice B bytes;
         bits = (if total_bits > length bits then replicate (total_bits - length bits) False @ bits
                 else if total_bits < length bits then drop (length bits - total_bits) bits
                 else bits)
     in buffer @ bits)"

text \<open>The cases of \<open>encode_unconstrained_length\<close> below 16K.  The closure gets the positions from 0,
  also for the last fragment of a longer value.\<close>

definition encode_short_length :: "bitvec_ops \<Rightarrow> per_encoder \<Rightarrow> bits \<Rightarrow> nat \<Rightarrow> range_fn \<Rightarrow> bits enc_result option" where
  "encode_short_length B self buffer len encode_fn =
    (let buffer = pad_to_alignment self buffer in
     if len \<le> 127 then
       let buffer = buffer @ bv_from_slice B [word_of_nat len]
       in pbind (encode_fn 0 len) (\<lambda>b. Some (Ok (buffer @ b)))
     else
       let buffer = buffer @ bv_from_slice B (be_bytes 2 (uint (0x8000 OR (word_of_nat len :: 16 word))))
       in pbind (encode_fn 0 len) (\<lambda>b. Some (Ok (buffer @ b))))"

definition fragment_of :: "nat \<Rightarrow> u8 \<times> nat" where
  "fragment_of len =
    (if len \<ge> SIXTY_FOUR_K then (4, SIXTY_FOUR_K)
     else if len \<ge> FOURTY_EIGHT_K then (3, FOURTY_EIGHT_K)
     else if len \<ge> THIRTY_TWO_K then (2, THIRTY_TWO_K)
     else (1, SIXTEEN_K))"

lemma fragment_of_bounds: "0 < snd (fragment_of len)" "SIXTEEN_K \<le> snd (fragment_of len)" "SIXTEEN_K \<le> len \<Longrightarrow> snd (fragment_of len) \<le> len"
  by (simp_all add: fragment_of_def SIXTEEN_K_def THIRTY_TWO_K_def FOURTY_EIGHT_K_def SIXTY_FOUR_K_def)

text \<open>The loop over the fragments.\<close>

function fragment_loop :: "bitvec_ops \<Rightarrow> per_encoder \<Rightarrow> bits \<Rightarrow> nat \<Rightarrow> nat \<Rightarrow> range_fn \<Rightarrow> bits enc_result option" where
  "fragment_loop B self buffer len lo encode_fn =
    (if len < SIXTEEN_K then encode_short_length B self buffer len encode_fn
     else
       let buffer = buffer @ bv_from_slice B [0xC0 OR fst (fragment_of len)] in
       pbind (encode_fn lo (lo + snd (fragment_of len))) (\<lambda>b.
         if len = SIXTEEN_K then Some (Ok (buffer @ b @ bv_from_slice B [0]))
         else fragment_loop B self (buffer @ b) (len - snd (fragment_of len)) (lo + snd (fragment_of len)) encode_fn))"
  by auto
termination
  by (relation "measure (\<lambda>(B, self, buffer, len, lo, encode_fn). len)")
    (simp_all add: fragment_of_bounds SIXTEEN_K_def)

declare fragment_loop.simps [simp del]

definition encode_unconstrained_length ::
    "bitvec_ops \<Rightarrow> per_encoder \<Rightarrow> bits \<Rightarrow> nat \<Rightarrow> range_fn \<Rightarrow> bits enc_result option" where
  "encode_unconstrained_length B self buffer len encode_fn =
    (if len < SIXTEEN_K then encode_short_length B self buffer len encode_fn
     else fragment_loop B self (pad_to_alignment self buffer) len 0 encode_fn)"

text \<open>\<open>if range.is_power_of_two() { range } else { range.next_power_of_two() }\<close> of the bits of the range.\<close>

definition aligned_range :: "nat \<Rightarrow> int" where
  "aligned_range rng = range_from_len (round_width (log2 (int rng)))"

definition encode_string_length ::
    "bitvec_ops \<Rightarrow> per_encoder \<Rightarrow> bits \<Rightarrow> bool \<Rightarrow> nat \<Rightarrow> size_constraint extensible option \<Rightarrow> range_fn \<Rightarrow>
     bits enc_result option" where
  "encode_string_length B self buffer is_large_string len cs encode_fn =
    (case cs of
       None \<Rightarrow> encode_unconstrained_length B self buffer len encode_fn
     | Some cs \<Rightarrow>
         pbind (Some (if ext_list cs = None then check_length len (constraint cs) (p_codec self) else Ok ())) (\<lambda>_.
         (case start_and_end (constraint cs) of
            (Some _, Some _) \<Rightarrow>
              Option.bind (bounded_range Usize (constraint cs)) (\<lambda>rng.
                if rng = 0 then Some (Ok buffer)
                else if rng = 1 then pbind (encode_fn 0 len) (\<lambda>b. Some (Ok (buffer @ b)))
                else if rng \<le> int SIXTY_FOUR_K then
                  let effective_length = (case effective_value Usize (constraint cs) (int len) of Inl v \<Rightarrow> v | Inr v \<Rightarrow> v);
                      rng = (if pe_aligned (p_options self) \<and> rng > 256 then aligned_range (nat rng) else rng);
                      buffer = encode_non_negative_binary_integer B buffer rng (be_bytes 4 (cast U32 effective_length));
                      buffer = (if is_large_string then pad_to_alignment self buffer else buffer)
                  in pbind (encode_fn 0 len) (\<lambda>b. Some (Ok (buffer @ b)))
                else encode_unconstrained_length B self buffer len encode_fn)
          | _ \<Rightarrow> encode_unconstrained_length B self buffer len encode_fn)))"

definition per_encode_length ::
    "bitvec_ops \<Rightarrow> per_encoder \<Rightarrow> bits \<Rightarrow> nat \<Rightarrow> size_constraint extensible option \<Rightarrow> range_fn \<Rightarrow>
     bits enc_result option" where
  "per_encode_length B self buffer len cs encode_fn = encode_string_length B self buffer False len cs encode_fn"

text \<open>\<open>BitString::from_slice(&bytes[range])\<close> and \<open>BitString::from(&bits[range])\<close>; a range beyond
  the slice panics.\<close>

definition slice :: "'a list \<Rightarrow> nat \<Rightarrow> nat \<Rightarrow> 'a list option" where
  "slice xs a b = (if a \<le> b \<and> b \<le> length xs then Some (drop a (take b xs)) else None)"

definition octets_range :: "bitvec_ops \<Rightarrow> bytes \<Rightarrow> range_fn" where
  "octets_range B bs a b = map_option (Ok \<circ> bv_from_slice B) (slice bs a b)"

definition bits_range :: "bits \<Rightarrow> range_fn" where
  "bits_range bs a b = map_option Ok (slice bs a b)"

section \<open>Octet strings and integers\<close>

definition encode_octet_string_into_buffer ::
    "bitvec_ops \<Rightarrow> per_encoder \<Rightarrow> constraints \<Rightarrow> bytes \<Rightarrow> bits \<Rightarrow> bits enc_result option" where
  "encode_octet_string_into_buffer B self cs v buffer =
    (let (extensible_is_present, buffer) = encode_extensible_bit cs buffer (size_in_root cs (length v)) in
     case c_size cs of
       None \<Rightarrow> per_encode_length B self buffer (length v) None (octets_range B v)
     | Some sz \<Rightarrow>
         if extensible_is_present then per_encode_length B self buffer (length v) None (octets_range B v)
         else if bounded_range Usize (constraint sz) = Some 0 then Some (Ok buffer)
         else if bounded_range Usize (constraint sz) = Some 1 \<and>
             (case as_start (constraint sz) of None \<Rightarrow> True | Some n \<Rightarrow> n \<le> 2)
         then per_encode_length B self buffer (length v) (Some sz) (octets_range B v)
         else
           let buffer = (if bounded_range Usize (constraint sz) = Some 1 then pad_to_alignment self buffer else buffer)
           in encode_string_length B self buffer True (length v) (Some sz) (octets_range B v))"

text \<open>\<open>num_integer::div_ceil\<close> on the small numbers of bits.\<close>

definition octets_of_bits :: "nat \<Rightarrow> nat" where "octets_of_bits n = (n + 7) div 8"

text \<open>The \<open>match\<close> on the alignment and the range of a constrained integer.\<close>

definition encode_constrained_integer ::
    "bitvec_ops \<Rightarrow> per_encoder \<Rightarrow> bits \<Rightarrow> int \<Rightarrow> int \<Rightarrow> bytes \<Rightarrow> bits" where
  "encode_constrained_integer B self buffer rng effective bytes =
    (let K64 = int SIXTY_FOUR_K; is_aligned = pe_aligned (p_options self) in
     if is_aligned \<and> rng = 256 then
       encode_non_negative_binary_integer B (pad_to_alignment self buffer) rng bytes
     else if is_aligned \<and> 257 \<le> rng \<and> rng \<le> K64 then
       encode_non_negative_binary_integer B (pad_to_alignment self buffer) K64 bytes
     else if is_aligned \<and> K64 + 1 \<le> rng then
       let range_len_in_bytes = int (octets_of_bits (log2 rng)) in
       if effective = 0 then
         let buffer = pad_to_alignment self (encode_non_negative_binary_integer B buffer range_len_in_bytes [0])
         in encode_non_negative_binary_integer B buffer 255 bytes
       else
         let range_value_in_bytes = octets_of_bits (log2 (effective + 1));
             buffer = encode_non_negative_binary_integer B buffer range_len_in_bytes
               (be_bytes 16 (int range_value_in_bytes - 1));
             buffer = pad_to_alignment self buffer
         in encode_non_negative_binary_integer B buffer (range_from_len (range_value_in_bytes * 8)) bytes
     else encode_non_negative_binary_integer B buffer rng bytes)"

definition encode_integer_into_buffer ::
    "bitvec_ops \<Rightarrow> 'i integer_ops \<Rightarrow> per_encoder \<Rightarrow> constraints \<Rightarrow> 'i \<Rightarrow> bits \<Rightarrow> bits enc_result option" where
  "encode_integer_into_buffer B I self cs v buffer =
    (let (is_extended_value, buffer) = encode_extensible_bit cs buffer
           (case c_value cs of
              Some vr \<Rightarrow> ext_list vr \<noteq> None \<and> in_bound (vc_value (constraint vr)) (i_to_bigint I v)
            | None \<Rightarrow> False);
         unconstrained =
           (let bytes = needed_slice (i_to_signed_bytes_be I v); needed = snd (i_to_signed_bytes_be I v)
            in per_encode_length B self buffer needed (c_size cs) (octets_range B bytes))
     in (case c_value cs of
          None \<Rightarrow> unconstrained
        | Some value_range \<Rightarrow>
            let c = vc_value (constraint value_range) in
            if is_extended_value then unconstrained
            else if \<not> in_bound c (i_to_bigint I v)
            then Some (Err (EncodeError (EncValueConstraintNotSatisfied (i_to_bigint I v) c) (p_codec self)))
            else
              (case i_to_i128 I v of
                 None \<Rightarrow> Some (Err (EncodeError EncIntegerTypeConversionFailed (p_codec self)))
               | Some w \<Rightarrow>
                   let (bytes, needed) =
                         (case effective_value I128 c w of
                            Inl offset \<Rightarrow> to_unsigned_bytes_be I128 offset
                          | Inr value \<Rightarrow> to_signed_bytes_be I128 value);
                       effective = (case effective_value I128 c w of Inl x \<Rightarrow> x | Inr x \<Rightarrow> x)
                   in (case bounded_range I128 c of
                        Some rng \<Rightarrow> Some (Ok (encode_constrained_integer B self buffer rng effective (take needed bytes)))
                      | None \<Rightarrow> per_encode_length B self buffer needed None (octets_range B (take needed bytes))))))"

definition encode_normally_small_integer ::
    "bitvec_ops \<Rightarrow> per_encoder \<Rightarrow> nat \<Rightarrow> bits \<Rightarrow> bits enc_result option" where
  "encode_normally_small_integer B self v buffer =
    (let is_large = v \<ge> 64; buffer = buffer @ [is_large] in
     if is_large then encode_integer_into_buffer B (prim_ops Usize) self LARGE_UNSIGNED_CONSTRAINT (int v) buffer
     else encode_integer_into_buffer B (prim_ops Usize) self SMALL_UNSIGNED_CONSTRAINT (int v) buffer)"

text \<open>For \<open>value = 0\<close> the subtraction wraps; the callers pass at least 1.\<close>

definition encode_normally_small_length ::
    "bitvec_ops \<Rightarrow> per_encoder \<Rightarrow> nat \<Rightarrow> bits \<Rightarrow> bits enc_result option" where
  "encode_normally_small_length B self v buffer =
    (let v = (if v \<ge> 64 then v else nat (wrapping_sub Usize (int v) 1)) in encode_normally_small_integer B self v buffer)"

section \<open>Character strings\<close>

definition character_width :: "per_encoder \<Rightarrow> nat \<Rightarrow> nat" where
  "character_width self width = (if pe_aligned (p_options self) then round_width width else width)"

text \<open>Whether the string is long enough to be aligned; the two products are computed in \<open>usize\<close>.\<close>

definition large_string :: "per_encoder \<Rightarrow> character_set_name \<Rightarrow> constraints \<Rightarrow> bits \<Rightarrow> (bool \<times> bits) option" where
  "large_string self S cs buffer =
    (case c_size cs of
       Some sz \<Rightarrow>
         let width = (case c_permitted_alphabet cs of
               Some alphabet \<Rightarrow> character_width self (log2 (int (length (constraint alphabet))))
             | None \<Rightarrow> character_width self (CHARACTER_SET_WIDTH S));
             large = (\<lambda>n. cast Usize (n * int width) > 16)
         in (case constraint sz of
               Range (Some _) (Some _) \<Rightarrow>
                 Option.bind (bounded_range Usize (constraint sz)) (\<lambda>rng. Some (large rng, buffer))
             | Single n \<Rightarrow> Some (if large n then (True, pad_to_alignment self buffer) else (False, buffer))
             | Range None (Some n) \<Rightarrow> Some (if large n then (True, pad_to_alignment self buffer) else (False, buffer))
             | _ \<Rightarrow> Some (False, buffer))
     | None \<Rightarrow> Some (False, buffer))"

definition encode_known_multiplier_string ::
    "bitvec_ops \<Rightarrow> character_set_name \<Rightarrow> tag \<Rightarrow> constraints \<Rightarrow> u32 list \<Rightarrow> per_encode_fn" where
  "encode_known_multiplier_string B S t cs v self =
    (let (is_extended_value, buffer) = encode_extensible_bit cs [] (size_in_root cs (length v)) in
     Option.bind (large_string self S cs buffer) (\<lambda>(is_large_string, buffer).
     let size = (if is_extended_value then Some (extensible_new BNone) else c_size cs);
         indexed = should_be_indexed (CHARACTER_SET_WIDTH S) (CHARACTER_SET S);
         by_alphabet = (\<lambda>alphabet.
           pbind (map_option (map_err (\<lambda>e. EncodeError (AlphabetConstraintNotSatisfied e) (p_codec self)))
             (dyn_from_bits B v alphabet)) (\<lambda>characters.
           per_encode_length B self buffer (length v) size
             (\<lambda>a b. map_option Ok (dyn_index_range characters a b))));
         by_value =
           Option.bind (if pe_aligned (p_options self)
             then map_option Some
               (if CHARACTER_SET_WIDTH S \<le> character_width self (CHARACTER_SET_WIDTH S)
                then to_octet_aligned_string B S v else to_octet_aligned_index_string B S v)
             else Some None) (\<lambda>octet_aligned_value.
           Option.bind (to_index_or_value_bitstring B S v) (\<lambda>value.
             encode_string_length B self buffer is_large_string (length v) size
               (case octet_aligned_value of
                  Some bytes \<Rightarrow> octets_range B bytes
                | None \<Rightarrow> (\<lambda>a b. bits_range value (a * CHARACTER_SET_WIDTH S) (b * CHARACTER_SET_WIDTH S)))))
     in pbind
          (case c_permitted_alphabet cs of
             Some alphabet \<Rightarrow>
               if CHARACTER_SET_WIDTH S > character_width self (log2 (int (length (constraint alphabet)))) \<or> indexed
               then by_alphabet (constraint alphabet) else by_value
           | None \<Rightarrow> if indexed then by_alphabet (CHARACTER_SET S) else by_value)
          (\<lambda>buffer. Some (Ok (per_extend t buffer self)))))"

section \<open>Constructed types\<close>

fun encode_extension_fields ::
    "bitvec_ops \<Rightarrow> per_encoder \<Rightarrow> bytes option list \<Rightarrow> bits \<Rightarrow> bits enc_result option" where
  "encode_extension_fields B self [] buffer = Some (Ok buffer)"
| "encode_extension_fields B self (None # fs) buffer = encode_extension_fields B self fs buffer"
| "encode_extension_fields B self (Some f # fs) buffer =
    pbind (per_encode_length B self buffer (length f) None (octets_range B f)) (encode_extension_fields B self fs)"

definition per_canonical_bitfield :: "bool \<Rightarrow> nat \<times> (bool \<times> tag) list \<Rightarrow> nat \<times> (bool \<times> tag) list" where
  "per_canonical_bitfield set_mode bf =
    (if set_mode then (fst bf, sort_by (\<lambda>a b. const_cmp (snd a) (snd b)) (snd bf)) else bf)"

definition per_encode_constructed ::
    "bitvec_ops \<Rightarrow> nat \<Rightarrow> fields \<Rightarrow> bool \<Rightarrow> tag \<Rightarrow> per_encoder \<Rightarrow> per_encode_fn" where
  "per_encode_constructed B EL FIELDS is_extensible t encoder self =
    (let extensions_present = (is_extensible \<and> list_ex (\<lambda>f. f \<noteq> None) (p_extension_fields encoder));
         buffer = (if is_extensible then [extensions_present] else []);
         required_present = has_required FIELDS;
         (needed, bf) = per_canonical_bitfield (pe_set_encoding (p_options encoder)) (p_root_bitfield encoder)
     in if needed > length bf then None
        else
          let buffer = (if needed > 0 \<or> is_extensible then buffer @ map fst (take needed bf) else buffer);
              (output, encoder) = bitstring_output encoder;
              buffer = (if list_ex fst (take needed bf) \<or> required_present then buffer @ output else buffer)
          in if \<not> is_extensible \<or> \<not> extensions_present then Some (Ok (per_extend t buffer self))
             else
               pbind (encode_normally_small_length B self EL buffer) (\<lambda>buffer.
               let buffer = buffer @ map (\<lambda>f. f \<noteq> None) (p_extension_fields encoder)
               in pbind (encode_extension_fields B self (p_extension_fields encoder) buffer)
                    (\<lambda>buffer. Some (Ok (per_extend t buffer self)))))"

section \<open>The Encoder trait\<close>

definition per_encode_octet_string :: "bitvec_ops \<Rightarrow> tag \<Rightarrow> constraints \<Rightarrow> bytes \<Rightarrow> per_encode_fn" where
  "per_encode_octet_string B t cs v self =
    pbind (encode_octet_string_into_buffer B self cs v []) (\<lambda>buffer. Some (Ok (per_extend t buffer self)))"

definition per_encode_any :: "bitvec_ops \<Rightarrow> tag \<Rightarrow> bytes \<Rightarrow> per_encode_fn" where
  "per_encode_any B t v = per_encode_octet_string B t constraints_NONE v"

definition per_encode_bit_string :: "bitvec_ops \<Rightarrow> tag \<Rightarrow> constraints \<Rightarrow> bits \<Rightarrow> per_encode_fn" where
  "per_encode_bit_string B t cs v self =
    (let (extensible_is_present, buffer) = encode_extensible_bit cs [] (size_in_root cs (length v));
         size = c_size cs;
         rng = Option.bind size (\<lambda>sz. bounded_range Usize (constraint sz))
     in pbind
          (if extensible_is_present \<or> size = None
           then per_encode_length B self buffer (length v) None (bits_range v)
           else if rng = Some 0 then Some (Ok buffer)
           else if (case size of Some sz \<Rightarrow> bounded_range Usize (constraint sz) = Some 1 \<and>
                 (case as_start (constraint sz) of None \<Rightarrow> True | Some n \<Rightarrow> n \<le> 16) | None \<Rightarrow> False)
           then per_encode_length B self buffer (length v) size (bits_range v)
           else
             let buffer = (if rng = Some 1 then pad_to_alignment self buffer else buffer)
             in encode_string_length B self buffer True (length v) size (bits_range v))
          (\<lambda>buffer. Some (Ok (per_extend t buffer self))))"

definition per_encode_bool :: "tag \<Rightarrow> bool \<Rightarrow> per_encode_fn" where
  "per_encode_bool t v self = Some (Ok (per_extend t [v] self))"

text \<open>\<open>usize\<close> has eight octets on the target.\<close>

definition per_encode_enumerated :: "bitvec_ops \<Rightarrow> 'e enumerated \<Rightarrow> tag \<Rightarrow> 'e \<Rightarrow> per_encode_fn" where
  "per_encode_enumerated B E t v self =
    Option.bind (enumeration_index E v) (\<lambda>i.
      let buffer = (if en_EXTENDED_VARIANTS E \<noteq> None then [is_extended_variant E v] else [])
      in pbind
           (if is_extended_variant E v then encode_normally_small_integer B self i buffer
            else Some (Ok (encode_non_negative_binary_integer B buffer (int (variance E)) (be_bytes 8 (int i)))))
           (\<lambda>buffer. Some (Ok (per_extend t buffer self))))"

definition per_encode_integer :: "bitvec_ops \<Rightarrow> 'i integer_ops \<Rightarrow> tag \<Rightarrow> constraints \<Rightarrow> 'i \<Rightarrow> per_encode_fn" where
  "per_encode_integer B I t cs v self =
    pbind (encode_integer_into_buffer B I self cs v []) (\<lambda>buffer. Some (Ok (per_extend t buffer self)))"

definition per_encode_real :: per_encode_fn where
  "per_encode_real self = Some (Err (EncodeError RealNotSuppored (p_codec self)))"

definition per_encode_null :: per_encode_fn where "per_encode_null self = Some (Ok self)"

definition per_encode_object_identifier :: "bitvec_ops \<Rightarrow> tag \<Rightarrow> u32 list \<Rightarrow> per_encode_fn" where
  "per_encode_object_identifier B t oid self =
    pbind (Some (object_identifier_as_bytes oid)) (\<lambda>der. per_encode_octet_string B t constraints_NONE der self)"

text \<open>The methods for VisibleString, IA5String, PrintableString, NumericString, TeletexString and
  BMPString; those for GeneralString, GraphicString and UTF8String, whose octets are given.\<close>

definition per_encode_restricted_string ::
    "bitvec_ops \<Rightarrow> character_set_name \<Rightarrow> tag \<Rightarrow> constraints \<Rightarrow> u32 list \<Rightarrow> per_encode_fn" where
  "per_encode_restricted_string B S t cs v =
    (if S \<in> {General, Graphic} then per_encode_octet_string B t constraints_NONE (string_bytes S v)
     else encode_known_multiplier_string B S t cs v)"

definition per_encode_utf8_string :: "bitvec_ops \<Rightarrow> tag \<Rightarrow> constraints \<Rightarrow> bytes \<Rightarrow> per_encode_fn" where
  "per_encode_utf8_string B t cs v = per_encode_octet_string B t constraints_NONE v"

text \<open>\<open>Self::new(options)\<close>: a new encoder of the same type.\<close>

definition self_new :: "per_encoder \<Rightarrow> per_encoder_options \<Rightarrow> per_encoder" where
  "self_new self options =
    per_encoder_new (length (snd (p_root_bitfield self))) (length (snd (p_extension_bitfield self))) options"

text \<open>The loop over the elements, each with the new encoder; the first one knows about the extension
  bit.\<close>

fun encode_elements :: "per_encoder \<Rightarrow> nat option \<Rightarrow> per_encode_fn list \<Rightarrow> bits \<Rightarrow> bits enc_result option" where
  "encode_elements new parent [] buffer = Some (Ok buffer)"
| "encode_elements new parent (v # vs) buffer =
    pbind (v (new\<lparr>p_parent_output_length := parent\<rparr>)) (\<lambda>encoder.
      encode_elements new None vs (buffer @ fst (bitstring_output encoder)))"

definition per_encode_sequence_of :: "bitvec_ops \<Rightarrow> tag \<Rightarrow> per_encode_fn list \<Rightarrow> constraints \<Rightarrow> per_encode_fn" where
  "per_encode_sequence_of B t values cs self =
    (let (_, buffer) = encode_extensible_bit cs [] (size_in_root cs (length values));
         extension_bits = buffer
     in pbind (per_encode_length B self buffer (length values) (c_size cs)
           (\<lambda>a b. Option.bind (slice values a b) (\<lambda>vs.
              encode_elements (self_new self (p_options self)) (Some (length extension_bits)) vs [])))
          (\<lambda>buffer. Some (Ok (per_extend t buffer self))))"

definition per_encode_set_of :: "bitvec_ops \<Rightarrow> tag \<Rightarrow> per_encode_fn list \<Rightarrow> constraints \<Rightarrow> per_encode_fn" where
  "per_encode_set_of B t values cs = per_encode_sequence_of B t values cs"

definition per_encode_explicit_prefix :: "bool \<Rightarrow> per_encode_fn \<Rightarrow> per_encode_fn \<Rightarrow> per_encode_fn" where
  "per_encode_explicit_prefix choice encode encode_with_tag = (if choice then encode else encode_with_tag)"

definition per_encode_some :: "tag \<Rightarrow> per_encode_fn \<Rightarrow> per_encode_fn" where
  "per_encode_some t v self = pbind (per_set_presence t True self) v"

definition per_encode_none :: "tag \<Rightarrow> per_encode_fn" where
  "per_encode_none t = per_set_presence t False"

text \<open>\<open>RL\<close> and \<open>EL\<close> are the numbers of root components and of extension additions of the type.\<close>

definition per_encode_sequence ::
    "bitvec_ops \<Rightarrow> nat \<Rightarrow> nat \<Rightarrow> fields \<Rightarrow> bool \<Rightarrow> tag \<Rightarrow> per_encode_fn \<Rightarrow> per_encode_fn" where
  "per_encode_sequence B RL EL FIELDS is_extensible t encoder_scope self =
    pbind (encoder_scope (new_sequence_encoder RL EL FIELDS is_extensible self))
      (\<lambda>encoder. per_encode_constructed B EL FIELDS is_extensible t encoder self)"

definition per_encode_set ::
    "bitvec_ops \<Rightarrow> nat \<Rightarrow> nat \<Rightarrow> fields \<Rightarrow> bool \<Rightarrow> tag \<Rightarrow> per_encode_fn \<Rightarrow> per_encode_fn" where
  "per_encode_set B RL EL FIELDS is_extensible t encoder_scope self =
    pbind (encoder_scope (new_set_encoder RL EL FIELDS is_extensible self))
      (\<lambda>set. per_encode_constructed B EL FIELDS is_extensible t set self)"

definition per_encode_choice ::
    "bitvec_ops \<Rightarrow> tag_tree list \<Rightarrow> tag_tree list option \<Rightarrow> constraints \<Rightarrow> constraints \<Rightarrow> tag \<Rightarrow>
     per_encode_fn \<Rightarrow> per_encode_fn" where
  "per_encode_choice B VARIANTS EXTENDED_VARIANTS VARIANCE_CONSTRAINT cs t encode_fn self =
    (let is_root_extension = tag_contains t VARIANTS;
         (_, buffer) = encode_extensible_bit cs [] is_root_extension;
         variants = variants_from_slice (if is_root_extension then VARIANTS
           else case EXTENDED_VARIANTS of Some vs \<Rightarrow> vs | None \<Rightarrow> [])
     in case position (\<lambda>variant_tag. t = variant_tag) variants of
          None \<Rightarrow> Some (Err (EncodeError VariantNotInChoice (p_codec self)))
        | Some i \<Rightarrow>
            let bounds = (if is_root_extension
                  then (if length variants = 1 then None else Some (Some (length variants))) else Some None);
                choice_bits_len = of_bool (EXTENDED_VARIANTS \<noteq> None \<and> pe_aligned (p_options self))
                  + (case bounds of Some (Some n) \<Rightarrow> log2 (int n) | _ \<Rightarrow> 0);
                choice_encoder =
                  (self_new self (per_without_set_encoding (p_options self)))\<lparr>p_parent_output_length := Some choice_bits_len\<rparr>
            in pbind (encode_fn choice_encoder) (\<lambda>choice_encoder.
               pbind
                 (case bounds of
                    Some (Some _) \<Rightarrow>
                      pbind (encode_integer_into_buffer B (prim_ops Usize) self VARIANCE_CONSTRAINT (int i) buffer)
                        (\<lambda>buffer. Some (Ok (buffer @ p_output choice_encoder)))
                  | Some None \<Rightarrow>
                      pbind (encode_normally_small_integer B self i buffer) (\<lambda>buffer.
                        let output = fst (per_output B choice_encoder);
                            output = (if output = [] then [0] else output)
                        in encode_octet_string_into_buffer B self constraints_NONE output buffer)
                  | None \<Rightarrow> Some (Ok (buffer @ p_output choice_encoder)))
                 (\<lambda>buffer. Some (Ok (per_extend t buffer self)))))"

text \<open>\<open>self.extension_fields[self.extension_bitfield.0] = field\<close> panics beyond the array.\<close>

definition set_extension_field :: "bytes option \<Rightarrow> per_encode_fn" where
  "set_extension_field field self =
    (let i = fst (p_extension_bitfield self) in
     if i < length (p_extension_fields self)
     then per_set_extension_presence (field \<noteq> None)
            (self\<lparr>p_extension_fields := (p_extension_fields self)[i := field]\<rparr>)
     else None)"

definition per_encode_extension_addition :: "bitvec_ops \<Rightarrow> bool \<Rightarrow> per_encode_fn \<Rightarrow> per_encode_fn" where
  "per_encode_extension_addition B is_present v self =
    (if is_present then
       pbind (v (self_new self (per_without_set_encoding (p_options self))))
         (\<lambda>encoder. set_extension_field (Some (fst (per_output B encoder))) self)
     else set_extension_field None self)"

definition per_encode_extension_addition_group ::
    "bitvec_ops \<Rightarrow> nat \<Rightarrow> nat \<Rightarrow> fields \<Rightarrow> bool \<Rightarrow> per_encode_fn option \<Rightarrow> per_encode_fn" where
  "per_encode_extension_addition_group B RL EL FIELDS is_extensible v self =
    (case v of
       None \<Rightarrow> set_extension_field None self
     | Some v \<Rightarrow>
         pbind (v ((new_sequence_encoder RL EL FIELDS is_extensible self)
             \<lparr>p_is_extension_sequence := True, p_number_optional_default_fields := number_optional_default FIELDS\<rparr>))
           (\<lambda>encoder.
             let (bytes, encoder) = per_output B encoder;
                 (n, bf) = p_root_bitfield encoder;
                 all_absent =
                   (if has_required FIELDS then False
                    else if n > 0 then list_all (\<lambda>(present, _). \<not> present) (take n bf)
                    else list_all (\<lambda>b. b = 0) bytes)
             in if all_absent then set_extension_field None self else set_extension_field (Some bytes) self))"

text \<open>\<open>per::encode\<close>.\<close>

definition per_encode :: "bitvec_ops \<Rightarrow> per_encoder_options \<Rightarrow> per_encode_fn \<Rightarrow> bytes enc_result option" where
  "per_encode B options v =
    pbind (v (per_encoder_new 0 0 options)) (\<lambda>enc. Some (Ok (fst (per_output B enc))))"

text \<open>\<open>uper::encode\<close> writes at least one octet, \<open>aper::encode\<close> may write none.\<close>

definition uper_encode :: "bitvec_ops \<Rightarrow> per_encode_fn \<Rightarrow> bytes enc_result option" where
  "uper_encode B v =
    pbind (per_encode B per_enc_unaligned v) (\<lambda>result. Some (Ok (if result = [] then [0x00] else result)))"

definition aper_encode :: "bitvec_ops \<Rightarrow> per_encode_fn \<Rightarrow> bytes enc_result option" where
  "aper_encode B v = per_encode B per_enc_aligned v"

end
