(* ===== verification/Per_Decoder.thy ===== *)
theory Per_Decoder
  imports Per_Encoder Ber_Decoder
begin

text \<open>
  \<open>per/de.rs\<close>: the decoder of UPER and APER.  A decoding operation maps the decoder to a value and the
  decoder it leaves behind, or to an error.  The outer \<open>option\<close> is \<open>None\<close> where the code panics
  or does not return.  The closures passed to the length decoders are steps that thread the
  variables they capture.
\<close>

text \<open>What is outside the sources: \<open>bitvec\<close>, the streaming \<open>take\<close> of \<open>nom\<close> on bits, and the octet
  combinators of \<open>nom\<close> behind the decoder of object identifiers.\<close>

record per_env =
  pv_bits :: bitvec_ops
  pv_take :: "nat \<Rightarrow> bits \<Rightarrow> (nom_err, bits \<times> bits) result"
  pv_nom :: nom

definition per_documented :: "per_env \<Rightarrow> bool" where
  "per_documented V \<longleftrightarrow>
    bits_documented (pv_bits V) \<and> nom_documented (pv_nom V) \<and>
    (\<forall>n input. n \<le> length input \<longrightarrow> pv_take V n input = Ok (drop n input, take n input)) \<and>
    (\<forall>n input. length input < n \<longrightarrow> (\<exists>k. pv_take V n input = Err (NomIncomplete k)))"

record per_decoder_options =
  pd_aligned :: bool
  pd_remaining_depth :: nat

definition per_dec_aligned :: per_decoder_options where
  "per_dec_aligned = \<lparr>pd_aligned = True, pd_remaining_depth = 128\<rparr>"

definition per_dec_unaligned :: per_decoder_options where
  "per_dec_unaligned = \<lparr>pd_aligned = False, pd_remaining_depth = 128\<rparr>"

definition per_dec_current_codec :: "per_decoder_options \<Rightarrow> codec" where
  "per_dec_current_codec self = (if pd_aligned self then Aper else Uper)"

record per_decoder =
  q_input :: bits
  q_options :: per_decoder_options
  q_fields :: "(field \<times> bool) list"
  q_extension_fields :: "fields option"
  q_extensions_present :: "(field \<times> bool) list option option"

type_synonym 'a per_decode_fn = "per_decoder \<Rightarrow> ('a \<times> per_decoder) dec_result option"

definition per_decoder_new :: "bits \<Rightarrow> per_decoder_options \<Rightarrow> per_decoder" where
  "per_decoder_new input options =
    \<lparr>q_input = input, q_options = options, q_fields = [], q_extension_fields = None, q_extensions_present = None\<rparr>"

definition q_codec :: "per_decoder \<Rightarrow> codec" where
  "q_codec self = per_dec_current_codec (q_options self)"

definition qret :: "'a \<Rightarrow> 'a per_decode_fn" where "qret x self = Some (Ok (x, self))"

definition qerr :: "decode_error \<Rightarrow> 'a per_decode_fn" where "qerr e self = Some (Err e)"

definition qbind :: "'a per_decode_fn \<Rightarrow> ('a \<Rightarrow> 'b per_decode_fn) \<Rightarrow> 'b per_decode_fn" where
  "qbind m f self = pbind (m self) (\<lambda>(x, self). f x self)"

section \<open>Bits and padding\<close>

definition take_input :: "per_env \<Rightarrow> codec \<Rightarrow> nat \<Rightarrow> bits \<Rightarrow> (bits \<times> bits) dec_result" where
  "take_input V c n input = map_err (\<lambda>e. map_nom_err e c) (pv_take V n input)"

definition parse_one_bit :: "per_env \<Rightarrow> bool per_decode_fn" where
  "parse_one_bit V self =
    pbind (Some (take_input V (q_codec self) 1 (q_input self))) (\<lambda>(input, boolean).
      qret (boolean ! 0) (self\<lparr>q_input := input\<rparr>))"

definition per_require_field :: "tag \<Rightarrow> bool per_decode_fn" where
  "per_require_field t self =
    (case q_fields self of
       (f, b) # fs \<Rightarrow>
         if smallest_tag (tag_tree f) = t then qret b (self\<lparr>q_fields := fs\<rparr>)
         else qerr (DecodeError (MissingTagClassOrValueInSequenceOrSet (tag_class t) (tag_value t)) (q_codec self)) self
     | [] \<Rightarrow> qerr (DecodeError (MissingTagClassOrValueInSequenceOrSet (tag_class t) (tag_value t)) (q_codec self)) self)"

definition parse_extensible_bit :: "per_env \<Rightarrow> constraints \<Rightarrow> bool per_decode_fn" where
  "parse_extensible_bit V cs = (if constraints_extensible cs then parse_one_bit V else qret False)"

definition per_extension_is_present :: "(field \<times> bool) option per_decode_fn" where
  "per_extension_is_present self =
    (case q_extensions_present self of
       Some (Some (x # xs)) \<Rightarrow> qret (Some x) (self\<lparr>q_extensions_present := Some (Some xs)\<rparr>)
     | Some (Some []) \<Rightarrow> qret None self
     | _ \<Rightarrow> qerr (DecodeError TypeNotExtensible (q_codec self)) self)"

definition force_parse_padding :: "per_env \<Rightarrow> codec \<Rightarrow> bits \<Rightarrow> bits dec_result" where
  "force_parse_padding V c input =
    (if length input mod 8 = 0 then Ok input else map_ok fst (take_input V c (length input mod 8) input))"

definition parse_padding :: "per_env \<Rightarrow> per_decoder_options \<Rightarrow> bits \<Rightarrow> bits dec_result" where
  "parse_padding V options input =
    (if pd_aligned options then force_parse_padding V (per_dec_current_codec options) input else Ok input)"

text \<open>\<open>self.input = self.parse_padding(self.input)?\<close>.\<close>

definition skip_padding :: "per_env \<Rightarrow> unit per_decode_fn" where
  "skip_padding V self =
    pbind (Some (parse_padding V (q_options self) (q_input self))) (\<lambda>input. qret () (self\<lparr>q_input := input\<rparr>))"

definition parse_optional_and_default_field_bitmap :: "per_env \<Rightarrow> fields \<Rightarrow> bits per_decode_fn" where
  "parse_optional_and_default_field_bitmap V FIELDS self =
    pbind (Some (take_input V (q_codec self) (number_optional_default FIELDS) (q_input self))) (\<lambda>(input, bitset).
      qret bitset (self\<lparr>q_input := input\<rparr>))"

section \<open>Lengths\<close>

text \<open>A closure \<open>FnMut(input, length) -> Result<input>\<close>.\<close>

type_synonym 's step = "bits \<Rightarrow> nat \<Rightarrow> 's \<Rightarrow> (bits \<times> 's) dec_result option"

definition fragment_length :: "nat \<Rightarrow> nat option" where
  "fragment_length m =
    (if m = 1 then Some SIXTEEN_K else if m = 2 then Some THIRTY_TWO_K
     else if m = 3 then Some FOURTY_EIGHT_K else if m = 4 then Some SIXTY_FOUR_K else None)"

lemma pbind_eq: "pbind r f = Option.bind r (\<lambda>x. case x of Inl e \<Rightarrow> Some (Inl e) | Inr y \<Rightarrow> f y)"
  by (simp add: pbind_def split: option.splits sum.splits)

lemma pbind_mono [partial_function_mono]:
  assumes "mono_option G" "\<And>y. mono_option (\<lambda>f. F y f)"
  shows "mono_option (\<lambda>f. pbind (G f) (\<lambda>y. F y f))"
  unfolding pbind_eq
proof (rule bind_mono [OF assms(1)])
  show "mono_option (\<lambda>f. case x of Inl e \<Rightarrow> Some (Inl e) | Inr y \<Rightarrow> F y f)" for x
    by (cases x) (simp_all add: assms(2) option.const_mono)
qed

text \<open>\<open>decode_unknown_length\<close> calls \<open>decode_length\<close> without constraints, that is itself, in its loop
  over fragments.  The mode \<open>None\<close> is the function, \<open>Some length\<close> the loop after a fragment of that
  length.\<close>

partial_function (option) decode_unknown_length ::
    "per_env \<Rightarrow> per_decoder_options \<Rightarrow> 's step \<Rightarrow> nat option \<Rightarrow> bits \<Rightarrow> 's \<Rightarrow> (bits \<times> 's) dec_result option" where
  "decode_unknown_length V options decode_fn mode input s =
    (case mode of
       None \<Rightarrow>
         pbind (Some (parse_padding V options input)) (\<lambda>input.
         pbind (Some (take_input V (per_dec_current_codec options) 1 input)) (\<lambda>(input, mask).
           if \<not> mask ! 0 then
             pbind (Some (take_input V (per_dec_current_codec options) 7 input)) (\<lambda>(input, len).
               decode_fn input (bv_load_be (pv_bits V) len) s)
           else
             pbind (Some (take_input V (per_dec_current_codec options) 1 input)) (\<lambda>(input, mask).
               if \<not> mask ! 0 then
                 pbind (Some (take_input V (per_dec_current_codec options) 14 input)) (\<lambda>(input, len).
                   decode_fn input (bv_load_be (pv_bits V) len) s)
               else
                 pbind (Some (take_input V (per_dec_current_codec options) 6 input)) (\<lambda>(input, mask).
                   case fragment_length (bv_load_be (pv_bits V) mask) of
                     None \<Rightarrow> Some (Err (DecodeError ParserFail (per_dec_current_codec options)))
                   | Some len \<Rightarrow>
                       pbind (decode_fn input len s) (\<lambda>(input, s).
                         decode_unknown_length V options decode_fn (Some len) input s)))))
     | Some len \<Rightarrow>
         pbind (decode_unknown_length V options decode_fn None input s) (\<lambda>(new_input, s).
           if length input = length new_input \<or> new_input = [] then Some (Ok (input, s))
           else
             pbind (decode_fn new_input len s) (\<lambda>(input, s).
               decode_unknown_length V options decode_fn (Some len) input s)))"

declare decode_unknown_length.simps [code]

text \<open>The length of a constrained size: \<open>padding\<close> tells whether padding follows it.\<close>

definition decode_constrained_length ::
    "per_env \<Rightarrow> per_decoder_options \<Rightarrow> size_constraint \<Rightarrow> int \<Rightarrow> bool \<Rightarrow> 's step \<Rightarrow> bits \<Rightarrow> 's \<Rightarrow>
     (bits \<times> 's) dec_result option" where
  "decode_constrained_length V options sz rng padding decode_fn input s =
    (let c = per_dec_current_codec options; wide = pd_aligned options \<and> rng > 256 in
     pbind (Some (if wide then parse_padding V options input else Ok input)) (\<lambda>input.
     let rng = (if wide then aligned_range (nat rng) else rng) in
     pbind (Some (take_input V c (log2 rng) input)) (\<lambda>(input, len).
     pbind (Some (if padding then parse_padding V options input else Ok input)) (\<lambda>input.
     case checked_add Usize (int (bv_load_be (pv_bits V) len)) (minimum sz) of
       None \<Rightarrow> Some (Err (DecodeError (ExceedsMaxLength (type_max Usize)) c))
     | Some n \<Rightarrow> decode_fn input (nat n) s))))"

definition small_range :: "size_constraint \<Rightarrow> int option" where
  "small_range sz =
    (case bounded_range Usize sz of
       Some rng \<Rightarrow> if rng \<le> int SIXTY_FOUR_K then Some rng else None
     | None \<Rightarrow> None)"

definition decode_string_length ::
    "per_env \<Rightarrow> per_decoder_options \<Rightarrow> size_constraint extensible option \<Rightarrow> bool \<Rightarrow> 's step \<Rightarrow> bits \<Rightarrow> 's \<Rightarrow>
     (bits \<times> 's) dec_result option" where
  "decode_string_length V options cs is_large_string decode_fn input s =
    (case cs of
       None \<Rightarrow> decode_unknown_length V options decode_fn None input s
     | Some cs \<Rightarrow>
         (case small_range (constraint cs) of
            Some rng \<Rightarrow>
              if rng = 0 then Some (Ok (input, s))
              else if rng = 1 then
                pbind (Some (parse_padding V options input)) (\<lambda>input.
                  decode_fn input (nat (minimum (constraint cs))) s)
              else decode_constrained_length V options (constraint cs) rng is_large_string decode_fn input s
          | None \<Rightarrow> decode_unknown_length V options decode_fn None input s))"

definition per_decode_length ::
    "per_env \<Rightarrow> per_decoder_options \<Rightarrow> size_constraint extensible option \<Rightarrow> 's step \<Rightarrow> bits \<Rightarrow> 's \<Rightarrow>
     (bits \<times> 's) dec_result option" where
  "per_decode_length V options cs decode_fn input s =
    (case cs of
       None \<Rightarrow> decode_unknown_length V options decode_fn None input s
     | Some cs \<Rightarrow>
         (case small_range (constraint cs) of
            Some rng \<Rightarrow>
              if rng = 0 then Some (Ok (input, s))
              else if rng = 1 then decode_fn input (nat (minimum (constraint cs))) s
              else decode_constrained_length V options (constraint cs) rng True decode_fn input s
          | None \<Rightarrow> decode_unknown_length V options decode_fn None input s))"

definition decode_extensible_string ::
    "per_env \<Rightarrow> constraints \<Rightarrow> bool \<Rightarrow> 's step \<Rightarrow> 's \<Rightarrow> 's per_decode_fn" where
  "decode_extensible_string V cs is_large_string decode_fn s =
    qbind (parse_extensible_bit V cs) (\<lambda>extensible_is_present self.
      pbind (decode_string_length V (q_options self) (if extensible_is_present then None else c_size cs)
          is_large_string decode_fn (q_input self) s) (\<lambda>(input, s).
        qret s (self\<lparr>q_input := input\<rparr>)))"

definition decode_extensible_container ::
    "per_env \<Rightarrow> constraints \<Rightarrow> 's step \<Rightarrow> 's \<Rightarrow> 's per_decode_fn" where
  "decode_extensible_container V cs decode_fn s =
    qbind (parse_extensible_bit V cs) (\<lambda>extensible_is_present self.
      pbind (per_decode_length V (q_options self) (if extensible_is_present then None else c_size cs)
          decode_fn (q_input self) s) (\<lambda>(input, s).
        qret s (self\<lparr>q_input := input\<rparr>)))"

text \<open>A product in \<open>usize\<close>.\<close>

definition usize_mul :: "nat \<Rightarrow> nat \<Rightarrow> nat" where "usize_mul a b = nat (cast Usize (int a * int b))"

text \<open>The closure that takes \<open>length * width\<close> bits and appends them to a buffer.\<close>

definition take_step :: "per_env \<Rightarrow> codec \<Rightarrow> nat \<Rightarrow> bits step" where
  "take_step V c width input len buffer =
    pbind (Some (take_input V c (usize_mul len width) input)) (\<lambda>(input, data). Some (Ok (input, buffer @ data)))"

definition decode_octets :: "per_env \<Rightarrow> bits per_decode_fn" where
  "decode_octets V self =
    pbind (per_decode_length V (q_options self) None (take_step V (q_codec self) 8) (q_input self) [])
      (\<lambda>(input, buffer). qret buffer (self\<lparr>q_input := input\<rparr>))"

section \<open>Integers\<close>

text \<open>The part of \<open>IntegerType\<close> the decoder uses besides the octet conversions; \<open>'u\<close> is
  \<open>I::UnsignedPair\<close>.\<close>

record ('i, 'u) per_integer =
  pi_ops :: "'i integer_ops"
  pi_WIDTH :: nat
  pi_try_from_bytes :: "bytes \<Rightarrow> codec \<Rightarrow> 'i dec_result"
  pi_from_i128 :: "int \<Rightarrow> 'i option"
  pi_checked_add :: "'i \<Rightarrow> 'i \<Rightarrow> 'i option"
  pi_unsigned_from_bytes :: "bytes \<Rightarrow> codec \<Rightarrow> 'u dec_result"
  pi_wrapping_unsigned_add :: "'i \<Rightarrow> 'u \<Rightarrow> 'i"

definition per_prim :: "int_type \<Rightarrow> (int, int) per_integer" where
  "per_prim t =
    \<lparr>pi_ops = prim_ops t, pi_WIDTH = BITS t, pi_try_from_bytes = try_from_bytes t, pi_from_i128 = try_into t,
     pi_checked_add = checked_add t, pi_unsigned_from_bytes = try_from_unsigned_bytes (unsigned_pair t),
     pi_wrapping_unsigned_add = wrapping_unsigned_add t\<rparr>"

definition per_integer_kind :: "num \<Rightarrow> (integer_kind, integer_kind) per_integer" where
  "per_integer_kind N =
    \<lparr>pi_ops = integer_kind_ops N, pi_WIDTH = nat (type_max U32), pi_try_from_bytes = integer_try_from_bytes N,
     pi_from_i128 = (\<lambda>v. Some (integer_from I128 v)), pi_checked_add = integer_checked_add,
     pi_unsigned_from_bytes = integer_try_from_unsigned_bytes N, pi_wrapping_unsigned_add = integer_add\<rparr>"

definition parse_non_negative_binary_integer ::
    "per_env \<Rightarrow> (bytes \<Rightarrow> codec \<Rightarrow> 'u dec_result) \<Rightarrow> int \<Rightarrow> 'u per_decode_fn" where
  "parse_non_negative_binary_integer V from_bytes rng self =
    pbind (Some (take_input V (q_codec self) (log2 rng) (q_input self))) (\<lambda>(input, data).
      let data = (if length data < 8 then replicate (8 - length data) False @ data
                  else let remainder = length data mod 8 in
                    if remainder \<noteq> 0 then replicate (8 - remainder) False @ data else data)
      in pbind (Some (from_bytes (bv_raw (pv_bits V) data) (q_codec self))) (\<lambda>n.
           qret n (self\<lparr>q_input := input\<rparr>)))"

text \<open>The number of octets of a value of a range above 64K, in bits.\<close>

definition octet_count_bits :: "nat \<Rightarrow> codec \<Rightarrow> nat dec_result" where
  "octet_count_bits len c =
    (case checked_add U32 (int len) 1 of
       None \<Rightarrow> Err (DecodeError (ExceedsMaxLength (type_max U32)) c)
     | Some n \<Rightarrow>
         if in_type U32 (n * 8) then Ok (nat (n * 8)) else Err (DecodeError (ExceedsMaxLength (type_max U32)) c))"

definition parse_constrained_number ::
    "per_env \<Rightarrow> (bytes \<Rightarrow> codec \<Rightarrow> 'u dec_result) \<Rightarrow> int \<Rightarrow> 'u per_decode_fn" where
  "parse_constrained_number V from_bytes rng self =
    (let K64 = int SIXTY_FOUR_K; is_aligned = pd_aligned (q_options self) in
     if is_aligned \<and> rng = 256 then
       qbind (skip_padding V) (\<lambda>_. parse_non_negative_binary_integer V from_bytes rng) self
     else if is_aligned \<and> 257 \<le> rng \<and> rng \<le> K64 then
       qbind (skip_padding V) (\<lambda>_. parse_non_negative_binary_integer V from_bytes K64) self
     else if is_aligned \<and> K64 + 1 \<le> rng then
       qbind (parse_non_negative_binary_integer V (try_from_unsigned_bytes U32) (int (octets_of_bits (log2 rng)))) (\<lambda>len.
       qbind (skip_padding V) (\<lambda>_ self.
         pbind (Some (octet_count_bits (nat len) (q_codec self))) (\<lambda>n.
           parse_non_negative_binary_integer V from_bytes (range_from_len n) self))) self
     else parse_non_negative_binary_integer V from_bytes rng self)"

definition parse_integer :: "per_env \<Rightarrow> ('i, 'u) per_integer \<Rightarrow> constraints \<Rightarrow> 'i per_decode_fn" where
  "parse_integer V I cs =
    qbind (parse_extensible_bit V cs) (\<lambda>is_extended self.
      case (if is_extended then None else c_value cs) of
        None \<Rightarrow>
          qbind (decode_octets V) (\<lambda>bytes self.
            pbind (Some (pi_try_from_bytes I (bv_raw (pv_bits V) bytes) (q_codec self))) (\<lambda>v. qret v self)) self
      | Some vc \<Rightarrow>
          let b = vc_value (constraint vc); overflow = DecodeError (IntegerOverflow (pi_WIDTH I)) (q_codec self) in
          (case pi_from_i128 I (minimum b) of
             None \<Rightarrow> qerr overflow self
           | Some lower \<Rightarrow>
               (case bounded_range I128 b of
                  Some rng \<Rightarrow>
                    if rng = 0 then qret lower self
                    else qbind (parse_constrained_number V (pi_unsigned_from_bytes I) rng) (\<lambda>number.
                      qret (pi_wrapping_unsigned_add I lower number)) self
                | None \<Rightarrow>
                    qbind (decode_octets V) (\<lambda>bytes self.
                      pbind (Some (if as_start b = None
                          then i_try_from_signed_bytes (pi_ops I) (bv_raw (pv_bits V) bytes) (q_codec self)
                          else i_try_from_unsigned_bytes (pi_ops I) (bv_raw (pv_bits V) bytes) (q_codec self))) (\<lambda>number.
                        case pi_checked_add I lower number of
                          None \<Rightarrow> qerr overflow self
                        | Some v \<Rightarrow> qret v self)) self)))"

definition parse_normally_small_integer :: "per_env \<Rightarrow> ('i, 'u) per_integer \<Rightarrow> 'i per_decode_fn" where
  "parse_normally_small_integer V I =
    qbind (parse_one_bit V) (\<lambda>is_large.
      parse_integer V I (if is_large then LARGE_UNSIGNED_CONSTRAINT else SMALL_UNSIGNED_CONSTRAINT))"

definition parse_normally_small_length :: "per_env \<Rightarrow> nat per_decode_fn" where
  "parse_normally_small_length V =
    qbind (parse_one_bit V) (\<lambda>is_large self.
      if \<not> is_large then qbind (parse_integer V (per_prim Usize) SMALL_UNSIGNED_CONSTRAINT) (\<lambda>n. qret (nat n)) self
      else
        pbind (decode_unknown_length V (q_options self) (\<lambda>input len length_out. Some (Ok (input, len))) None
            (q_input self) 0) (\<lambda>(input, length_out).
          qret length_out (self\<lparr>q_input := input\<rparr>)))"

section \<open>Extensions\<close>

definition per_parse_extension_header :: "per_env \<Rightarrow> bool per_decode_fn" where
  "per_parse_extension_header V self =
    (case q_extensions_present self of
       Some (Some _) \<Rightarrow> qret True self
     | None \<Rightarrow> qret False self
     | Some None \<Rightarrow>
         qbind (parse_normally_small_length V) (\<lambda>n self.
           pbind (Some (take_input V (q_codec self) (n + 1) (q_input self))) (\<lambda>(input, bitfield).
             let self = self\<lparr>q_input := input\<rparr> in
             case q_extension_fields self of
               None \<Rightarrow> None
             | Some extension_fields \<Rightarrow>
                 let extensions_present = zip (fields_list extension_fields) bitfield in
                 (case List.find (\<lambda>(f, is_present). is_not_optional_or_default f \<and> \<not> is_present) extensions_present of
                    Some (f, _) \<Rightarrow> qerr (DecodeError (RequiredExtensionNotPresent (f_tag f)) (q_codec self)) self
                  | None \<Rightarrow> qret True (self\<lparr>q_extensions_present := Some (Some extensions_present)\<rparr>)))) self)"

definition per_check_recursion_depth :: "unit per_decode_fn" where
  "per_check_recursion_depth self =
    (if pd_remaining_depth (q_options self) = 0
     then qerr (DecodeError ExceedsMaxParseDepth (q_codec self)) self
     else qret () self)"

section \<open>Character strings\<close>

text \<open>\<open>range * char_width > 16\<close> with \<open>checked_mul\<close>.\<close>

definition exceeds_16 :: "int \<Rightarrow> nat \<Rightarrow> codec \<Rightarrow> bool dec_result" where
  "exceeds_16 n width c =
    (if in_type Usize (n * int width) then Ok (n * int width > 16)
     else Err (DecodeError (ExceedsMaxLength (type_max Usize)) c))"

definition parse_large_string :: "per_env \<Rightarrow> nat \<Rightarrow> constraints \<Rightarrow> bool per_decode_fn" where
  "parse_large_string V width cs self =
    (let padded = (\<lambda>n. pbind (Some (exceeds_16 n width (q_codec self))) (\<lambda>large.
           if large then qbind (skip_padding V) (\<lambda>_. qret True) self else qret False self))
     in case c_size cs of
          Some sz \<Rightarrow>
            (case constraint sz of
               Range (Some _) (Some _) \<Rightarrow>
                 Option.bind (bounded_range Usize (constraint sz)) (\<lambda>rng.
                   pbind (Some (exceeds_16 rng width (q_codec self))) (\<lambda>large. qret large self))
             | Single n \<Rightarrow> padded n
             | Range None (Some n) \<Rightarrow> padded n
             | _ \<Rightarrow> qret False self)
        | None \<Rightarrow> qret False self)"

text \<open>The closure: it counts the characters and, unless the alphabet has one character, takes
  their bits.\<close>

definition chars_step :: "per_env \<Rightarrow> codec \<Rightarrow> nat \<Rightarrow> bool \<Rightarrow> (nat \<times> bits) step" where
  "chars_step V c width single input len s =
    (let total = fst s + len in
     if single then Some (Ok (input, (total, snd s)))
     else
       pbind (Some (take_input V c (usize_mul len width) input)) (\<lambda>(input, part).
         Some (Ok (input, (total, snd s @ part)))))"

definition parse_fixed_width_string :: "per_env \<Rightarrow> character_set_name \<Rightarrow> constraints \<Rightarrow> u32 list per_decode_fn" where
  "parse_fixed_width_string V S cs self =
    (let B = pv_bits V;
         is_aligned = pd_aligned (q_options self);
         alphabet = map_option constraint (c_permitted_alphabet cs);
         char_width = (case alphabet of None \<Rightarrow> CHARACTER_SET_WIDTH S | Some a \<Rightarrow> log2 (int (length a)));
         char_width = (if is_aligned then round_width char_width else char_width);
         single = (case alphabet of Some a \<Rightarrow> length a = 1 | None \<Rightarrow> False);
         indexed = should_be_indexed (CHARACTER_SET_WIDTH S) (CHARACTER_SET S);
         finish = (\<lambda>r self. pbind (map_option (map_err (\<lambda>e. DecodeError (PermittedAlphabetError e) (q_codec self))) r)
           (\<lambda>v. qret v self));
         by_bits = (\<lambda>bit_string. try_from_bits B S bit_string
           (if is_aligned then round_width (CHARACTER_SET_WIDTH S) else CHARACTER_SET_WIDTH S))
     in qbind (parse_large_string V char_width cs) (\<lambda>is_large_string.
        qbind (decode_extensible_string V cs is_large_string (chars_step V (q_codec self) char_width single) (0, []))
        (\<lambda>(total_length, bit_string).
          (case alphabet of
             Some a \<Rightarrow>
               if indexed \<or> CHARACTER_SET_WIDTH S >
                   (let w = log2 (int (length a)) in if is_aligned then round_width w else w) then
                 (if length a = 1
                  then qret (fold (\<lambda>_ string. push_char S string (a ! 0)) [0..<total_length] [])
                  else finish (try_from_permitted_alphabet B S bit_string (Some (enumerate_map a))))
               else finish (by_bits bit_string)
           | None \<Rightarrow>
               if indexed \<or> \<not> is_aligned then finish (try_from_permitted_alphabet B S bit_string None)
               else finish (by_bits bit_string)))) self)"

section \<open>The Decoder trait\<close>

definition per_decode_any :: "per_env \<Rightarrow> bytes per_decode_fn" where
  "per_decode_any V self =
    qbind (decode_extensible_container V constraints_NONE (take_step V (q_codec self) 8) []) (\<lambda>octet_string.
      qret (bv_raw (pv_bits V) octet_string)) self"

definition per_decode_bool :: "per_env \<Rightarrow> bool per_decode_fn" where
  "per_decode_bool V = parse_one_bit V"

definition per_decode_enumerated :: "per_env \<Rightarrow> 'e enumerated \<Rightarrow> 'e per_decode_fn" where
  "per_decode_enumerated V E =
    qbind (if en_EXTENDED_VARIANTS E \<noteq> None then parse_one_bit V else qret False) (\<lambda>is_extended.
      if is_extended then
        qbind (parse_normally_small_integer V (per_prim Usize)) (\<lambda>i self.
          case from_extended_enumeration_index E (nat i) of
            None \<Rightarrow> qerr (DecodeError (EnumerationIndexNotFound (nat i) True) (q_codec self)) self
          | Some e \<Rightarrow> qret e self)
      else
        qbind (parse_non_negative_binary_integer V (try_from_unsigned_bytes Usize) (int (variance E))) (\<lambda>i self.
          case from_enumeration_index E (nat i) of
            None \<Rightarrow> qerr (DecodeError (EnumerationIndexNotFound (nat i) False) (q_codec self)) self
          | Some e \<Rightarrow> qret e self))"

definition per_decode_integer :: "per_env \<Rightarrow> ('i, 'u) per_integer \<Rightarrow> constraints \<Rightarrow> 'i per_decode_fn" where
  "per_decode_integer V I cs = parse_integer V I cs"

definition per_decode_real :: "'a per_decode_fn" where
  "per_decode_real self = qerr (DecodeError RealNotSupported (q_codec self)) self"

text \<open>The closure appends the octets of each part.\<close>

definition octets_step :: "per_env \<Rightarrow> codec \<Rightarrow> bytes step" where
  "octets_step V c input len octet_string =
    pbind (Some (take_input V c (usize_mul len 8) input)) (\<lambda>(input, part).
      Some (Ok (input, octet_string @ bv_raw (pv_bits V) part)))"

definition per_decode_octet_string :: "per_env \<Rightarrow> constraints \<Rightarrow> bytes per_decode_fn" where
  "per_decode_octet_string V cs self = decode_extensible_container V cs (octets_step V (q_codec self)) [] self"

definition per_decode_null :: "unit per_decode_fn" where "per_decode_null = qret ()"

definition per_decode_object_identifier :: "per_env \<Rightarrow> u32 list per_decode_fn" where
  "per_decode_object_identifier V =
    qbind (decode_octets V) (\<lambda>octets self.
      pbind (decode_object_identifier_from_bytes (pv_nom V) decoder_options_ber (bv_raw (pv_bits V) octets))
        (\<lambda>oid. qret oid self))"

definition per_decode_bit_string :: "per_env \<Rightarrow> constraints \<Rightarrow> bits per_decode_fn" where
  "per_decode_bit_string V cs self = decode_extensible_container V cs (take_step V (q_codec self) 1) [] self"

text \<open>GeneralString and GraphicString.\<close>

definition per_decode_general_string :: "per_env \<Rightarrow> character_set_name \<Rightarrow> constraints \<Rightarrow> u32 list per_decode_fn" where
  "per_decode_general_string V S cs =
    qbind (per_decode_octet_string V cs) (\<lambda>bytes self.
      pbind (map_option (map_err (\<lambda>e. DecodeError
          (StringConversionFailed (if S = General then GENERAL_STRING else GRAPHIC_STRING)) (q_codec self)))
        (try_from_slice S bytes)) (\<lambda>v. qret v self))"

text \<open>The methods for the other restricted character strings; those for TeletexString and BMPString
  are \<open>todo!()\<close>, which panics.\<close>

definition per_decode_restricted_string :: "per_env \<Rightarrow> character_set_name \<Rightarrow> constraints \<Rightarrow> u32 list per_decode_fn" where
  "per_decode_restricted_string V S cs =
    (if S \<in> {Teletex, Bmp} then (\<lambda>self. None)
     else if S \<in> {General, Graphic} then per_decode_general_string V S cs
     else parse_fixed_width_string V S cs)"

text \<open>\<open>String::from_utf8\<close> accepts exactly the well-formed UTF-8 octets; a string is its octets.\<close>

definition per_decode_utf8_string :: "per_env \<Rightarrow> (bytes \<Rightarrow> bool) \<Rightarrow> constraints \<Rightarrow> bytes per_decode_fn" where
  "per_decode_utf8_string V is_utf8 cs =
    qbind (per_decode_octet_string V cs) (\<lambda>bytes self.
      if is_utf8 bytes then qret bytes self
      else qerr (DecodeError (StringConversionFailed UTF8_STRING) (q_codec self)) self)"

text \<open>\<open>length\<close> elements, each with a decoder of its own on the input that is left.\<close>

fun elements_step :: "'a per_decode_fn \<Rightarrow> per_decoder_options \<Rightarrow> bits \<Rightarrow> nat \<Rightarrow> 'a list \<Rightarrow> (bits \<times> 'a list) dec_result option" where
  "elements_step decode options input 0 vs = Some (Ok (input, vs))"
| "elements_step decode options input (Suc n) vs =
    pbind (decode (per_decoder_new input options)) (\<lambda>(v, decoder).
      elements_step decode options (q_input decoder) n (vs @ [v]))"

definition deeper :: "per_decoder_options \<Rightarrow> per_decoder_options" where
  "deeper options = options\<lparr>pd_remaining_depth := pd_remaining_depth options - 1\<rparr>"

definition per_decode_sequence_of :: "per_env \<Rightarrow> 'a per_decode_fn \<Rightarrow> constraints \<Rightarrow> 'a list per_decode_fn" where
  "per_decode_sequence_of V decode cs =
    qbind per_check_recursion_depth (\<lambda>_ self.
      decode_extensible_container V cs (elements_step decode (deeper (q_options self))) [] self)"

definition per_decode_set_of :: "per_env \<Rightarrow> 'a per_decode_fn \<Rightarrow> constraints \<Rightarrow> 'a multiset per_decode_fn" where
  "per_decode_set_of V decode cs = qbind (per_decode_sequence_of V decode cs) (\<lambda>vs. qret (mset vs))"

text \<open>The decoder of the components of a SEQUENCE or SET.\<close>

definition components_decoder :: "fields \<Rightarrow> fields option \<Rightarrow> bool \<Rightarrow> bits \<Rightarrow> per_decoder \<Rightarrow> per_decoder" where
  "components_decoder FIELDS EXTENDED_FIELDS is_extended bitmap self =
    \<lparr>q_input = q_input self, q_options = deeper (q_options self),
     q_fields = zip (optional_and_default_fields FIELDS) bitmap, q_extension_fields = EXTENDED_FIELDS,
     q_extensions_present = (if is_extended then Some None else None)\<rparr>"

definition per_decode_sequence ::
    "per_env \<Rightarrow> fields \<Rightarrow> fields option \<Rightarrow> bool \<Rightarrow> 'a per_decode_fn \<Rightarrow> 'a per_decode_fn" where
  "per_decode_sequence V FIELDS EXTENDED_FIELDS is_extensible decode_fn =
    qbind per_check_recursion_depth (\<lambda>_.
    qbind (if is_extensible then parse_one_bit V else qret False) (\<lambda>is_extended.
    qbind (parse_optional_and_default_field_bitmap V FIELDS) (\<lambda>bitmap self.
      pbind (decode_fn (components_decoder FIELDS EXTENDED_FIELDS is_extended bitmap self)) (\<lambda>(v, sequence_decoder).
        qret v (self\<lparr>q_input := q_input sequence_decoder\<rparr>)))))"

definition per_decode_explicit_prefix :: "bool \<Rightarrow> 'a per_decode_fn \<Rightarrow> 'a per_decode_fn \<Rightarrow> 'a per_decode_fn" where
  "per_decode_explicit_prefix choice decode decode_with_tag = (if choice then decode else decode_with_tag)"

text \<open>The loop over the root fields in canonical order, then over the extension additions.\<close>

fun per_decode_set_fields ::
    "(nat \<Rightarrow> tag \<Rightarrow> 'f per_decode_fn) \<Rightarrow> (field \<Rightarrow> bool option) \<Rightarrow> (nat \<times> field) list \<Rightarrow> 'f list per_decode_fn" where
  "per_decode_set_fields decode_fn field_map [] = qret []"
| "per_decode_set_fields decode_fn field_map ((i, f) # fs) =
    (if field_map f = Some False then per_decode_set_fields decode_fn field_map fs
     else qbind (decode_fn i (f_tag f)) (\<lambda>x.
       qbind (per_decode_set_fields decode_fn field_map fs) (\<lambda>xs. qret (x # xs))))"

definition per_decode_set ::
    "per_env \<Rightarrow> fields \<Rightarrow> fields option \<Rightarrow> bool \<Rightarrow> (nat \<Rightarrow> tag \<Rightarrow> 'f per_decode_fn) \<Rightarrow> ('f list \<Rightarrow> 'a dec_result) \<Rightarrow>
     'a per_decode_fn" where
  "per_decode_set V FIELDS EXTENDED_FIELDS is_extensible decode_fn field_fn =
    qbind per_check_recursion_depth (\<lambda>_.
    qbind (if is_extensible then parse_one_bit V else qret False) (\<lambda>is_extended.
    qbind (parse_optional_and_default_field_bitmap V FIELDS) (\<lambda>bitmap self.
      let field_map = map_of (rev (zip (optional_and_default_fields FIELDS) bitmap));
          field_indices = sort_by (\<lambda>a b. const_cmp (smallest_tag (tag_tree (snd a))) (smallest_tag (tag_tree (snd b))))
            (enumerate 0 (fields_list FIELDS));
          extended = (case EXTENDED_FIELDS of None \<Rightarrow> [] | Some fs \<Rightarrow> fields_list fs)
      in pbind (qbind (per_decode_set_fields decode_fn field_map field_indices) (\<lambda>xs.
             qbind (per_decode_set_fields decode_fn (\<lambda>_. None) (enumerate (length (fields_list FIELDS)) extended)) (\<lambda>ys.
               qret (xs @ ys))) (components_decoder FIELDS EXTENDED_FIELDS is_extended bitmap self))
           (\<lambda>(values, set_decoder).
             pbind (Some (field_fn values)) (\<lambda>v. qret v (self\<lparr>q_input := q_input set_decoder\<rparr>))))))"

definition per_decode_optional :: "tag \<Rightarrow> 'a per_decode_fn \<Rightarrow> 'a option per_decode_fn" where
  "per_decode_optional t decode =
    qbind (per_require_field t) (\<lambda>is_present.
      if is_present then qbind decode (\<lambda>v. qret (Some v)) else qret None)"

definition q_depth :: "(nat \<Rightarrow> nat) \<Rightarrow> per_decoder \<Rightarrow> per_decoder" where
  "q_depth f self = self\<lparr>q_options := (q_options self)\<lparr>pd_remaining_depth := f (pd_remaining_depth (q_options self))\<rparr>\<rparr>"

text \<open>\<open>map_err\<close> on the index of a CHOICE.\<close>

definition choice_index :: "int per_decode_fn \<Rightarrow> nat per_decode_fn" where
  "choice_index m self =
    pbind (map_option (map_err (\<lambda>e. DecodeError (ChoiceIndexExceedsPlatformWidth (BITS Usize) e) (q_codec self))) (m self))
      (\<lambda>(i, self). qret (nat i) self)"

definition per_decode_choice ::
    "per_env \<Rightarrow> tag_tree list \<Rightarrow> tag_tree list option \<Rightarrow> constraints \<Rightarrow> constraints \<Rightarrow> (tag \<Rightarrow> 'a per_decode_fn) \<Rightarrow>
     'a per_decode_fn" where
  "per_decode_choice V VARIANTS EXTENDED_VARIANTS VARIANCE_CONSTRAINT cs choice_from_tag =
    qbind per_check_recursion_depth (\<lambda>_.
    qbind (parse_extensible_bit V cs) (\<lambda>is_extended.
      let variants = variants_from_slice (if is_extended
            then (case EXTENDED_VARIANTS of Some vs \<Rightarrow> vs | None \<Rightarrow> []) else VARIANTS)
      in qbind
           (if length variants \<noteq> 1 \<or> is_extended then
              choice_index (if is_extended then parse_normally_small_integer V (per_prim Usize)
                else parse_integer V (per_prim Usize) VARIANCE_CONSTRAINT)
            else qret 0) (\<lambda>i self.
         case get variants i of
           None \<Rightarrow> qerr (DecodeError (ChoiceIndexNotFound i variants) (q_codec self)) self
         | Some t \<Rightarrow>
             if is_extended then
               qbind (decode_octets V) (\<lambda>bytes self.
                 pbind (choice_from_tag t (per_decoder_new bytes (deeper (q_options self)))) (\<lambda>(v, _). qret v self)) self
             else
               pbind (choice_from_tag t (q_depth (\<lambda>d. d - 1) self)) (\<lambda>(v, self).
                 qret v (q_depth (\<lambda>d. min (d + 1) usize_MAX) self)))))"

text \<open>An extension addition and an extension addition group: an open type with a decoder of its own.\<close>

definition per_decode_extension_addition :: "per_env \<Rightarrow> 'a per_decode_fn \<Rightarrow> 'a option per_decode_fn" where
  "per_decode_extension_addition V decode =
    qbind (per_parse_extension_header V) (\<lambda>has_extensions.
      if \<not> has_extensions then qret None
      else
        qbind per_extension_is_present (\<lambda>r.
          if \<not> (case r of Some (_, b) \<Rightarrow> b | None \<Rightarrow> False) then qret None
          else
            qbind (decode_octets V) (\<lambda>bytes self.
              pbind (decode (per_decoder_new bytes (q_options self))) (\<lambda>(v, _). qret (Some v) self))))"

definition per_decode_extension_addition_group :: "per_env \<Rightarrow> 'a per_decode_fn \<Rightarrow> 'a option per_decode_fn" where
  "per_decode_extension_addition_group V decode =
    qbind (per_parse_extension_header V) (\<lambda>has_extensions.
      if \<not> has_extensions then qret None
      else
        qbind per_extension_is_present (\<lambda>r.
          if \<not> (case r of Some (_, b) \<Rightarrow> b | None \<Rightarrow> False) then qret None
          else
            qbind (decode_octets V) (\<lambda>bytes self.
              pbind (decode (per_decoder_new bytes (q_options self))) (\<lambda>(v, _). qret (Some v) self))))"

text \<open>\<open>per::decode\<close> and \<open>per::decode_with_remainder\<close>; the remainder is whole octets.\<close>

definition per_decode :: "per_env \<Rightarrow> per_decoder_options \<Rightarrow> 'a per_decode_fn \<Rightarrow> bytes \<Rightarrow> 'a dec_result option" where
  "per_decode V options decode input =
    map_option (map_ok fst) (decode (per_decoder_new (bv_from_slice (pv_bits V) input) options))"

definition per_decode_with_remainder ::
    "per_env \<Rightarrow> per_decoder_options \<Rightarrow> 'a per_decode_fn \<Rightarrow> bytes \<Rightarrow> ('a \<times> bytes) dec_result option" where
  "per_decode_with_remainder V options decode input =
    pbind (decode (per_decoder_new (bv_from_slice (pv_bits V) input) options)) (\<lambda>(v, decoder).
      let remaining_size = length (q_input decoder) div 8 in
      Some (Ok (v, drop (length input - remaining_size) input)))"

definition uper_decode :: "per_env \<Rightarrow> 'a per_decode_fn \<Rightarrow> bytes \<Rightarrow> 'a dec_result option" where
  "uper_decode V decode input = per_decode V per_dec_unaligned decode input"

definition uper_decode_with_remainder ::
    "per_env \<Rightarrow> 'a per_decode_fn \<Rightarrow> bytes \<Rightarrow> ('a \<times> bytes) dec_result option" where
  "uper_decode_with_remainder V decode input = per_decode_with_remainder V per_dec_unaligned decode input"

definition aper_decode :: "per_env \<Rightarrow> 'a per_decode_fn \<Rightarrow> bytes \<Rightarrow> 'a dec_result option" where
  "aper_decode V decode input = per_decode V per_dec_aligned decode input"

definition aper_decode_with_remainder ::
    "per_env \<Rightarrow> 'a per_decode_fn \<Rightarrow> bytes \<Rightarrow> ('a \<times> bytes) dec_result option" where
  "aper_decode_with_remainder V decode input = per_decode_with_remainder V per_dec_aligned decode input"

end
