(* ===== verification/Per_Codec.thy ===== *)
theory Per_Codec
  imports Per_Decoder Oer_Codec
begin

text \<open>
  The contract between the encoders and the decoders of UPER: outside a SET an encoder appends the
  bits of the value to the output, and the decoder takes exactly these bits off its input; and
  the facts about lengths and bounded numbers on which the types rest.
\<close>

abbreviation uper_encoder :: "per_encoder \<Rightarrow> bool" where
  "uper_encoder e \<equiv> \<not> pe_aligned (p_options e) \<and> \<not> pe_set_encoding (p_options e)"

abbreviation uper_depth :: "nat \<Rightarrow> per_decoder_options \<Rightarrow> bool" where
  "uper_depth n options \<equiv>
    \<not> pd_aligned options \<and> n \<le> pd_remaining_depth options \<and> pd_remaining_depth options \<le> usize_MAX"

locale uper_codec =
  fixes enc :: "'a \<Rightarrow> per_encode_fn" and dec :: "'a per_decode_fn" and bits :: "'a \<Rightarrow> bits"
    and good :: "'a \<Rightarrow> bool" and depth :: nat
  assumes enc_bits: "good v \<Longrightarrow> uper_encoder e \<Longrightarrow> enc v e = Some (Ok (e\<lparr>p_output := p_output e @ bits v\<rparr>))"
    and dec_bits: "good v \<Longrightarrow> uper_depth depth (q_options d) \<Longrightarrow> q_input d = bits v @ rest \<Longrightarrow>
      dec d = Some (Ok (v, d\<lparr>q_input := rest\<rparr>))"

lemma per_extend_uper: "uper_encoder e \<Longrightarrow> per_extend t b e = e\<lparr>p_output := p_output e @ b\<rparr>"
  by (simp add: per_extend_def)

lemma pad_uper [simp]: "\<not> pe_aligned (p_options e) \<Longrightarrow> pad_to_alignment e b = b"
  by (simp add: pad_to_alignment_def)

lemma padding_uper [simp]: "\<not> pd_aligned options \<Longrightarrow> parse_padding V options input = Ok input"
  by (simp add: parse_padding_def)

lemma uper_codecs: "\<not> pe_aligned options \<Longrightarrow> per_enc_current_codec options = Uper"
  "\<not> pd_aligned options' \<Longrightarrow> per_dec_current_codec options' = Uper"
  by (simp_all add: per_enc_current_codec_def per_dec_current_codec_def)

section \<open>Taking bits\<close>

lemma take_input_append:
  assumes "per_documented V" "length xs = n"
  shows "take_input V c n (xs @ rest) = Ok (rest, xs)"
proof -
  have "pv_take V n (xs @ rest) = Ok (drop n (xs @ rest), take n (xs @ rest))"
    using assms unfolding per_documented_def by simp
  then show ?thesis using assms(2) by (simp add: take_input_def)
qed

lemma parse_one_bit_Cons:
  "per_documented V \<Longrightarrow> q_input d = b # rest \<Longrightarrow> parse_one_bit V d = Some (Ok (b, d\<lparr>q_input := rest\<rparr>))"
  using take_input_append [of V "[b]" 1 "q_codec d" rest] by (simp add: parse_one_bit_def qret_def)

lemma documented_bits: "per_documented V \<Longrightarrow> bits_documented (pv_bits V)"
  by (simp add: per_documented_def)

section \<open>Bounded numbers\<close>

lemma encode_non_negative_bits:
  assumes "bits_documented B" "be_val bytes < 2 ^ log2 rng"
  shows "encode_non_negative_binary_integer B buffer rng bytes = buffer @ to_bits (log2 rng) (nat (be_val bytes))"
proof -
  note B = bits_documentedD [OF assms(1)]
  let ?bs = "bv_from_slice B bytes" and ?k = "log2 rng"
  have v: "bits_val ?bs = nat (be_val bytes)" by (rule B(3))
  have less: "bits_val ?bs < 2 ^ ?k" using assms(2) v by (simp add: nat_less_iff)
  show ?thesis
  proof (cases "length ?bs < ?k")
    case True
    have "to_bits ?k (nat (be_val bytes)) = replicate (?k - length ?bs) False @ ?bs"
      using True v by (intro to_bits_eqI) simp_all
    then show ?thesis using True by (simp add: encode_non_negative_binary_integer_def Let_def)
  next
    case False
    then have "drop (length ?bs - ?k) ?bs = to_bits ?k (nat (be_val bytes))"
      using drop_eq_to_bits [OF less] v by simp
    then show ?thesis using False by (auto simp: encode_non_negative_binary_integer_def Let_def)
  qed
qed

definition octets_for :: "nat \<Rightarrow> nat" where "octets_for k = max 1 ((k + 7) div 8)"

lemma pad_front:
  fixes data :: bits
  defines "r \<equiv> (if length data < 8 then replicate (8 - length data) False @ data
    else if length data mod 8 \<noteq> 0 then replicate (8 - length data mod 8) False @ data else data)"
  shows "length r = 8 * octets_for (length data)" "bits_val r = bits_val data"
proof -
  have "n < 8 \<Longrightarrow> (8 - n) + n = 8 * max 1 ((n + 7) div 8)" for n :: nat by (cases "n = 0") simp_all
  moreover have "(8 - n mod 8) + n = 8 * max 1 ((n + 7) div 8)" if "8 \<le> n" "n mod 8 \<noteq> 0" for n :: nat
  proof -
    define q t where "q = n div 8" and "t = n mod 8"
    have n: "n = 8 * q + t" "t < 8" "t \<noteq> 0" using that div_mult_mod_eq [of n 8] by (simp_all add: q_def t_def)
    then have "(n + 7) div 8 = q + 1" by (intro div_nat_eqI) simp_all
    then show ?thesis using n(1,2) unfolding t_def [symmetric] by (simp add: max_def)
  qed
  moreover have "n = 8 * max 1 ((n + 7) div 8)" if "8 \<le> n" "n mod 8 = 0" for n :: nat
  proof -
    define q where "q = n div 8"
    have n: "n = 8 * q" "1 \<le> q" using that div_mult_mod_eq [of n 8] by (simp_all add: q_def)
    then have "(n + 7) div 8 = q" by (intro div_nat_eqI) simp_all
    then show ?thesis using n by (simp add: max_def)
  qed
  ultimately show "length r = 8 * octets_for (length data)" by (simp add: r_def octets_for_def)
  show "bits_val r = bits_val data" by (simp add: r_def)
qed

lemma parse_non_negative_bits:
  assumes "per_documented V" "q_input d = to_bits (log2 rng) n @ rest" "n < 2 ^ log2 rng"
  obtains bytes where "be_val bytes = int n" "length bytes = octets_for (log2 rng)"
    "parse_non_negative_binary_integer V from_bytes rng d =
      pbind (Some (from_bytes bytes (q_codec d))) (\<lambda>u. Some (Ok (u, d\<lparr>q_input := rest\<rparr>)))"
proof -
  let ?data = "to_bits (log2 rng) n"
  define r where "r = (if length ?data < 8 then replicate (8 - length ?data) False @ ?data
    else if length ?data mod 8 \<noteq> 0 then replicate (8 - length ?data mod 8) False @ ?data else ?data)"
  have r: "length r = 8 * octets_for (log2 rng)" "bits_val r = n"
    using pad_front [of ?data] assms(3) by (simp_all add: r_def bits_val_to_bits)
  note B = be_val_raw [OF documented_bits [OF assms(1)], of r]
  have "be_val (bv_raw (pv_bits V) r) = int n" "length (bv_raw (pv_bits V) r) = octets_for (log2 rng)"
    using B(1,2) r by simp_all
  moreover have "parse_non_negative_binary_integer V from_bytes rng d =
      pbind (Some (from_bytes (bv_raw (pv_bits V) r) (q_codec d))) (\<lambda>u. Some (Ok (u, d\<lparr>q_input := rest\<rparr>)))"
    using take_input_append [OF assms(1), of ?data "log2 rng" "q_codec d" rest] assms(2)
    by (simp add: parse_non_negative_binary_integer_def r_def Let_def qret_def)
  ultimately show thesis by (rule that)
qed

section \<open>Lengths\<close>

definition length_bits :: "nat \<Rightarrow> bits" where
  "length_bits n = (if n \<le> 127 then False # to_bits 7 n else True # False # to_bits 14 n)"

lemma short_length_bits:
  assumes "bits_documented B" "n \<le> 127"
  shows "bv_from_slice B [word_of_nat n] = length_bits n"
proof (rule bits_val_inj)
  note B = bits_documentedD [OF assms(1)]
  show "length (bv_from_slice B [word_of_nat n]) = length (length_bits n)"
    using assms(2) B(2) by (simp add: length_bits_def)
  have "be_val [word_of_nat n] = int n"
    using assms(2) be_val_snoc [of "[]" "word_of_nat n"] by (simp add: uint_nat unat_of_nat take_bit_nat_eq_self)
  then show "bits_val (bv_from_slice B [word_of_nat n]) = bits_val (length_bits n)"
    using assms(2) B(3) [of "[word_of_nat n]"] by (simp add: length_bits_def bits_val_Cons bits_val_to_bits)
qed

lemma or_16th_bit:
  assumes "n < 2 ^ 15"
  shows "uint (0x8000 OR (word_of_nat n :: 16 word)) = 0x8000 + int n"
proof -
  have n: "take_bit 15 (int n) = int n" "uint (word_of_nat n :: 16 word) = int n"
    using assms by (simp_all add: take_bit_int_eq_self unsigned_of_nat take_bit_nat_eq_self)
  have "uint (0x8000 OR (word_of_nat n :: 16 word)) = 0x8000 OR int n"
    by (simp add: unsigned_or_eq n(2))
  also have "\<dots> = concat_bit 15 (int n) 1"
    by (simp add: concat_bit_def n(1) or.commute push_bit_eq_mult)
  also have "\<dots> = 0x8000 + int n" by (simp add: concat_bit_eq n(1) push_bit_eq_mult)
  finally show ?thesis .
qed

lemma long_length_octets:
  assumes "bits_documented B" "127 < n" "n < SIXTEEN_K"
  shows "bv_from_slice B (be_bytes 2 (uint (0x8000 OR (word_of_nat n :: 16 word)))) = length_bits n"
proof (rule bits_val_inj)
  note B = bits_documentedD [OF assms(1)]
  let ?w = "0x8000 OR (word_of_nat n :: 16 word)"
  have n: "n < 16384" using assms(3) by (simp add: SIXTEEN_K_def)
  show "length (bv_from_slice B (be_bytes 2 (uint ?w))) = length (length_bits n)"
    using assms(2) B(2) by (simp add: length_bits_def)
  have "be_val (be_bytes 2 (uint ?w)) = 0x8000 + int n"
    using or_16th_bit [of n] n by (simp add: be_val_be_bytes)
  then show "bits_val (bv_from_slice B (be_bytes 2 (uint ?w))) = bits_val (length_bits n)"
    using assms(2) B(3) [of "be_bytes 2 (uint ?w)"] n
    by (simp add: length_bits_def bits_val_Cons bits_val_to_bits nat_add_distrib)
qed

lemma encode_short_length_bits:
  assumes "bits_documented B" "\<not> pe_aligned (p_options e)" "n < SIXTEEN_K"
  shows "encode_short_length B e buffer n f = pbind (f 0 n) (\<lambda>b. Some (Ok (buffer @ length_bits n @ b)))"
  using assms short_length_bits [OF assms(1), of n] long_length_octets [OF assms(1), of n]
  by (simp add: encode_short_length_def Let_def not_le)

lemma encode_unconstrained_length_bits:
  assumes "bits_documented B" "\<not> pe_aligned (p_options e)" "n < SIXTEEN_K"
  shows "encode_unconstrained_length B e buffer n f = pbind (f 0 n) (\<lambda>b. Some (Ok (buffer @ length_bits n @ b)))"
  using assms by (simp add: encode_unconstrained_length_def encode_short_length_bits)

lemma decode_unknown_length_bits:
  assumes "per_documented V" "\<not> pd_aligned options" "n < SIXTEEN_K"
  shows "decode_unknown_length V options f None (length_bits n @ rest) s = f rest n s"
proof -
  note [simp] = take_input_append [OF assms(1)]
  have n: "n < 16384" using assms(3) by (simp add: SIXTEEN_K_def)
  have load: "bv_load_be (pv_bits V) (to_bits k n) = n mod 2 ^ k" if "0 < k" "k \<le> 64" for k
    using bits_documentedD(4) [OF documented_bits [OF assms(1)], of "to_bits k n"] that by (simp add: bits_val_to_bits)
  have one: "take_input V c (Suc 0) (b # xs) = Ok (xs, [b])" for c b xs
    using take_input_append [OF assms(1), of "[b]" 1 c xs] by simp
  show ?thesis
    by (subst decode_unknown_length.simps) (use assms(2) n in \<open>simp add: length_bits_def one load\<close>)
qed

text \<open>The number of elements under a size constraint.\<close>

definition size_bits :: "size_constraint extensible option \<Rightarrow> nat \<Rightarrow> bits" where
  "size_bits cs n =
    (case Option.bind cs (small_range \<circ> constraint) of
       None \<Rightarrow> length_bits n
     | Some rng \<Rightarrow> to_bits (log2 rng) (nat (int n - minimum (the (map_option constraint cs)))))"

definition size_ok :: "size_constraint extensible option \<Rightarrow> nat \<Rightarrow> bool" where
  "size_ok cs n \<longleftrightarrow>
    (case cs of
       None \<Rightarrow> n < SIXTEEN_K
     | Some c \<Rightarrow> bounded_in_type Usize (constraint c) \<and> contains (constraint c) (int n) \<and>
         (small_range (constraint c) = None \<longrightarrow> n < SIXTEEN_K))"


lemma bounded_range_exact:
  assumes "in_type t s" "in_type t e" "s \<le> v" "v \<le> e" "e - s \<le> type_max t"
  shows "bounded_range t (Range (Some s) (Some e)) = Some (min (type_max t) (e - s + 1))"
    and "effective_value t (Range (Some s) w) v = Inl (v - s)"
proof -
  have neg: "type_min t \<le> 0" by (simp add: type_min_def)
  have "in_type t (e - s)" "in_type t (v - s)" using assms neg by (auto simp: in_type_def)
  then show "bounded_range t (Range (Some s) (Some e)) = Some (min (type_max t) (e - s + 1))"
    and "effective_value t (Range (Some s) w) v = Inl (v - s)"
    using assms neg by (auto simp: wrapping_sub_def saturating_add_def max_def)
qed

lemma small_range_facts:
  assumes "small_range c = Some rng" "bounded_in_type Usize c" "contains c (int n)"
  shows "1 \<le> rng" "rng \<le> 65536" "int n - minimum c < rng" "0 \<le> int n - minimum c" "in_type Usize (int n)"
    "0 \<le> minimum c" "bounded_range Usize c = Some rng" "\<exists>s e. start_and_end c = (Some s, Some e)"
    "rng \<noteq> 1 \<Longrightarrow> effective_value Usize c (int n) = Inl (int n - minimum c)"
proof -
  have r: "bounded_range Usize c = Some rng" "rng \<le> 65536"
    using assms(1) by (auto simp: small_range_def SIXTY_FOUR_K_def split: option.splits if_splits)
  then consider (single) m where "c = Single m" "rng = 1"
    | (range) s e where "c = Range (Some s) (Some e)" by (cases "(Usize, c)" rule: bounded_range.cases) auto
  then have "1 \<le> rng \<and> int n - minimum c < rng \<and> 0 \<le> int n - minimum c \<and> in_type Usize (int n) \<and>
    0 \<le> minimum c \<and> (\<exists>s e. start_and_end c = (Some s, Some e)) \<and>
    (rng \<noteq> 1 \<longrightarrow> effective_value Usize c (int n) = Inl (int n - minimum c))"
  proof cases
    case single
    then show ?thesis using assms by (auto simp: minimum_def in_type_def type_min_def)
  next
    case (range s e)
    then have b: "in_type Usize s" "in_type Usize e" "s \<le> int n" "int n \<le> e" using assms by simp_all
    then have "e - s \<le> type_max Usize" by (simp add: in_type_def type_min_def)
    note e = bounded_range_exact [OF b this]
    have "rng = e - s + 1" using r range e(1) by (simp add: type_max_def)
    then show ?thesis using range b e(2) by (auto simp: minimum_def in_type_def type_min_def)
  qed
  then show "1 \<le> rng" "rng \<le> 65536" "int n - minimum c < rng" "0 \<le> int n - minimum c" "in_type Usize (int n)"
    "0 \<le> minimum c" "bounded_range Usize c = Some rng" "\<exists>s e. start_and_end c = (Some s, Some e)"
    "rng \<noteq> 1 \<Longrightarrow> effective_value Usize c (int n) = Inl (int n - minimum c)"
    using r by auto
qed

lemma small_range_less:
  assumes "small_range c = Some rng" "bounded_in_type Usize c" "contains c (int n)"
  shows "int n - minimum c < 2 ^ log2 rng" "log2 rng \<le> 16" "rng \<noteq> 1 \<Longrightarrow> 0 < log2 rng"
proof -
  note f = small_range_facts [OF assms]
  have t: "in_type I128 rng" using f(1,2) by (simp add: in_type_def type_min_def type_max_def)
  show "int n - minimum c < 2 ^ log2 rng" using le_pow_log2 [OF f(1) t] f(3) by simp
  show "log2 rng \<le> 16" using log2_le_iff [OF f(1) t, of 16] f(2) by simp
  show "rng \<noteq> 1 \<Longrightarrow> 0 < log2 rng" using log2_le_iff [OF f(1) t, of 0] f(1) by force
qed

lemma encode_string_length_bits:
  assumes B: "bits_documented B" and e: "\<not> pe_aligned (p_options e)" and ok: "size_ok cs n"
  shows "encode_string_length B e buffer large n cs f = pbind (f 0 n) (\<lambda>b. Some (Ok (buffer @ size_bits cs n @ b)))"
proof (cases "Option.bind cs (small_range \<circ> constraint)")
  case None
  then have n: "n < SIXTEEN_K" using ok by (auto simp: size_ok_def split: option.splits)
  note u = encode_unconstrained_length_bits [OF B e n]
  show ?thesis
  proof (cases cs)
    case (Some c)
    then have "small_range (constraint c) = None" "contains (constraint c) (int n)"
      using None ok by (auto simp: size_ok_def)
    then show ?thesis using Some None u e
      by (auto simp: encode_string_length_def check_length_def contains_or_def small_range_def size_bits_def
          SIXTY_FOUR_K_def split: option.splits if_splits prod.splits elim!: start_and_end.elims)
  qed (use None u in \<open>simp add: encode_string_length_def size_bits_def\<close>)
next
  case (Some rng)
  then obtain c where c: "cs = Some c" "small_range (constraint c) = Some rng" by (auto split: Option.bind_splits)
  then have o: "bounded_in_type Usize (constraint c)" "contains (constraint c) (int n)"
    using ok by (auto simp: size_ok_def)
  note f = small_range_facts [OF c(2) o] and l = small_range_less [OF c(2) o]
  let ?m = "int n - minimum (constraint c)"
  obtain s t where st: "start_and_end (constraint c) = (Some s, Some t)" using f(8) by blast
  have "cast U32 ?m = ?m" using f(2,3,4) by (intro cast_id) (simp add: in_type_def type_min_def type_max_def)
  then have v: "be_val (be_bytes 4 (cast U32 ?m)) = ?m" using f(2,3,4) by (simp add: be_val_be_bytes)
  note enc = encode_non_negative_bits [OF B, of "be_bytes 4 (cast U32 ?m)" rng buffer, unfolded v, OF l(1)]
  show ?thesis using c(1) Some st f(1,2,7,9) o e enc
    by (auto simp: encode_string_length_def check_length_def contains_or_def size_bits_def SIXTY_FOUR_K_def Let_def)
qed

lemma decode_constrained_length_bits:
  assumes V: "per_documented V" and d: "\<not> pd_aligned options" and c: "small_range c = Some rng" "rng \<noteq> 1"
    and o: "bounded_in_type Usize c" "contains c (int n)"
  shows "decode_constrained_length V options c rng large f (to_bits (log2 rng) (nat (int n - minimum c)) @ rest) s = f rest n s"
proof -
  note F = small_range_facts [OF c(1) o] and l = small_range_less [OF c(1) o]
  let ?m = "nat (int n - minimum c)"
  have "?m < 2 ^ log2 rng" using l(1) F(4) by (simp add: nat_less_iff)
  then have load: "bv_load_be (pv_bits V) (to_bits (log2 rng) ?m) = ?m"
    using bits_documentedD(4) [OF documented_bits [OF V], of "to_bits (log2 rng) ?m"] l(2,3) c(2)
    by (simp add: bits_val_to_bits)
  have "checked_add Usize (int ?m) (minimum c) = Some (int n)"
    using F(4,5) by (simp add: checked_add_def)
  then show ?thesis
    using take_input_append [OF V, of "to_bits (log2 rng) ?m" "log2 rng" _ rest] d load
    by (simp add: decode_constrained_length_def Let_def)
qed

lemma decode_string_length_bits:
  assumes V: "per_documented V" and d: "\<not> pd_aligned options" and ok: "size_ok cs n"
  shows "decode_string_length V options cs large f (size_bits cs n @ rest) s = f rest n s"
    and "per_decode_length V options cs f (size_bits cs n @ rest) s = f rest n s"
proof -
  have "decode_string_length V options cs large f (size_bits cs n @ rest) s = f rest n s \<and>
    per_decode_length V options cs f (size_bits cs n @ rest) s = f rest n s"
  proof (cases "Option.bind cs (small_range \<circ> constraint)")
    case None
    then have n: "n < SIXTEEN_K" using ok by (auto simp: size_ok_def split: option.splits)
    show ?thesis using None decode_unknown_length_bits [OF V d n]
      by (cases cs) (simp_all add: decode_string_length_def per_decode_length_def size_bits_def)
  next
    case (Some rng)
    then obtain c where c: "cs = Some c" "small_range (constraint c) = Some rng" by (auto split: Option.bind_splits)
    then have o: "bounded_in_type Usize (constraint c)" "contains (constraint c) (int n)"
      using ok by (auto simp: size_ok_def)
    note F = small_range_facts [OF c(2) o]
    show ?thesis
    proof (cases "rng = 1")
      case True
      then have "minimum (constraint c) = int n" using F(3,4) by linarith
      then show ?thesis using True c d by (simp add: decode_string_length_def per_decode_length_def size_bits_def)
    next
      case False
      then show ?thesis using c F(1)
        by (simp add: decode_string_length_def per_decode_length_def size_bits_def
            decode_constrained_length_bits [OF V d c(2) False o])
    qed
  qed
  then show "decode_string_length V options cs large f (size_bits cs n @ rest) s = f rest n s"
    and "per_decode_length V options cs f (size_bits cs n @ rest) s = f rest n s" by auto
qed

section \<open>Containers\<close>

text \<open>The size of a string under an extensible constraint: one bit tells whether the size constraint
  is left.\<close>

definition extended_size :: "constraints \<Rightarrow> nat \<Rightarrow> bool" where
  "extended_size cs n \<longleftrightarrow> constraints_extensible cs \<and> \<not> size_in_root cs n"

definition effective_size :: "constraints \<Rightarrow> nat \<Rightarrow> size_constraint extensible option" where
  "effective_size cs n = (if extended_size cs n then None else c_size cs)"

definition container_bits :: "constraints \<Rightarrow> nat \<Rightarrow> bits" where
  "container_bits cs n =
    (if constraints_extensible cs then [extended_size cs n] else []) @ size_bits (effective_size cs n) n"

lemma encode_extensible_bit_size:
  "encode_extensible_bit cs buffer (size_in_root cs n) =
    (extended_size cs n, buffer @ (if constraints_extensible cs then [extended_size cs n] else []))"
  by (simp add: encode_extensible_bit_def extended_size_def)

lemma decode_extensible_container_bits:
  assumes "per_documented V" "\<not> pd_aligned (q_options d)" "size_ok (effective_size cs n) n"
    "q_input d = container_bits cs n @ rest"
  shows "decode_extensible_container V cs f s d =
      pbind (f rest n s) (\<lambda>(input, s). Some (Ok (s, d\<lparr>q_input := input\<rparr>)))"
    and "decode_extensible_string V cs large f s d =
      pbind (f rest n s) (\<lambda>(input, s). Some (Ok (s, d\<lparr>q_input := input\<rparr>)))"
proof -
  let ?d = "d\<lparr>q_input := size_bits (effective_size cs n) n @ rest\<rparr>"
  have bit: "parse_extensible_bit V cs d = Some (Ok (extended_size cs n, ?d))"
  proof (cases "constraints_extensible cs")
    case True
    then show ?thesis using parse_one_bit_Cons [OF assms(1)] assms(4)
      by (simp add: parse_extensible_bit_def container_bits_def)
  next
    case False
    then have "d = ?d" using assms(4) by (simp add: container_bits_def)
    then show ?thesis using False by (simp add: parse_extensible_bit_def extended_size_def qret_def)
  qed
  note dec = decode_string_length_bits [OF assms(1,2,3)]
  show "decode_extensible_container V cs f s d =
      pbind (f rest n s) (\<lambda>(input, s). Some (Ok (s, d\<lparr>q_input := input\<rparr>)))"
    and "decode_extensible_string V cs large f s d =
      pbind (f rest n s) (\<lambda>(input, s). Some (Ok (s, d\<lparr>q_input := input\<rparr>)))"
    using bit by (simp_all add: decode_extensible_container_def decode_extensible_string_def
        qbind_def qret_def effective_size_def [symmetric] dec)
qed

end
