(* ===== verification/Per_Types.thy ===== *)
theory Per_Types
  imports Per_Codec Ber_Primitives
begin

text \<open>
  The primitive types and SEQUENCE OF keep the contract of UPER, each as an interpretation on the
  encoder and the decoder of \<open>per/\<close>.
\<close>

lemmas uper_steps = per_extend_uper qbind_def qret_def

section \<open>BOOLEAN and NULL\<close>

definition given :: "per_env \<Rightarrow> ('a \<Rightarrow> bool) \<Rightarrow> 'a \<Rightarrow> bool" where
  "given V good v \<longleftrightarrow> per_documented V \<and> good v"

interpretation uper_bool: uper_codec "per_encode_bool t" "per_decode_bool V" "\<lambda>b. [b]" "given V (\<lambda>_. True)" 0 for t V
  by unfold_locales (simp_all add: per_encode_bool_def per_extend_uper per_decode_bool_def parse_one_bit_Cons given_def)

interpretation uper_null: uper_codec "\<lambda>_ :: unit. per_encode_null" per_decode_null "\<lambda>_. []" "\<lambda>_. True" 0
  by unfold_locales (simp_all add: per_encode_null_def per_decode_null_def qret_def)

section \<open>Strings\<close>

lemma bounded_range_not_zero: "bounded_range Usize c \<noteq> Some 0"
proof -
  have "0 \<le> wrapping_sub Usize a b" for a b
    using cast_in_type [of Usize "a - b"] by (simp add: wrapping_sub_def in_type_def type_min_def)
  then show ?thesis
    by (cases "(Usize, c)" rule: bounded_range.cases)
      (auto simp: saturating_add_def max_def min_def type_min_def type_max_def add_nonneg_eq_0_iff)
qed

lemma slice_all [simp]: "slice xs 0 (length xs) = Some xs"
  by (simp add: slice_def)

lemma usize_mul_exact: "n * k \<le> usize_MAX \<Longrightarrow> usize_mul n k = n * k"
proof -
  assume "n * k \<le> usize_MAX"
  then have "int (n * k) \<le> int usize_MAX" by (simp only: of_nat_le_iff)
  then have "in_type Usize (int (n * k))" by (simp add: in_type_def type_min_def type_max_def usize_MAX_def)
  then show ?thesis by (simp add: usize_mul_def cast_id nat_mult_distrib)
qed

definition octets_bits :: "bytes \<Rightarrow> bits" where "octets_bits v = concat (map msb_bits v)"

lemma length_octets_bits [simp]: "length (octets_bits v) = 8 * length v"
  by (simp add: octets_bits_def)

lemma octets_range_all: "bits_documented B \<Longrightarrow> octets_range B v 0 (length v) = Some (Ok (octets_bits v))"
  by (simp add: octets_range_def octets_bits_def bits_documentedD(1))

lemma raw_octets_bits: "bits_documented B \<Longrightarrow> bv_raw B (octets_bits v) = v"
  using raw_from_slice [of B v] by (simp add: octets_bits_def bits_documentedD(1))

definition string_fits :: "constraints \<Rightarrow> nat \<Rightarrow> nat \<Rightarrow> bool" where
  "string_fits cs width n \<longleftrightarrow> n * width \<le> usize_MAX \<and> size_ok (effective_size cs n) n"

lemma encode_octets_bits:
  assumes B: "bits_documented B" and e: "\<not> pe_aligned (p_options e)" and ok: "string_fits cs 8 (length v)"
  shows "encode_octet_string_into_buffer B e cs v buffer =
    Some (Ok (buffer @ container_bits cs (length v) @ octets_bits v))"
proof -
  have ok: "size_ok (effective_size cs (length v)) (length v)" using ok by (simp add: string_fits_def)
  note enc = encode_string_length_bits [OF B e ok]
  show ?thesis
  proof (cases "extended_size cs (length v) \<or> c_size cs = None")
    case True
    then have eff: "effective_size cs (length v) = None" by (auto simp: effective_size_def)
    then show ?thesis using True enc [unfolded eff]
      by (auto simp: encode_octet_string_into_buffer_def encode_extensible_bit_size per_encode_length_def
          octets_range_all [OF B] container_bits_def split: option.splits)
  next
    case False
    then obtain sz where sz: "c_size cs = Some sz" "effective_size cs (length v) = Some sz"
      "\<not> extended_size cs (length v)"
      by (auto simp: effective_size_def)
    then show ?thesis using enc [unfolded sz(2)] e
      by (simp add: encode_octet_string_into_buffer_def encode_extensible_bit_size per_encode_length_def
          octets_range_all [OF B] container_bits_def bounded_range_not_zero Let_def)
  qed
qed

interpretation uper_octet_string: uper_codec "per_encode_octet_string (pv_bits V) t cs" "per_decode_octet_string V cs"
  "\<lambda>v. container_bits cs (length v) @ octets_bits v" "given V (\<lambda>v. string_fits cs 8 (length v))" 0 for V t cs
proof
  fix v :: bytes and e
  assume "given V (\<lambda>v. string_fits cs 8 (length v)) v" "uper_encoder e"
  then show "per_encode_octet_string (pv_bits V) t cs v e =
      Some (Ok (e\<lparr>p_output := p_output e @ container_bits cs (length v) @ octets_bits v\<rparr>))"
    by (simp add: per_encode_octet_string_def encode_octets_bits documented_bits given_def per_extend_uper)
next
  fix v :: bytes and rest and d :: per_decoder
  assume v: "given V (\<lambda>v. string_fits cs 8 (length v)) v" and d: "uper_depth 0 (q_options d)"
    and i: "q_input d = (container_bits cs (length v) @ octets_bits v) @ rest"
  then have V: "per_documented V" and ok: "size_ok (effective_size cs (length v)) (length v)"
    and l: "length v * 8 \<le> usize_MAX" by (simp_all add: given_def string_fits_def)
  have "octets_step V (q_codec d) (octets_bits v @ rest) (length v) [] = Some (Ok (rest, v))"
    using l take_input_append [OF V, of "octets_bits v" "length v * 8" "q_codec d" rest] documented_bits [OF V]
    by (simp add: octets_step_def usize_mul_exact raw_octets_bits)
  then show "per_decode_octet_string V cs d = Some (Ok (v, d\<lparr>q_input := rest\<rparr>))"
    using decode_extensible_container_bits(1) [OF V _ ok, of d "octets_bits v @ rest"
        "octets_step V (q_codec d)" "[]"] d i
    by (simp add: per_decode_octet_string_def)
qed

interpretation uper_bit_string: uper_codec "per_encode_bit_string (pv_bits V) t cs" "per_decode_bit_string V cs"
  "\<lambda>v. container_bits cs (length v) @ v" "given V (\<lambda>v. string_fits cs 1 (length v))" 0 for V t cs
proof
  fix v :: bits and e
  assume v: "given V (\<lambda>v. string_fits cs 1 (length v)) v" and e: "uper_encoder e"
  then have ok: "size_ok (effective_size cs (length v)) (length v)" and B: "bits_documented (pv_bits V)"
    by (simp_all add: given_def string_fits_def documented_bits)
  have e': "\<not> pe_aligned (p_options e)" using e by simp
  note enc = encode_string_length_bits [OF B e' ok]
  show "per_encode_bit_string (pv_bits V) t cs v e =
      Some (Ok (e\<lparr>p_output := p_output e @ container_bits cs (length v) @ v\<rparr>))"
  proof (cases "extended_size cs (length v) \<or> c_size cs = None")
    case True
    then have eff: "effective_size cs (length v) = None" by (auto simp: effective_size_def)
    then show ?thesis using True enc [unfolded eff] e
      by (auto simp: per_encode_bit_string_def encode_extensible_bit_size per_encode_length_def bits_range_def
          container_bits_def per_extend_uper)
  next
    case False
    then obtain sz where sz: "c_size cs = Some sz" "effective_size cs (length v) = Some sz"
      "\<not> extended_size cs (length v)"
      by (auto simp: effective_size_def)
    then show ?thesis using enc [unfolded sz(2)] e
      by (simp add: per_encode_bit_string_def encode_extensible_bit_size per_encode_length_def bits_range_def
          container_bits_def bounded_range_not_zero Let_def per_extend_uper)
  qed
next
  fix v :: bits and rest and d :: per_decoder
  assume v: "given V (\<lambda>v. string_fits cs 1 (length v)) v" and d: "uper_depth 0 (q_options d)"
    and i: "q_input d = (container_bits cs (length v) @ v) @ rest"
  then have V: "per_documented V" and ok: "size_ok (effective_size cs (length v)) (length v)"
    and l: "length v * 1 \<le> usize_MAX" by (simp_all add: given_def string_fits_def)
  have "take_step V (q_codec d) 1 (v @ rest) (length v) [] = Some (Ok (rest, v))"
    using usize_mul_exact [OF l] take_input_append [OF V, of v "length v" "q_codec d" rest]
    by (simp add: take_step_def)
  then show "per_decode_bit_string V cs d = Some (Ok (v, d\<lparr>q_input := rest\<rparr>))"
    using decode_extensible_container_bits(1) [OF V _ ok, of d "v @ rest" "take_step V (q_codec d) 1" "[]"] d i
    by (simp add: per_decode_bit_string_def)
qed

section \<open>OBJECT IDENTIFIER\<close>

lemma decode_octets_bits:
  assumes "per_documented V" "\<not> pd_aligned (q_options d)" "length v < SIXTEEN_K"
    "q_input d = length_bits (length v) @ octets_bits v @ rest"
  shows "decode_octets V d = Some (Ok (octets_bits v, d\<lparr>q_input := rest\<rparr>))"
proof -
  have "length v * 8 \<le> usize_MAX" using assms(3) by (simp add: SIXTEEN_K_def usize_MAX_def)
  then have "take_step V (q_codec d) 8 (octets_bits v @ rest) (length v) [] = Some (Ok (rest, octets_bits v))"
    using take_input_append [OF assms(1), of "octets_bits v" "length v * 8" "q_codec d" rest]
    by (simp add: take_step_def usize_mul_exact)
  then show ?thesis
    using decode_unknown_length_bits [OF assms(1-3), of "take_step V (q_codec d) 8" "octets_bits v @ rest" "[]"] assms(4)
    by (simp add: decode_octets_def per_decode_length_def qret_def)
qed

definition uper_oid_ok :: "u32 list \<Rightarrow> bool" where
  "uper_oid_ok v \<longleftrightarrow> oid_ok v \<and> length (oid_contents v) < SIXTEEN_K"

lemma container_bits_NONE: "container_bits constraints_NONE n = length_bits n"
  by (simp add: container_bits_def constraints_extensible_def constraints_NONE_def effective_size_def
      extended_size_def size_bits_def)

lemma string_fits_NONE: "n < SIXTEEN_K \<Longrightarrow> string_fits constraints_NONE 8 n"
  by (simp add: string_fits_def effective_size_def constraints_NONE_def size_ok_def SIXTEEN_K_def usize_MAX_def)

interpretation uper_oid: uper_codec "per_encode_object_identifier (pv_bits V) t" "per_decode_object_identifier V"
  "\<lambda>v. length_bits (length (oid_contents v)) @ octets_bits (oid_contents v)" "given V uper_oid_ok" 0 for V t
proof
  fix v e
  assume v: "given V uper_oid_ok v" and e: "uper_encoder e"
  then have "given V (\<lambda>v. string_fits constraints_NONE 8 (length v)) (oid_contents v)"
    by (simp add: given_def uper_oid_ok_def string_fits_NONE)
  note enc = uper_octet_string.enc_bits [OF this e, of t]
  show "per_encode_object_identifier (pv_bits V) t v e = Some (Ok (e\<lparr>p_output := p_output e @
      length_bits (length (oid_contents v)) @ octets_bits (oid_contents v)\<rparr>))"
    using v enc by (simp add: per_encode_object_identifier_def object_identifier_as_bytes_ok given_def uper_oid_ok_def
        container_bits_NONE)
next
  fix v rest and d :: per_decoder
  assume v: "given V uper_oid_ok v" and d: "uper_depth 0 (q_options d)"
    and i: "q_input d = (length_bits (length (oid_contents v)) @ octets_bits (oid_contents v)) @ rest"
  then have "decode_octets V d = Some (Ok (octets_bits (oid_contents v), d\<lparr>q_input := rest\<rparr>))"
    by (intro decode_octets_bits) (simp_all add: given_def uper_oid_ok_def)
  moreover have "nom_documented (pv_nom V)" using v by (simp add: given_def per_documented_def)
  ultimately show "per_decode_object_identifier V d = Some (Ok (v, d\<lparr>q_input := rest\<rparr>))"
    using v by (simp add: per_decode_object_identifier_def uper_steps given_def uper_oid_ok_def raw_octets_bits
        documented_bits decode_oid_contents)
qed

section \<open>SEQUENCE OF\<close>

definition element_bits :: "('a \<Rightarrow> bits) \<Rightarrow> constraints \<Rightarrow> 'a list \<Rightarrow> bits" where
  "element_bits bits cs vs = container_bits cs (length vs) @ concat (map bits vs)"

definition elements_ok :: "('a \<Rightarrow> bool) \<Rightarrow> constraints \<Rightarrow> 'a list \<Rightarrow> bool" where
  "elements_ok good cs vs \<longleftrightarrow> (\<forall>v \<in> set vs. good v) \<and> effective_size cs (length vs) = c_size cs \<and>
    size_ok (c_size cs) (length vs)"

context uper_codec
begin

lemma encode_elements_bits:
  "\<forall>v \<in> set vs. good v \<Longrightarrow> uper_encoder new \<Longrightarrow> p_output new = [] \<Longrightarrow>
    encode_elements new parent (map enc vs) buffer = Some (Ok (buffer @ concat (map bits vs)))"
  by (induction vs arbitrary: parent buffer) (simp_all add: enc_bits bitstring_output_def)

lemma elements_step_bits:
  "\<forall>v \<in> set vs. good v \<Longrightarrow> uper_depth depth options \<Longrightarrow>
    elements_step dec options (concat (map bits vs) @ rest) (length vs) acc = Some (Ok (rest, acc @ vs))"
proof (induction vs arbitrary: acc)
  case (Cons v vs)
  let ?d = "per_decoder_new (bits v @ concat (map bits vs) @ rest) options"
  have "dec ?d = Some (Ok (v, ?d\<lparr>q_input := concat (map bits vs) @ rest\<rparr>))"
    using Cons.prems by (intro dec_bits) (simp_all add: per_decoder_new_def)
  then show ?case using Cons by simp
qed simp

lemma sequence_of_codec:
  "uper_codec (\<lambda>vs. per_encode_sequence_of (pv_bits V) t (map enc vs) cs) (per_decode_sequence_of V dec cs)
    (element_bits bits cs) (given V (elements_ok good cs)) (Suc depth)"
proof
  fix vs e
  assume v: "given V (elements_ok good cs) vs" and e: "uper_encoder e"
  then have ok: "size_ok (c_size cs) (length vs)" and B: "bits_documented (pv_bits V)"
    and eff: "effective_size cs (length vs) = c_size cs" and good: "\<forall>v \<in> set vs. good v"
    by (simp_all add: given_def elements_ok_def documented_bits)
  have "slice (map enc vs) 0 (length vs) = Some (map enc vs)" using slice_all [of "map enc vs"] by simp
  moreover have "uper_encoder (self_new e (p_options e))" "p_output (self_new e (p_options e)) = []"
    using e by (simp_all add: self_new_def per_encoder_new_def)
  ultimately show "per_encode_sequence_of (pv_bits V) t (map enc vs) cs e =
      Some (Ok (e\<lparr>p_output := p_output e @ element_bits bits cs vs\<rparr>))"
    using encode_string_length_bits [OF B _ ok, of e] e eff good
    by (simp add: per_encode_sequence_of_def encode_extensible_bit_size per_encode_length_def encode_elements_bits
        per_extend_uper element_bits_def container_bits_def)
next
  fix vs rest and d :: per_decoder
  assume v: "given V (elements_ok good cs) vs" and d: "uper_depth (Suc depth) (q_options d)"
    and i: "q_input d = element_bits bits cs vs @ rest"
  have "uper_depth depth (deeper (q_options d))" using d by (auto simp: deeper_def)
  then have s: "elements_step dec (deeper (q_options d)) (concat (map bits vs) @ rest) (length vs) [] = Some (Ok (rest, vs))"
    using v by (simp add: elements_step_bits given_def elements_ok_def)
  have "per_check_recursion_depth d = Some (Ok ((), d))" using d by (simp add: per_check_recursion_depth_def qret_def)
  then show "per_decode_sequence_of V dec cs d = Some (Ok (vs, d\<lparr>q_input := rest\<rparr>))"
    using decode_extensible_container_bits(1) [of V d cs "length vs" "concat (map bits vs) @ rest"
        "elements_step dec (deeper (q_options d))" "[]"] v d i s
    by (simp add: per_decode_sequence_of_def uper_steps given_def elements_ok_def element_bits_def)
qed

end

end
