(* ===== verification/Per_Integers.thy ===== *)
theory Per_Integers
  imports Per_Types Integer_Type
begin

text \<open>
  INTEGER, ENUMERATED and the normally small numbers keep the contract of UPER.
\<close>

section \<open>INTEGER\<close>

definition extended_integer :: "constraints \<Rightarrow> int \<Rightarrow> bool" where
  "extended_integer cs v \<longleftrightarrow> constraints_extensible cs \<and>
    \<not> (case c_value cs of Some vr \<Rightarrow> ext_list vr \<noteq> None \<and> in_bound (vc_value (constraint vr)) v | None \<Rightarrow> False)"

definition root_bounds :: "constraints \<Rightarrow> int \<Rightarrow> int bounded option" where
  "root_bounds cs v = (if extended_integer cs v then None else map_option (vc_value \<circ> constraint) (c_value cs))"

definition octets_with_length :: "bytes \<Rightarrow> bits" where
  "octets_with_length bs = length_bits (length bs) @ octets_bits bs"

fun number_bits :: "int_type \<Rightarrow> int bounded option \<Rightarrow> int \<Rightarrow> bits" where
  "number_bits t None v = octets_with_length (needed_slice (to_signed_bytes_be t v))"
| "number_bits t (Some b) v =
    (case bounded_range I128 b of
       Some rng \<Rightarrow> to_bits (log2 rng) (nat (v - minimum b))
     | None \<Rightarrow>
         octets_with_length (case as_start b of
             Some s \<Rightarrow> needed_slice (to_unsigned_bytes_be I128 (v - s))
           | None \<Rightarrow> needed_slice (to_signed_bytes_be I128 v)))"

text \<open>The values that survive: the bounds hold, and the offset from the lower bound fits the
  unsigned pair of the type (within a range) or the type itself.\<close>

fun number_ok :: "int_type \<Rightarrow> int bounded option \<Rightarrow> int \<Rightarrow> bool" where
  "number_ok t None v \<longleftrightarrow> signed_type t \<or> length (needed_slice (to_signed_bytes_be t v)) \<le> BYTE_WIDTH t"
| "number_ok t (Some b) v \<longleftrightarrow>
    bounded_in_type I128 b \<and> contains b v \<and> in_type I128 v \<and> in_type t (minimum b) \<and>
    (case bounded_range I128 b of
       Some rng \<Rightarrow> octets_for (log2 rng) \<le> BYTE_WIDTH t \<and>
         (case (as_start b, as_end b) of (Some s, Some e) \<Rightarrow> e - s < type_max I128 | _ \<Rightarrow> True)
     | None \<Rightarrow> in_type t (v - minimum b) \<and> in_type I128 (v - minimum b))"

definition uper_integer_bits :: "int_type \<Rightarrow> constraints \<Rightarrow> int \<Rightarrow> bits" where
  "uper_integer_bits t cs v =
    (if constraints_extensible cs then [extended_integer cs v] else []) @ number_bits t (root_bounds cs v) v"

definition uper_integer_ok :: "int_type \<Rightarrow> constraints \<Rightarrow> int \<Rightarrow> bool" where
  "uper_integer_ok t cs v \<longleftrightarrow> prim_wf t v \<and> c_size cs = None \<and> number_ok t (root_bounds cs v) v"

lemma encode_extensible_bit_integer:
  "encode_extensible_bit cs buffer
      (case c_value cs of Some vr \<Rightarrow> ext_list vr \<noteq> None \<and> in_bound (vc_value (constraint vr)) v | None \<Rightarrow> False) =
    (extended_integer cs v, buffer @ (if constraints_extensible cs then [extended_integer cs v] else []))"
  by (simp add: encode_extensible_bit_def extended_integer_def)

lemma encode_octets_with_length:
  assumes "bits_documented B" "\<not> pe_aligned (p_options e)" "length bs < SIXTEEN_K"
  shows "per_encode_length B e buffer (length bs) None (octets_range B bs) = Some (Ok (buffer @ octets_with_length bs))"
  using encode_string_length_bits [OF assms(1,2), of None "length bs"] assms(3)
  by (simp add: per_encode_length_def size_ok_def size_bits_def octets_range_all [OF assms(1)] octets_with_length_def)

lemma encode_non_negative_zero:
  "log2 rng = 0 \<Longrightarrow> encode_non_negative_binary_integer B buffer rng bytes = buffer"
  by (simp add: encode_non_negative_binary_integer_def Let_def)

lemma BYTE_WIDTH_le: "BYTE_WIDTH t \<le> 16"
  by (cases t) (simp_all add: BYTE_WIDTH_def)

lemma bounds_in_range:
  assumes "number_ok t (Some b) v" "bounded_range I128 b = Some rng"
  shows "log2 rng = 0 \<and> v = minimum b \<or>
      effective_value I128 b v = Inl (v - minimum b) \<and> in_type I128 (v - minimum b) \<and>
      0 \<le> v - minimum b \<and> v - minimum b < 2 ^ log2 rng"
    and "1 \<le> rng"
proof -
  have "(log2 rng = 0 \<and> v = minimum b \<or>
      effective_value I128 b v = Inl (v - minimum b) \<and> in_type I128 (v - minimum b) \<and>
      0 \<le> v - minimum b \<and> v - minimum b < 2 ^ log2 rng) \<and> 1 \<le> rng"
  proof (cases "(I128, b)" rule: bounded_range.cases)
    case (1 t m)
    then show ?thesis using assms by (simp add: minimum_def)
  next
    case (2 t s e)
    then have b: "in_type I128 s" "in_type I128 e" "s \<le> v" "v \<le> e" "e - s \<le> type_max I128" and m: "minimum b = s"
      using assms by (auto simp: minimum_def)
    note r = bounded_range_exact [OF b]
    have rng: "rng = e - s + 1" "in_type I128 rng"
      using assms 2 r(1) b by (auto simp: in_type_def type_min_def type_max_def)
    then have "v - s < 2 ^ log2 rng" using le_pow_log2 [of rng] b by linarith
    then show ?thesis using 2 r(2) m b rng by (auto simp: in_type_def type_min_def type_max_def)
  qed (use assms in auto)
  then show "log2 rng = 0 \<and> v = minimum b \<or>
      effective_value I128 b v = Inl (v - minimum b) \<and> in_type I128 (v - minimum b) \<and>
      0 \<le> v - minimum b \<and> v - minimum b < 2 ^ log2 rng" "1 \<le> rng" by blast+
qed

lemma unbounded_start:
  assumes "number_ok t (Some b) v" "bounded_range I128 b = None"
  shows "as_start b = Some s \<Longrightarrow> minimum b = s \<and> s \<le> v \<and> effective_value I128 b v = Inl (v - s)"
    and "as_start b = None \<Longrightarrow> minimum b = 0 \<and> effective_value I128 b v = Inr v"
  using assms by (cases b; auto simp: minimum_def wrapping_sub_def elim!: effective_value.elims)+

lemma offset_octets_short:
  assumes "number_ok t (Some b) v" "bounded_range I128 b = None"
  shows "length (case as_start b of Some s \<Rightarrow> needed_slice (to_unsigned_bytes_be I128 (v - s))
     | None \<Rightarrow> needed_slice (to_signed_bytes_be I128 v)) < SIXTEEN_K"
proof (cases "as_start b")
  case (Some s)
  then have "in_type I128 (v - s)" "0 \<le> v - s" using unbounded_start(1) [OF assms Some] assms by simp_all
  from unsigned_slice_props(3) [OF this] show ?thesis
    using Some BYTE_WIDTH_le [of I128] by (simp add: SIXTEEN_K_def)
next
  case None
  have "in_type I128 v" "I128 = U128 \<Longrightarrow> v < 2 ^ 127" using assms by simp_all
  from signed_slice_props(3) [OF this] show ?thesis
    using None BYTE_WIDTH_le [of "signed_pair I128"] by (simp add: SIXTEEN_K_def)
qed

lemma encode_bounded_number:
  assumes B: "bits_documented B" and e: "\<not> pe_aligned (p_options e)" and ok: "number_ok t (Some b) v"
  defines "r \<equiv> case effective_value I128 b v of
      Inl offset \<Rightarrow> to_unsigned_bytes_be I128 offset | Inr value \<Rightarrow> to_signed_bytes_be I128 value"
  shows "(case bounded_range I128 b of
      Some rng \<Rightarrow> Some (Ok (encode_constrained_integer B e buf rng x (needed_slice r)))
    | None \<Rightarrow> per_encode_length B e buf (snd r) None (octets_range B (needed_slice r))) =
    Some (Ok (buf @ number_bits t (Some b) v))"
proof (cases "bounded_range I128 b")
  case (Some rng)
  note f = bounds_in_range [OF ok Some]
  have plain: "encode_constrained_integer B e buf rng x bs = encode_non_negative_binary_integer B buf rng bs" for bs
    using e by (simp add: encode_constrained_integer_def Let_def)
  show ?thesis
  proof (cases "log2 rng = 0")
    case True
    then show ?thesis using Some by (simp add: plain encode_non_negative_zero)
  next
    case False
    then have o: "in_type I128 (v - minimum b)" "0 \<le> v - minimum b" "v - minimum b < 2 ^ log2 rng"
      "effective_value I128 b v = Inl (v - minimum b)" using f by auto
    then show ?thesis using Some encode_non_negative_bits [OF B, of "needed_slice r" rng buf] unsigned_slice_props(1) [OF o(1,2)]
      by (simp add: plain r_def)
  qed
next
  case None
  show ?thesis
  proof (cases "as_start b")
    case (Some s)
    note m = unbounded_start(1) [OF ok None Some]
    have i: "in_type I128 (v - s)" "0 \<le> v - s" using ok None m by simp_all
    have r: "r = to_unsigned_bytes_be I128 (v - s)" using m by (simp add: r_def)
    have "length (needed_slice r) < SIXTEEN_K" using offset_octets_short [OF ok None] Some r by simp
    then show ?thesis using None Some unsigned_needed_length [OF i] encode_octets_with_length [OF B e] r by simp
  next
    case start: None
    note m = unbounded_start(2) [OF ok None start]
    have i: "in_type I128 v" "I128 = U128 \<Longrightarrow> v < 2 ^ 127" using ok by simp_all
    have r: "r = to_signed_bytes_be I128 v" using m by (simp add: r_def)
    have "length (needed_slice r) < SIXTEEN_K" using offset_octets_short [OF ok None] start r by simp
    then show ?thesis using None start signed_needed_length [OF i] encode_octets_with_length [OF B e] r by simp
  qed
qed

lemma encode_number_bits:
  assumes B: "bits_documented B" and e: "\<not> pe_aligned (p_options e)" and ok: "uper_integer_ok t cs v"
  shows "encode_integer_into_buffer B (prim_ops t) e cs v buffer = Some (Ok (buffer @ uper_integer_bits t cs v))"
proof -
  define buf where "buf = buffer @ (if constraints_extensible cs then [extended_integer cs v] else [])"
  have v: "in_type t v" "t = U128 \<Longrightarrow> v < 2 ^ 127" and sz: "c_size cs = None" and n: "number_ok t (root_bounds cs v) v"
    using ok by (simp_all add: uper_integer_ok_def prim_wf_def)
  have ops: "i_to_bigint (prim_ops t) v = v" "i_to_signed_bytes_be (prim_ops t) v = to_signed_bytes_be t v"
    "i_to_i128 (prim_ops t) v = try_into I128 v" by (simp_all add: prim_ops_def)
  have "encode_integer_into_buffer B (prim_ops t) e cs v buffer = Some (Ok (buf @ number_bits t (root_bounds cs v) v))"
  proof (cases "root_bounds cs v")
    case None
    let ?bs = "needed_slice (to_signed_bytes_be t v)"
    have l: "length ?bs < SIXTEEN_K"
      using signed_slice_props(3) [OF v] BYTE_WIDTH_le [of "signed_pair t"] by (simp add: SIXTEEN_K_def)
    have "snd (to_signed_bytes_be t v) = length ?bs" using signed_needed_length [OF v] .
    then have "encode_integer_into_buffer B (prim_ops t) e cs v buffer =
        per_encode_length B e buf (length ?bs) None (octets_range B ?bs)"
      unfolding encode_integer_into_buffer_def ops encode_extensible_bit_integer buf_def
      using None sz by (auto simp: Let_def root_bounds_def split: option.splits if_splits)
    then show ?thesis using None encode_octets_with_length [OF B e l, of buf] by simp
  next
    case (Some b)
    then obtain vc where vc: "c_value cs = Some vc" "b = vc_value (constraint vc)" "\<not> extended_integer cs v"
      by (auto simp: root_bounds_def split: if_splits)
    have b: "number_ok t (Some b) v" "bounded_in_type I128 b" "contains b v" "in_type I128 v" using n Some by simp_all
    have "encode_integer_into_buffer B (prim_ops t) e cs v buffer =
      (let r = (case effective_value I128 b v of
              Inl offset \<Rightarrow> to_unsigned_bytes_be I128 offset | Inr value \<Rightarrow> to_signed_bytes_be I128 value);
           effective = (case effective_value I128 b v of Inl x \<Rightarrow> x | Inr x \<Rightarrow> x)
       in case bounded_range I128 b of
            Some rng \<Rightarrow> Some (Ok (encode_constrained_integer B e buf rng effective (needed_slice r)))
          | None \<Rightarrow> per_encode_length B e buf (snd r) None (octets_range B (needed_slice r)))"
      unfolding encode_integer_into_buffer_def ops encode_extensible_bit_integer buf_def [symmetric]
      using vc b(2-4) by (cases "bounded_range I128 b")
        (simp_all add: in_bound_iff_contains try_into_def Let_def needed_slice_def split_beta)
    then show ?thesis using encode_bounded_number [OF B e b(1)] Some by (simp only: Let_def)
  qed
  then show ?thesis by (simp add: buf_def uper_integer_bits_def)
qed

lemma decode_octets_with_length:
  assumes "per_documented V" "\<not> pd_aligned (q_options d)" "length bs < SIXTEEN_K"
    "q_input d = octets_with_length bs @ rest"
  shows "decode_octets V d = Some (Ok (octets_bits bs, d\<lparr>q_input := rest\<rparr>))"
    and "bv_raw (pv_bits V) (octets_bits bs) = bs"
  using decode_octets_bits [OF assms(1-3), of rest] assms raw_octets_bits [OF documented_bits [OF assms(1)]]
  by (simp_all add: octets_with_length_def)

lemma wrapping_offset:
  assumes "in_type t v" "in_type t l"
  shows "wrapping_unsigned_add t l (v - l) = v"
proof -
  have "cast t (l + cast t (v - l)) = v"
  proof -
    have "cast t (v - l) mod 2 ^ BITS t = (v - l) mod 2 ^ BITS t"
      using cast_eq_iff_mod [of t "v - l" "cast t (v - l)"] by simp
    from mod_add_cong [OF refl this, of l]
    have "(l + cast t (v - l)) mod 2 ^ BITS t = v mod 2 ^ BITS t" by simp
    then show ?thesis using assms(1) cast_eq_iff_mod [of t "l + cast t (v - l)" v] by simp
  qed
  then show ?thesis using assms(1) by (simp add: wrapping_unsigned_add_def wrapping_add_def)
qed

lemma parse_extensible_integer_bit:
  assumes "per_documented V" "q_input d = uper_integer_bits t cs v @ rest"
  shows "parse_extensible_bit V cs d =
    Some (Ok (extended_integer cs v, d\<lparr>q_input := number_bits t (root_bounds cs v) v @ rest\<rparr>))"
proof (cases "constraints_extensible cs")
  case True
  then show ?thesis using parse_one_bit_Cons [OF assms(1)] assms(2)
    by (simp add: parse_extensible_bit_def uper_integer_bits_def)
next
  case False
  then have "d = d\<lparr>q_input := number_bits t (root_bounds cs v) v @ rest\<rparr>" using assms(2) by (simp add: uper_integer_bits_def)
  then show ?thesis using False by (simp add: parse_extensible_bit_def extended_integer_def qret_def)
qed

lemma parse_range_number:
  assumes V: "per_documented V" and ok: "number_ok t (Some b) v" and rng: "bounded_range I128 b = Some rng"
    and i: "q_input d = number_bits t (Some b) v @ rest" and d: "\<not> pd_aligned (q_options d)"
  shows "parse_constrained_number V (try_from_unsigned_bytes (unsigned_pair t)) rng d =
    Some (Ok (v - minimum b, d\<lparr>q_input := rest\<rparr>))"
proof -
  note f = bounds_in_range [OF ok rng]
  let ?n = "nat (v - minimum b)"
  have n: "int ?n = v - minimum b" "?n < 2 ^ log2 rng" using f by (auto simp: nat_less_iff)
  have "q_input d = to_bits (log2 rng) ?n @ rest" using i rng by simp
  from parse_non_negative_bits [OF V this n(2)] obtain bytes where bytes: "be_val bytes = int ?n"
    "length bytes = octets_for (log2 rng)"
    "parse_non_negative_binary_integer V (try_from_unsigned_bytes (unsigned_pair t)) rng d =
      pbind (Some (try_from_unsigned_bytes (unsigned_pair t) bytes (q_codec d))) (\<lambda>u. Some (Ok (u, d\<lparr>q_input := rest\<rparr>)))"
    by blast
  have "bytes \<noteq> []" using bytes(2) by (auto simp: octets_for_def)
  moreover have "length bytes \<le> BYTE_WIDTH (unsigned_pair t)"
    using ok rng bytes(2) by (simp add: BYTE_WIDTH_def signed_pair_facts)
  ultimately have "try_from_unsigned_bytes (unsigned_pair t) bytes (q_codec d) = Ok (v - minimum b)"
    using bytes(1) n(1) by (simp add: try_from_unsigned_bytes_Ok signed_pair_facts)
  then show ?thesis using bytes(3) d by (simp add: parse_constrained_number_def Let_def)
qed


lemma prim_try_from_bytes:
  assumes "prim_wf t v" "number_ok t None v"
  shows "try_from_bytes t (needed_slice (to_signed_bytes_be t v)) c = Ok v"
proof -
  have v: "in_type t v" "t = U128 \<Longrightarrow> v < 2 ^ 127" using assms(1) by (simp_all add: prim_wf_def)
  let ?bs = "needed_slice (to_signed_bytes_be t v)"
  note p = signed_slice_props [OF v]
  show ?thesis
  proof (cases "signed_type t")
    case True
    then show ?thesis using signed_bytes_roundtrip [OF v] by (simp add: try_from_bytes_def)
  next
    case False
    then have "0 \<le> v" using v(1) by (simp add: in_type_unsigned)
    then have "be_val ?bs = v" using p(1) be_val_eq_sval [of ?bs] by simp
    then show ?thesis using False p(2) assms(2) by (simp add: try_from_bytes_def try_from_unsigned_bytes_Ok)
  qed
qed

lemma prim_try_from_offset:
  assumes "prim_wf t v" "number_ok t (Some b) v" "bounded_range I128 b = None"
  shows "as_start b = Some s \<Longrightarrow> try_from_unsigned_bytes t (needed_slice (to_unsigned_bytes_be I128 (v - s))) c = Ok (v - s)"
    and "as_start b = None \<Longrightarrow> try_from_signed_bytes t (needed_slice (to_signed_bytes_be I128 v)) c = Ok v"
proof -
  assume s: "as_start b = Some s"
  note m = unbounded_start(1) [OF assms(2,3) s]
  have i: "in_type I128 (v - s)" "0 \<le> v - s" "in_type t (v - s)" using assms(2,3) m by simp_all
  note p = unsigned_slice_props [OF i(1,2)]
  note q = unsigned_slice_props [OF i(3,2)]
  have "v - s < 256 ^ BYTE_WIDTH t"
    using less_le_trans [OF be_val_less power_increasing [OF q(3), of "256 :: int"]] q(1) by simp
  then have "length (needed_slice (to_unsigned_bytes_be I128 (v - s))) \<le> BYTE_WIDTH t"
    using p(4) by (simp add: BYTE_WIDTH_def BITS_div8)
  then show "try_from_unsigned_bytes t (needed_slice (to_unsigned_bytes_be I128 (v - s))) c = Ok (v - s)"
    using p(1,2) i(3) by (simp add: try_from_unsigned_bytes_Ok)
next
  assume "as_start b = None"
  have v: "in_type t v" "t = U128 \<Longrightarrow> v < 2 ^ 127" "in_type I128 v" using assms by (simp_all add: prim_wf_def)
  note p = signed_slice_props [OF v(3)] and q = signed_slice_props [OF v(1,2)]
  have "fits_signed (length (needed_slice (to_signed_bytes_be t v))) v" using be_sval_fits [OF q(2)] q(1) by simp
  then have "length (needed_slice (to_signed_bytes_be I128 v)) \<le> BYTE_WIDTH (signed_pair t)"
    using p(4) [of "length (needed_slice (to_signed_bytes_be t v))"] q(2,3) by simp
  then show "try_from_signed_bytes t (needed_slice (to_signed_bytes_be I128 v)) c = Ok v"
    using p(1,2) v(1) by (simp add: try_from_signed_bytes_Ok)
qed

interpretation uper_integer: uper_codec "per_encode_integer (pv_bits V) (prim_ops it) t cs"
  "per_decode_integer V (per_prim it) cs" "uper_integer_bits it cs" "given V (uper_integer_ok it cs)" 0 for V it t cs
proof
  fix v e
  assume "given V (uper_integer_ok it cs) v" "uper_encoder e"
  then show "per_encode_integer (pv_bits V) (prim_ops it) t cs v e =
      Some (Ok (e\<lparr>p_output := p_output e @ uper_integer_bits it cs v\<rparr>))"
    by (simp add: per_encode_integer_def encode_number_bits documented_bits given_def per_extend_uper)
next
  fix v rest and d :: per_decoder
  assume v: "given V (uper_integer_ok it cs) v" and d: "uper_depth 0 (q_options d)"
    and i: "q_input d = uper_integer_bits it cs v @ rest"
  then have V: "per_documented V" and w: "prim_wf it v" "in_type it v" and ok: "number_ok it (root_bounds cs v) v"
    by (simp_all add: given_def uper_integer_ok_def prim_wf_def)
  let ?d = "d\<lparr>q_input := number_bits it (root_bounds cs v) v @ rest\<rparr>"
  note bit = parse_extensible_integer_bit [OF V i]
  have p: "pi_try_from_bytes (per_prim it) = try_from_bytes it" "pi_from_i128 (per_prim it) = try_into it"
    "pi_unsigned_from_bytes (per_prim it) = try_from_unsigned_bytes (unsigned_pair it)"
    "pi_wrapping_unsigned_add (per_prim it) = wrapping_unsigned_add it" "pi_checked_add (per_prim it) = checked_add it"
    "i_try_from_signed_bytes (pi_ops (per_prim it)) = try_from_signed_bytes it"
    "i_try_from_unsigned_bytes (pi_ops (per_prim it)) = try_from_unsigned_bytes it"
    by (simp_all add: per_prim_def prim_ops_def)
  show "per_decode_integer V (per_prim it) cs d = Some (Ok (v, d\<lparr>q_input := rest\<rparr>))"
  proof (cases "root_bounds cs v")
    case None
    then have eff: "(if extended_integer cs v then None else c_value cs) = None" by (simp add: root_bounds_def split: if_splits)
    let ?bs = "needed_slice (to_signed_bytes_be it v)"
    have "length ?bs < SIXTEEN_K"
      using signed_slice_props(3) [of it v] w BYTE_WIDTH_le [of "signed_pair it"] by (simp add: prim_wf_def SIXTEEN_K_def)
    note o = decode_octets_with_length [OF V _ this, of ?d rest]
    show ?thesis using bit o None d prim_try_from_bytes [OF w(1)] ok
      by (simp add: per_decode_integer_def parse_integer_def uper_steps eff p del: number_ok.simps split del: if_split)
  next
    case (Some b)
    then obtain vc where vc: "c_value cs = Some vc" "b = vc_value (constraint vc)" "\<not> extended_integer cs v"
      by (auto simp: root_bounds_def split: if_splits)
    have n: "number_ok it (Some b) v" "in_type it (minimum b)" using ok Some by simp_all
    show ?thesis
    proof (cases "bounded_range I128 b")
      case rng: (Some rng)
      have d': "\<not> pd_aligned (q_options ?d)" using d by simp
      have i': "q_input ?d = number_bits it (Some b) v @ rest" using Some by simp
      note n' = parse_range_number [OF V n(1) rng i' d']
      have "rng \<noteq> 0" using bounds_in_range(2) [OF n(1) rng] by simp
      then show ?thesis using bit n' n(2) vc rng wrapping_offset [OF w(2) n(2)]
        by (simp add: per_decode_integer_def parse_integer_def uper_steps p Let_def try_into_def)
    next
      case rng: None
      note u = unbounded_start [OF n(1) rng] and f = prim_try_from_offset [OF w(1) n(1) rng]
      have sum: "checked_add it (minimum b) (v - minimum b) = Some v"
        using w(2) by (simp add: checked_add_def)
      let ?bs = "case as_start b of Some s \<Rightarrow> needed_slice (to_unsigned_bytes_be I128 (v - s))
         | None \<Rightarrow> needed_slice (to_signed_bytes_be I128 v)"
      have i': "q_input ?d = octets_with_length ?bs @ rest" using Some rng by simp
      have l: "length ?bs < SIXTEEN_K" by (rule offset_octets_short [OF n(1) rng])
      have d': "\<not> pd_aligned (q_options ?d)" using d by simp
      note o = decode_octets_with_length [OF V d' l i']
      show ?thesis
      proof (cases "as_start b")
        case start: None
        then show ?thesis using bit n(2) vc rng sum o u(2) f(2)
          by (simp add: per_decode_integer_def parse_integer_def uper_steps p Let_def try_into_def)
      next
        case start: (Some s)
        then show ?thesis using bit n(2) vc rng sum o u(1) [OF start] f(1) [OF start]
          by (simp add: per_decode_integer_def parse_integer_def uper_steps p Let_def try_into_def)
      qed
    qed
  qed
qed

end
