(* ===== verification/Per_Small.thy ===== *)
theory Per_Small
  imports Per_Integers
begin

text \<open>
  The normally small numbers, which select among extensions, and ENUMERATED in UPER.
\<close>

section \<open>Normally small numbers\<close>

definition small_number_bits :: "nat \<Rightarrow> bits" where
  "small_number_bits n =
    (64 \<le> n) # uper_integer_bits Usize (if 64 \<le> n then LARGE_UNSIGNED_CONSTRAINT else SMALL_UNSIGNED_CONSTRAINT) (int n)"

lemma index_constraints:
  "c_value LARGE_UNSIGNED_CONSTRAINT = Some (extensible_new (value_new (Range (Some 0) None)))"
  "c_value SMALL_UNSIGNED_CONSTRAINT = Some (extensible_new (value_new (Range (Some 0) (Some 63))))"
  "c_size LARGE_UNSIGNED_CONSTRAINT = None" "c_size SMALL_UNSIGNED_CONSTRAINT = None"
  "\<not> constraints_extensible LARGE_UNSIGNED_CONSTRAINT" "\<not> constraints_extensible SMALL_UNSIGNED_CONSTRAINT"
  by code_simp+

lemma index_root_bounds:
  "root_bounds LARGE_UNSIGNED_CONSTRAINT v = Some (Range (Some 0) None)"
  "root_bounds SMALL_UNSIGNED_CONSTRAINT v = Some (Range (Some 0) (Some 63))"
  by (simp_all add: root_bounds_def extended_integer_def index_constraints extensible_new_def value_new_def)

lemma small_number_ok:
  assumes "n \<le> usize_MAX"
  shows "uper_integer_ok Usize (if 64 \<le> n then LARGE_UNSIGNED_CONSTRAINT else SMALL_UNSIGNED_CONSTRAINT) (int n)"
proof -
  have "log2 64 = 6" by code_simp
  moreover have "bounded_range I128 (Range (Some 0) (Some 63)) = Some 64" by code_simp
  moreover have "in_type Usize (int n)" "in_type I128 (int n)"
    using assms by (simp_all add: in_type_def type_min_def type_max_def usize_MAX_def)
  ultimately show ?thesis
    by (simp add: uper_integer_ok_def index_root_bounds index_constraints prim_wf_def minimum_def octets_for_def
        BYTE_WIDTH_def) (simp add: in_type_def type_min_def type_max_def)
qed

lemma encode_small_number_bits:
  assumes "bits_documented B" "\<not> pe_aligned (p_options e)" "n \<le> usize_MAX"
  shows "encode_normally_small_integer B e n buffer = Some (Ok (buffer @ small_number_bits n))"
  using encode_number_bits [OF assms(1,2) small_number_ok [OF assms(3)], of "buffer @ [64 \<le> n]"]
  by (cases "64 \<le> n") (simp_all add: encode_normally_small_integer_def small_number_bits_def)

lemma parse_small_number_bits:
  assumes "per_documented V" "uper_depth 0 (q_options d)" "n \<le> usize_MAX" "q_input d = small_number_bits n @ rest"
  shows "parse_normally_small_integer V (per_prim Usize) d = Some (Ok (int n, d\<lparr>q_input := rest\<rparr>))"
proof -
  let ?cs = "if 64 \<le> n then LARGE_UNSIGNED_CONSTRAINT else SMALL_UNSIGNED_CONSTRAINT"
  let ?d = "d\<lparr>q_input := uper_integer_bits Usize ?cs (int n) @ rest\<rparr>"
  have "parse_one_bit V d = Some (Ok (64 \<le> n, ?d))"
    using assms(4) by (intro parse_one_bit_Cons [OF assms(1)]) (simp add: small_number_bits_def)
  moreover have "per_decode_integer V (per_prim Usize) ?cs ?d = Some (Ok (int n, ?d\<lparr>q_input := rest\<rparr>))"
    using assms small_number_ok [OF assms(3)] by (intro uper_integer.dec_bits) (simp_all add: given_def)
  ultimately show ?thesis
    by (simp add: parse_normally_small_integer_def per_decode_integer_def uper_steps split: if_splits)
qed

text \<open>The number of extension additions, below 64.\<close>

lemma encode_small_length_bits:
  assumes "bits_documented B" "\<not> pe_aligned (p_options e)" "0 < n" "n < 64"
  shows "encode_normally_small_length B e n buffer = Some (Ok (buffer @ small_number_bits (n - 1)))"
proof -
  have "in_type Usize (int n - 1)" using assms(3,4) by (simp add: in_type_def type_min_def type_max_def)
  then have "nat (wrapping_sub Usize (int n) 1) = n - 1" using assms(3) by (simp add: wrapping_sub_def cast_id)
  then show ?thesis using assms encode_small_number_bits [OF assms(1,2), of "n - 1" buffer]
    by (simp add: encode_normally_small_length_def usize_MAX_def)
qed

lemma parse_small_length_bits:
  assumes "per_documented V" "uper_depth 0 (q_options d)" "n < 64" "q_input d = small_number_bits n @ rest"
  shows "parse_normally_small_length V d = Some (Ok (n, d\<lparr>q_input := rest\<rparr>))"
proof -
  let ?d = "d\<lparr>q_input := uper_integer_bits Usize SMALL_UNSIGNED_CONSTRAINT (int n) @ rest\<rparr>"
  have "parse_one_bit V d = Some (Ok (False, ?d))"
    using assms(3,4) by (intro parse_one_bit_Cons [OF assms(1)]) (simp add: small_number_bits_def)
  moreover have "uper_integer_ok Usize SMALL_UNSIGNED_CONSTRAINT (int n)"
    using small_number_ok [of n] assms(3) by (simp add: usize_MAX_def)
  then have "per_decode_integer V (per_prim Usize) SMALL_UNSIGNED_CONSTRAINT ?d = Some (Ok (int n, ?d\<lparr>q_input := rest\<rparr>))"
    using assms by (intro uper_integer.dec_bits) (simp_all add: given_def)
  ultimately show ?thesis
    by (simp add: parse_normally_small_length_def per_decode_integer_def uper_steps)
qed

section \<open>ENUMERATED\<close>

lemma position_Some:
  "position p xs = Some i \<Longrightarrow> i < length xs \<and> p (xs ! i)"
  by (induction xs arbitrary: i) (auto split: if_splits)

lemma position_exists:
  assumes "x \<in> set xs"
  shows "\<exists>i. position (\<lambda>y. y = x) xs = Some i" "\<exists>i. position ((=) x) xs = Some i"
  using assms by (induction xs) auto

definition enumerated_bits :: "'e enumerated \<Rightarrow> 'e \<Rightarrow> bits" where
  "enumerated_bits E v =
    (let i = the (enumeration_index E v) in
     (if en_EXTENDED_VARIANTS E \<noteq> None then [is_extended_variant E v] else []) @
     (if is_extended_variant E v then small_number_bits i else to_bits (log2 (int (variance E))) i))"

definition enumerated_ok :: "'e enumerated \<Rightarrow> 'e \<Rightarrow> bool" where
  "enumerated_ok E v \<longleftrightarrow> (v \<in> set (en_VARIANTS E) \<or> is_extended_variant E v) \<and>
    variance E \<le> usize_MAX \<and> extended_variance E \<le> usize_MAX"

lemma variance_width:
  assumes "i < n" "n \<le> usize_MAX"
  shows "i < 2 ^ log2 (int n)" "octets_for (log2 (int n)) \<le> 8"
proof -
  have t: "1 \<le> int n" "in_type I128 (int n)"
    using assms by (simp_all add: in_type_def type_min_def type_max_def usize_MAX_def)
  have "int i < 2 ^ log2 (int n)" using le_pow_log2 [OF t] assms(1) by linarith
  then show "i < 2 ^ log2 (int n)" by (metis of_nat_less_iff of_nat_numeral of_nat_power)
  have "log2 (int n) \<le> 64" using log2_le_iff [OF t, of 64] assms(2) by (simp add: usize_MAX_def)
  then show "octets_for (log2 (int n)) \<le> 8" by (simp add: octets_for_def)
qed

lemma enumeration_index_Some:
  assumes "enumerated_ok E v"
  obtains i where "enumeration_index E v = Some i" "i \<le> usize_MAX"
    "is_extended_variant E v \<Longrightarrow> from_extended_enumeration_index E i = Some v"
    "\<not> is_extended_variant E v \<Longrightarrow> from_enumeration_index E i = Some v \<and> i < variance E"
proof (cases "is_extended_variant E v")
  case True
  then obtain xs where xs: "en_EXTENDED_VARIANTS E = Some xs" "v \<in> set xs"
    by (auto simp: is_extended_variant_def split: option.splits)
  obtain i where "position (\<lambda>y. y = v) xs = Some i" using position_exists(1) [OF xs(2)] by blast
  with position_Some [OF this] True xs(1) assms show thesis
    by (intro that [of i]) (simp_all add: enumeration_index_def from_extended_enumeration_index_def get_def
        enumerated_ok_def extended_variance_def)
next
  case False
  then have "v \<in> set (en_VARIANTS E)" using assms by (simp add: enumerated_ok_def)
  from position_exists(1) [OF this] obtain i where "position (\<lambda>y. y = v) (en_VARIANTS E) = Some i" by blast
  with position_Some [OF this] False assms show thesis
    by (intro that [of i]) (simp_all add: enumeration_index_def from_enumeration_index_def get_def
        enumerated_ok_def variance_def)
qed

interpretation uper_enumerated: uper_codec "per_encode_enumerated (pv_bits V) E t" "per_decode_enumerated V E"
  "enumerated_bits E" "given V (enumerated_ok E)" 0 for V E t
proof
  fix v e
  assume v: "given V (enumerated_ok E) v" and e: "uper_encoder e"
  then have B: "bits_documented (pv_bits V)" and ok: "enumerated_ok E v" by (simp_all add: given_def documented_bits)
  obtain i where i: "enumeration_index E v = Some i" "i \<le> usize_MAX" "\<not> is_extended_variant E v \<Longrightarrow> i < variance E"
    using enumeration_index_Some [OF ok] by metis
  have be: "be_val (be_bytes 8 (int i)) = int i" using i(2) by (simp add: be_val_be_bytes usize_MAX_def)
  show "per_encode_enumerated (pv_bits V) E t v e = Some (Ok (e\<lparr>p_output := p_output e @ enumerated_bits E v\<rparr>))"
  proof (cases "is_extended_variant E v")
    case True
    then show ?thesis using i(1,2) e B
      by (simp add: per_encode_enumerated_def enumerated_bits_def encode_small_number_bits per_extend_uper)
  next
    case False
    then have "i < 2 ^ log2 (int (variance E))"
      using variance_width(1) [of i "variance E"] i(3) ok by (simp add: enumerated_ok_def)
    then have "be_val (be_bytes 8 (int i)) < 2 ^ log2 (int (variance E))"
      unfolding be by (metis of_nat_less_iff of_nat_numeral of_nat_power)
    then show ?thesis using False i(1) e be
      by (simp add: per_encode_enumerated_def enumerated_bits_def encode_non_negative_bits [OF B] per_extend_uper)
  qed
next
  fix v rest and d :: per_decoder
  assume v: "given V (enumerated_ok E) v" and d: "uper_depth 0 (q_options d)" and q: "q_input d = enumerated_bits E v @ rest"
  then have V: "per_documented V" and ok: "enumerated_ok E v" by (simp_all add: given_def)
  obtain i where i: "enumeration_index E v = Some i" "i \<le> usize_MAX"
    "is_extended_variant E v \<Longrightarrow> from_extended_enumeration_index E i = Some v"
    "\<not> is_extended_variant E v \<Longrightarrow> from_enumeration_index E i = Some v \<and> i < variance E"
    using enumeration_index_Some [OF ok] by metis
  define body where
    "body = (if is_extended_variant E v then small_number_bits i else to_bits (log2 (int (variance E))) i) @ rest"
  let ?d = "d\<lparr>q_input := body\<rparr>"
  have bit: "(if en_EXTENDED_VARIANTS E \<noteq> None then parse_one_bit V else qret False) d =
      Some (Ok (is_extended_variant E v, ?d))"
  proof (cases "en_EXTENDED_VARIANTS E = None")
    case True
    then have "d = ?d" "\<not> is_extended_variant E v"
      using q i(1) by (simp_all add: body_def enumerated_bits_def is_extended_variant_def)
    then show ?thesis using True by (simp add: qret_def)
  next
    case False
    then show ?thesis using parse_one_bit_Cons [OF V] q i(1) by (simp add: body_def enumerated_bits_def)
  qed
  show "per_decode_enumerated V E d = Some (Ok (v, d\<lparr>q_input := rest\<rparr>))"
  proof (cases "is_extended_variant E v")
    case True
    then have "parse_normally_small_integer V (per_prim Usize) ?d = Some (Ok (int i, ?d\<lparr>q_input := rest\<rparr>))"
      using d i(2) by (intro parse_small_number_bits [OF V]) (simp_all add: body_def)
    then show ?thesis using True bit i(3) by (simp add: per_decode_enumerated_def uper_steps)
  next
    case False
    have w: "i < 2 ^ log2 (int (variance E))" "octets_for (log2 (int (variance E))) \<le> 8"
      using variance_width [of i "variance E"] i(4) False ok by (simp_all add: enumerated_ok_def)
    have "q_input ?d = to_bits (log2 (int (variance E))) i @ rest" using False by (simp add: body_def)
    from parse_non_negative_bits [OF V this w(1)] obtain bytes where b: "be_val bytes = int i"
      "length bytes = octets_for (log2 (int (variance E)))"
      "parse_non_negative_binary_integer V (try_from_unsigned_bytes Usize) (int (variance E)) ?d =
        pbind (Some (try_from_unsigned_bytes Usize bytes (q_codec ?d))) (\<lambda>u. Some (Ok (u, ?d\<lparr>q_input := rest\<rparr>)))"
      by blast
    have "bytes \<noteq> []" using b(2) by (auto simp: octets_for_def)
    then have "try_from_unsigned_bytes Usize bytes (q_codec ?d) = Ok (int i)"
      using b(1,2) w(2) i(2)
      by (simp add: try_from_unsigned_bytes_Ok BYTE_WIDTH_def in_type_def type_min_def type_max_def usize_MAX_def)
    then show ?thesis using False bit b(3) i(4) by (simp add: per_decode_enumerated_def uper_steps)
  qed
qed

end
