(* ===== verification/Per_Sequence.thy ===== *)
theory Per_Sequence
  imports Per_Small
begin

text \<open>
  A SEQUENCE keeps the contract of UPER for any list of required and optional components and,
  when it is extensible, any list of fewer than 64 extension additions whose codecs keep it.
\<close>

section \<open>Components\<close>

record 'v uper_component =
  u_field :: field
  u_enc :: "'v \<Rightarrow> per_encode_fn"
  u_dec :: "'v per_decode_fn"
  u_bits :: "'v \<Rightarrow> bits"
  u_wf :: "'v \<Rightarrow> bool"

abbreviation u_optional :: "'v uper_component \<Rightarrow> bool" where
  "u_optional k \<equiv> is_optional_or_default (u_field k)"

abbreviation u_tag :: "'v uper_component \<Rightarrow> tag" where
  "u_tag k \<equiv> f_tag (u_field k)"

text \<open>What the derived implementations do for a component: an optional one goes through
  \<open>encode_some\<close>, \<open>encode_none\<close> and \<open>decode_optional\<close>, an extension addition through
  \<open>encode_extension_addition\<close> and \<open>decode_extension_addition\<close>.\<close>

definition root_enc :: "'v uper_component \<Rightarrow> 'v option \<Rightarrow> per_encode_fn" where
  "root_enc k v =
    (if u_optional k then
       (case v of Some x \<Rightarrow> per_encode_some (u_tag k) (u_enc k x) | None \<Rightarrow> per_encode_none (u_tag k))
     else (case v of Some x \<Rightarrow> u_enc k x | None \<Rightarrow> (\<lambda>self. Some (Ok self))))"

definition addition_enc :: "bitvec_ops \<Rightarrow> 'v uper_component \<Rightarrow> 'v option \<Rightarrow> per_encode_fn" where
  "addition_enc B k v =
    per_encode_extension_addition B (v \<noteq> None)
      (case v of Some x \<Rightarrow> if u_optional k then per_encode_some (u_tag k) (u_enc k x) else u_enc k x
       | None \<Rightarrow> per_encode_none (u_tag k))"

fun all_enc :: "('v uper_component \<Rightarrow> 'v option \<Rightarrow> per_encode_fn) \<Rightarrow> 'v uper_component list \<Rightarrow> 'v option list \<Rightarrow> per_encode_fn" where
  "all_enc enc (k # ks) (v # vs) self = pbind (enc k v self) (all_enc enc ks vs)"
| "all_enc enc _ _ self = Some (Ok self)"

definition root_dec :: "'v uper_component \<Rightarrow> 'v option per_decode_fn" where
  "root_dec k =
    (if u_optional k then per_decode_optional (u_tag k) (u_dec k) else qbind (u_dec k) (\<lambda>x. qret (Some x)))"

definition addition_dec :: "per_env \<Rightarrow> 'v uper_component \<Rightarrow> 'v option per_decode_fn" where
  "addition_dec V k =
    qbind (per_decode_extension_addition V (u_dec k)) (\<lambda>v self.
      if v = None \<and> \<not> u_optional k
      then qerr (DecodeError (FieldError (name (u_field k))
        (DecodeError (RequiredExtensionNotPresent (u_tag k)) (q_codec self))) (q_codec self)) self
      else qret v self)"

fun all_dec :: "('v uper_component \<Rightarrow> 'v option per_decode_fn) \<Rightarrow> 'v uper_component list \<Rightarrow> 'v option list per_decode_fn" where
  "all_dec dec [] = qret []"
| "all_dec dec (k # ks) = qbind (dec k) (\<lambda>v. qbind (all_dec dec ks) (\<lambda>vs. qret (v # vs)))"

definition u_fields :: "'v uper_component list \<Rightarrow> fields" where
  "u_fields ks = from_static (map u_field ks)"

definition uper_sequence_enc ::
    "bitvec_ops \<Rightarrow> bool \<Rightarrow> 'v uper_component list \<Rightarrow> 'v uper_component list \<Rightarrow> tag \<Rightarrow>
     'v option list \<times> 'v option list \<Rightarrow> per_encode_fn" where
  "uper_sequence_enc B extensible ks xs t v =
    per_encode_sequence B (length ks) (length xs) (u_fields ks) extensible t
      (\<lambda>self. pbind (all_enc root_enc ks (fst v) self) (all_enc (addition_enc B) xs (snd v)))"

definition uper_sequence_dec ::
    "per_env \<Rightarrow> bool \<Rightarrow> 'v uper_component list \<Rightarrow> 'v uper_component list \<Rightarrow>
     ('v option list \<times> 'v option list) per_decode_fn" where
  "uper_sequence_dec V extensible ks xs =
    per_decode_sequence V (u_fields ks) (if extensible then Some (u_fields xs) else None) extensible
      (qbind (all_dec root_dec ks) (\<lambda>vs. qbind (all_dec (addition_dec V) xs) (\<lambda>ws. qret (vs, ws))))"

section \<open>The bits\<close>

fun root_bits :: "'v uper_component list \<Rightarrow> 'v option list \<Rightarrow> bits" where
  "root_bits (k # ks) (v # vs) = (case v of Some x \<Rightarrow> u_bits k x | None \<Rightarrow> []) @ root_bits ks vs"
| "root_bits _ _ = []"

fun optional_bits :: "'v uper_component list \<Rightarrow> 'v option list \<Rightarrow> bits" where
  "optional_bits (k # ks) (v # vs) = (if u_optional k then [v \<noteq> None] else []) @ optional_bits ks vs"
| "optional_bits _ _ = []"

definition open_octets :: "bitvec_ops \<Rightarrow> bits \<Rightarrow> bytes" where
  "open_octets B b = bv_raw B (force_pad_to_alignment b)"

definition addition_octets :: "bitvec_ops \<Rightarrow> 'v uper_component \<Rightarrow> 'v option \<Rightarrow> bytes option" where
  "addition_octets B k v = map_option (\<lambda>x. open_octets B (u_bits k x)) v"

definition field_octets_bits :: "bytes option \<Rightarrow> bits" where
  "field_octets_bits f = (case f of Some bs \<Rightarrow> octets_with_length bs | None \<Rightarrow> [])"

definition additions_bits :: "bytes option list \<Rightarrow> bits" where
  "additions_bits fs =
    (if list_ex (\<lambda>f. f \<noteq> None) fs
     then small_number_bits (length fs - 1) @ map (\<lambda>f. f \<noteq> None) fs @ concat (map field_octets_bits fs)
     else [])"

definition uper_sequence_bits ::
    "bitvec_ops \<Rightarrow> bool \<Rightarrow> 'v uper_component list \<Rightarrow> 'v uper_component list \<Rightarrow>
     'v option list \<times> 'v option list \<Rightarrow> bits" where
  "uper_sequence_bits B extensible ks xs v =
    (if extensible then [list_ex (\<lambda>w. w \<noteq> None) (snd v)] else []) @
    optional_bits ks (fst v) @ root_bits ks (fst v) @ additions_bits (map2 (addition_octets B) xs (snd v))"

definition root_ok :: "'v uper_component \<Rightarrow> 'v option \<Rightarrow> bool" where
  "root_ok k v \<longleftrightarrow> (case v of Some x \<Rightarrow> u_wf k x | None \<Rightarrow> u_optional k)"

definition addition_ok :: "bitvec_ops \<Rightarrow> 'v uper_component \<Rightarrow> 'v option \<Rightarrow> bool" where
  "addition_ok B k v \<longleftrightarrow>
    (case v of Some x \<Rightarrow> u_wf k x \<and> length (open_octets B (u_bits k x)) < SIXTEEN_K | None \<Rightarrow> u_optional k)"

definition uper_sequence_ok ::
    "bitvec_ops \<Rightarrow> bool \<Rightarrow> 'v uper_component list \<Rightarrow> 'v uper_component list \<Rightarrow>
     'v option list \<times> 'v option list \<Rightarrow> bool" where
  "uper_sequence_ok B extensible ks xs v \<longleftrightarrow>
    list_all2 root_ok ks (fst v) \<and> list_all2 (addition_ok B) xs (snd v) \<and> length xs < 64 \<and> (xs \<noteq> [] \<longrightarrow> extensible)"

lemma length_optional_bits:
  "length vs = length ks \<Longrightarrow> length (optional_bits ks vs) = length (filter is_optional_or_default (map u_field ks))"
  by (induction ks vs rule: optional_bits.induct) simp_all

lemma u_fields_facts [simp]:
  "fields_list (u_fields ks) = map u_field ks"
  "number_optional_default (u_fields ks) = length (filter is_optional_or_default (map u_field ks))"
  "optional_and_default_fields (u_fields ks) = filter is_optional_or_default (map u_field ks)"
  "has_required (u_fields ks) = list_ex (\<lambda>k. \<not> u_optional k) ks"
  using from_static_fold [of "map u_field ks" False 0]
  by (simp_all add: u_fields_def from_static_def optional_and_default_fields_def list_ex_iff is_not_optional_or_default_def)

lemma force_pad_length: "length (force_pad_to_alignment b) mod 8 = 0"
  by (simp add: force_pad_to_alignment_def) presburger

lemma force_pad_prefix: "\<exists>pad. force_pad_to_alignment b = b @ pad"
  by (simp add: force_pad_to_alignment_def)

lemma open_octets_bits:
  assumes "bits_documented B"
  shows "octets_bits (open_octets B b) = force_pad_to_alignment b"
  using be_val_raw(3) [OF assms force_pad_length, of b] bits_documentedD(1) [OF assms]
  by (simp add: open_octets_def octets_bits_def)

text \<open>Nothing is lost by leaving the output out when no component is there.\<close>

lemma root_bits_absent:
  "list_all2 root_ok ks vs \<Longrightarrow> \<not> list_ex (\<lambda>b. b) (optional_bits ks vs) \<Longrightarrow> \<not> list_ex (\<lambda>k. \<not> u_optional k) ks \<Longrightarrow>
    root_bits ks vs = []"
  by (induction rule: list_all2_induct) (auto split: option.splits if_splits)


section \<open>The encoder\<close>

locale uper_components =
  fixes V :: per_env and ks xs :: "'v uper_component list" and depth :: nat and extensible :: bool and tg :: tag
  assumes documented: "per_documented V"
    and codecs: "k \<in> set ks \<union> set xs \<Longrightarrow> uper_codec (u_enc k) (u_dec k) (u_bits k) (u_wf k) depth"
    and field_tags: "k \<in> set ks \<Longrightarrow> smallest_tag (tag_tree (u_field k)) = u_tag k"
begin

abbreviation B :: bitvec_ops where "B \<equiv> pv_bits V"

text \<open>One root component, then all of them: the bit field gets one more bit for an optional one.\<close>

lemma root_enc_bits:
  assumes "root_ok k v" "k \<in> set ks" "uper_encoder e" "p_root_bitfield e = (i, arr)"
    "u_optional k \<Longrightarrow> i < length arr \<and> i < p_number_optional_default_fields e"
  shows "\<exists>arr'. length arr' = length arr \<and>
    map fst (take (i + of_bool (u_optional k)) arr') = map fst (take i arr) @ optional_bits [k] [v] \<and>
    root_enc k v e =
      Some (Ok (e\<lparr>p_output := p_output e @ root_bits [k] [v], p_root_bitfield := (i + of_bool (u_optional k), arr')\<rparr>))"
proof -
  note enc = uper_codec.enc_bits [OF codecs [OF UnI1 [OF assms(2)]]]
  show ?thesis
  proof (cases "u_optional k")
    case False
    then obtain x where "v = Some x" "u_wf k x" using assms(1) by (auto simp: root_ok_def split: option.splits)
    with False assms(3,4) show ?thesis by (cases e) (simp add: root_enc_def enc)
  next
    case True
    let ?arr = "arr[i := (v \<noteq> None, u_tag k)]"
    have i: "i < length arr" "i < p_number_optional_default_fields e" using assms(5) True by simp_all
    then have "per_set_presence (u_tag k) (v \<noteq> None) e = Some (Ok (e\<lparr>p_root_bitfield := (i + 1, ?arr)\<rparr>))"
      using assms(4) by (auto simp: per_set_presence_def)
    moreover have "map fst (take (Suc i) ?arr) = map fst (take i arr) @ [v \<noteq> None]"
      using i(1) by (simp add: take_Suc_conv_app_nth)
    ultimately show ?thesis
      using True assms(1,3)
      by (intro exI [of _ ?arr])
        (auto simp: root_enc_def root_ok_def per_encode_some_def per_encode_none_def enc split: option.splits)
  qed
qed

lemma roots_enc_bits:
  assumes "list_all2 root_ok js vs" "set js \<subseteq> set ks" "uper_encoder e" "p_root_bitfield e = (i, arr)"
    "i + length (filter u_optional js) \<le> length arr"
    "i + length (filter u_optional js) \<le> p_number_optional_default_fields e"
  shows "\<exists>arr'. length arr' = length arr \<and>
    map fst (take (i + length (filter u_optional js)) arr') = map fst (take i arr) @ optional_bits js vs \<and>
    all_enc root_enc js vs e =
      Some (Ok (e\<lparr>p_output := p_output e @ root_bits js vs, p_root_bitfield := (i + length (filter u_optional js), arr')\<rparr>))"
  using assms
proof (induction js vs arbitrary: e i arr rule: list_all2_induct)
  case Nil
  then show ?case by (intro exI [of _ arr]) (cases e, simp)
next
  case (Cons k js v vs)
  let ?i = "i + of_bool (u_optional k)"
  obtain arr1 where a: "length arr1 = length arr"
    "map fst (take ?i arr1) = map fst (take i arr) @ optional_bits [k] [v]"
    "root_enc k v e = Some (Ok (e\<lparr>p_output := p_output e @ root_bits [k] [v], p_root_bitfield := (?i, arr1)\<rparr>))"
    using root_enc_bits [of k v e i arr] Cons.hyps(1) Cons.prems by (auto split: if_splits)
  define e1 where "e1 = e\<lparr>p_output := p_output e @ root_bits [k] [v], p_root_bitfield := (?i, arr1)\<rparr>"
  obtain arr2 where b: "length arr2 = length arr1"
    "map fst (take (?i + length (filter u_optional js)) arr2) = map fst (take ?i arr1) @ optional_bits js vs"
    "all_enc root_enc js vs e1 = Some (Ok (e1\<lparr>p_output := p_output e1 @ root_bits js vs,
        p_root_bitfield := (?i + length (filter u_optional js), arr2)\<rparr>))"
    using Cons.IH [of e1 ?i arr1] Cons.prems a(1) by (auto simp: e1_def split: if_splits)
  show ?case
    using a b by (intro exI [of _ arr2]) (auto simp: e1_def split: if_splits)
qed

text \<open>The extension additions: the fields are filled in one after the other.\<close>

lemma addition_value_bits:
  assumes "u_wf k x" "k \<in> set xs" "uper_encoder e" "p_number_optional_default_fields e = 0"
  shows "(if u_optional k then per_encode_some (u_tag k) (u_enc k x) else u_enc k x) e =
    Some (Ok (e\<lparr>p_output := p_output e @ u_bits k x\<rparr>))"
proof -
  have "per_set_presence (u_tag k) True e = Some (Ok e)"
    using assms(4) by (cases "p_root_bitfield e") (simp add: per_set_presence_def)
  then show ?thesis
    using uper_codec.enc_bits [OF codecs [OF UnI2 [OF assms(2)]] assms(1,3)] by (simp add: per_encode_some_def)
qed

lemma set_extension_field_next:
  assumes "p_extension_bitfield e = (length pre, arr)" "length arr = length pre + Suc n"
    "p_extension_fields e = pre @ replicate (Suc n) None"
  shows "set_extension_field f e = Some (Ok (e\<lparr>p_extension_fields := (pre @ [f]) @ replicate n None,
    p_extension_bitfield := (length (pre @ [f]), arr[length pre := f \<noteq> None])\<rparr>))"
  using assms by (auto simp: set_extension_field_def per_set_extension_presence_def Let_def list_update_append)

lemma addition_enc_field:
  assumes "addition_ok B k v" "k \<in> set xs" "uper_encoder e"
  shows "addition_enc B k v e = set_extension_field (addition_octets B k v) e"
proof (cases v)
  case None
  then show ?thesis by (simp add: addition_enc_def per_encode_extension_addition_def addition_octets_def)
next
  case (Some x)
  let ?new = "self_new e (per_without_set_encoding (p_options e))"
  have new: "uper_encoder ?new" "p_number_optional_default_fields ?new = 0" "p_output ?new = []"
    using assms(3) by (simp_all add: self_new_def per_encoder_new_def per_without_set_encoding_def)
  have "u_wf k x" using assms(1) Some by (simp add: addition_ok_def)
  from addition_value_bits [OF this assms(2) new(1,2)] show ?thesis
    using Some new
    by (simp add: addition_enc_def per_encode_extension_addition_def addition_octets_def per_output_def
        bitstring_output_def open_octets_def split del: if_split)
qed

lemma additions_enc_fields:
  assumes "list_all2 (addition_ok B) js ws" "set js \<subseteq> set xs" "uper_encoder e"
    "p_extension_bitfield e = (length pre, arr)" "length arr = length pre + length js"
    "p_extension_fields e = pre @ replicate (length js) None"
  shows "\<exists>arr'. all_enc (addition_enc B) js ws e =
    Some (Ok (e\<lparr>p_extension_fields := pre @ map2 (addition_octets B) js ws,
      p_extension_bitfield := (length pre + length js, arr')\<rparr>))"
  using assms
proof (induction js ws arbitrary: e pre arr rule: list_all2_induct)
  case Nil
  then show ?case by (intro exI [of _ arr]) (cases e, simp)
next
  case (Cons k js w ws)
  let ?f = "addition_octets B k w"
  define e1 where "e1 = e\<lparr>p_extension_fields := (pre @ [?f]) @ replicate (length js) None,
    p_extension_bitfield := (length (pre @ [?f]), arr[length pre := ?f \<noteq> None])\<rparr>"
  have "addition_enc B k w e = Some (Ok e1)"
    using addition_enc_field [of k w e] set_extension_field_next [of e pre arr "length js" ?f] Cons
    by (simp add: e1_def)
  moreover obtain arr' where "all_enc (addition_enc B) js ws e1 =
    Some (Ok (e1\<lparr>p_extension_fields := (pre @ [?f]) @ map2 (addition_octets B) js ws,
      p_extension_bitfield := (length (pre @ [?f]) + length js, arr')\<rparr>))"
    using Cons.IH [of e1 "pre @ [?f]" "arr[length pre := ?f \<noteq> None]"] Cons.prems by (auto simp: e1_def)
  ultimately show ?case by (intro exI [of _ arr']) (simp add: e1_def)
qed

lemma extension_fields_bits:
  assumes "\<forall>f \<in> set fs. \<forall>bs. f = Some bs \<longrightarrow> length bs < SIXTEEN_K" "uper_encoder e"
  shows "encode_extension_fields B e fs buffer = Some (Ok (buffer @ concat (map field_octets_bits fs)))"
  using assms
proof (induction fs arbitrary: buffer)
  case (Cons f fs)
  then show ?case using encode_octets_with_length [OF documented_bits [OF documented], of e]
    by (cases f) (simp_all add: field_octets_bits_def)
qed simp

lemma list_ex_additions: "length ws = length js \<Longrightarrow>
  list_ex (\<lambda>f. f \<noteq> None) (map2 (addition_octets B) js ws) = list_ex (\<lambda>w. w \<noteq> None) ws"
  by (induction js ws rule: list_induct2') (auto simp: addition_octets_def)

lemma constructed_bits:
  assumes "uper_encoder e" "uper_encoder enc" "p_root_bitfield enc = (n, arr)" "n \<le> length arr"
    "map fst (take n arr) = optional_bits ks vs" "p_output enc = root_bits ks vs" "list_all2 root_ok ks vs"
    "p_extension_fields enc = fs" "length fs = length xs" "length xs < 64"
    "list_ex (\<lambda>f. f \<noteq> None) fs \<Longrightarrow> extensible" "\<forall>f \<in> set fs. \<forall>bs. f = Some bs \<longrightarrow> length bs < SIXTEEN_K"
  shows "per_encode_constructed B (length xs) (u_fields ks) extensible tg enc e =
    Some (Ok (e\<lparr>p_output := p_output e @ (if extensible then [list_ex (\<lambda>f. f \<noteq> None) fs] else []) @
      optional_bits ks vs @ root_bits ks vs @ additions_bits fs\<rparr>))"
proof -
  let ?present = "list_ex (\<lambda>f. f \<noteq> None) fs"
  have opt: "list_ex fst (take n arr) = list_ex (\<lambda>b. b) (optional_bits ks vs)"
    unfolding assms(5) [symmetric] by (simp add: list_ex_iff)
  have none: "n = 0 \<Longrightarrow> optional_bits ks vs = []" using assms(5) by auto
  have out: "(if list_ex fst (take n arr) \<or> has_required (u_fields ks) then b @ root_bits ks vs else b) = b @ root_bits ks vs" for b
    using root_bits_absent [OF assms(7)] opt by auto
  have B: "bits_documented B" using documented by (rule documented_bits)
  have small: "?present \<Longrightarrow> encode_normally_small_length B e (length xs) b = Some (Ok (b @ small_number_bits (length fs - 1)))" for b
    using encode_small_length_bits [OF B, of e "length xs" b] assms(1,9,10)
    by (cases "xs = []") (auto simp: list_ex_iff)
  have bf: "per_canonical_bitfield (pe_set_encoding (p_options enc)) (p_root_bitfield enc) = (n, arr)"
    using assms(2,3) by (simp add: per_canonical_bitfield_def)
  have start: "(if n > 0 \<or> extensible then b @ map fst (take n arr) else b) = b @ optional_bits ks vs" for b
    using assms(5) none by simp
  show ?thesis
    unfolding per_encode_constructed_def bf
    using assms(1,2,4,6,8,11) small extension_fields_bits [OF assms(12,1)]
    by (simp add: Let_def bitstring_output_def start out additions_bits_def per_extend_uper del: u_fields_facts)
qed

lemma sequence_enc_bits:
  assumes ok: "uper_sequence_ok B extensible ks xs v" and e: "uper_encoder e"
  shows "uper_sequence_enc B extensible ks xs tg v e =
    Some (Ok (e\<lparr>p_output := p_output e @ uper_sequence_bits B extensible ks xs v\<rparr>))"
proof -
  obtain vs ws where v: "v = (vs, ws)" by (cases v)
  have roots: "list_all2 root_ok ks vs" and adds: "list_all2 (addition_ok B) xs ws"
    and few: "length xs < 64" and ext: "xs \<noteq> [] \<longrightarrow> extensible" using ok by (simp_all add: uper_sequence_ok_def v)
  let ?n = "length (filter u_optional ks)" and ?fs = "map2 (addition_octets B) xs ws"
  define e0 where "e0 = new_sequence_encoder (length ks) (length xs) (u_fields ks) extensible e"
  have e0: "uper_encoder e0" "p_output e0 = []" "p_root_bitfield e0 = (0, replicate (length ks) (False, new_private 0))"
    "p_extension_bitfield e0 = (0, replicate (length xs) False)" "p_extension_fields e0 = replicate (length xs) None"
    "p_number_optional_default_fields e0 = ?n"
    using e by (simp_all add: e0_def new_sequence_encoder_def per_encoder_new_def per_without_set_encoding_def filter_map o_def)
  obtain arr where arr: "length arr = length ks" "map fst (take ?n arr) = optional_bits ks vs"
    "all_enc root_enc ks vs e0 = Some (Ok (e0\<lparr>p_output := root_bits ks vs, p_root_bitfield := (?n, arr)\<rparr>))"
    using roots_enc_bits [OF roots subset_refl e0(1,3)] e0(2,6) length_filter_le [of u_optional ks] by auto
  let ?e1 = "e0\<lparr>p_output := root_bits ks vs, p_root_bitfield := (?n, arr)\<rparr>"
  obtain arr2 where arr2: "all_enc (addition_enc B) xs ws ?e1 =
      Some (Ok (?e1\<lparr>p_extension_fields := ?fs, p_extension_bitfield := (length xs, arr2)\<rparr>))"
    using additions_enc_fields [OF adds subset_refl, of ?e1 "[]"] e0 by auto
  let ?e2 = "?e1\<lparr>p_extension_fields := ?fs, p_extension_bitfield := (length xs, arr2)\<rparr>"
  have lw: "length ws = length xs" using adds by (simp add: list_all2_lengthD)
  have fields: "\<forall>f \<in> set ?fs. \<forall>bs. f = Some bs \<longrightarrow> length bs < SIXTEEN_K"
    using adds by (auto simp: list_all2_conv_all_nth in_set_conv_nth addition_ok_def addition_octets_def split: option.splits)
  have "per_encode_constructed B (length xs) (u_fields ks) extensible tg ?e2 e =
    Some (Ok (e\<lparr>p_output := p_output e @ (if extensible then [list_ex (\<lambda>f. f \<noteq> None) ?fs] else []) @
      optional_bits ks vs @ root_bits ks vs @ additions_bits ?fs\<rparr>))"
    using e e0(1) arr(1,2) roots few lw ext fields length_filter_le [of u_optional ks]
    by (intro constructed_bits) auto
  then show ?thesis
    using arr(3) arr2 list_ex_additions [OF lw]
    by (simp add: uper_sequence_enc_def per_encode_sequence_def e0_def v uper_sequence_bits_def)
qed

text \<open>The decoder.\<close>

lemma root_dec_bits:
  assumes "root_ok k v" "k \<in> set ks" "uper_depth depth (q_options d)"
    "q_input d = root_bits [k] [v] @ rest"
    "q_fields d = zip (filter is_optional_or_default [u_field k]) (optional_bits [k] [v]) @ fs"
  shows "root_dec k d = Some (Ok (v, d\<lparr>q_input := rest, q_fields := fs\<rparr>))"
proof -
  note dec = uper_codec.dec_bits [OF codecs [OF UnI1 [OF assms(2)]]]
  show ?thesis
  proof (cases "u_optional k")
    case False
    then obtain x where "v = Some x" "u_wf k x" using assms(1) by (auto simp: root_ok_def split: option.splits)
    with False assms(3-5) show ?thesis by (cases d) (simp add: root_dec_def uper_steps dec)
  next
    case True
    then have "per_require_field (u_tag k) d = Some (Ok (v \<noteq> None, d\<lparr>q_fields := fs\<rparr>))"
      using assms(5) field_tags [OF assms(2)] by (simp add: per_require_field_def qret_def)
    then show ?thesis
      using True assms(1,3,4)
      by (cases d) (auto simp: root_dec_def root_ok_def per_decode_optional_def uper_steps dec split: option.splits)
  qed
qed

lemma roots_dec_bits:
  assumes "list_all2 root_ok js vs" "set js \<subseteq> set ks" "uper_depth depth (q_options d)"
    "q_input d = root_bits js vs @ rest"
    "q_fields d = zip (filter is_optional_or_default (map u_field js)) (optional_bits js vs)"
  shows "all_dec root_dec js d = Some (Ok (vs, d\<lparr>q_input := rest, q_fields := []\<rparr>))"
  using assms
proof (induction js vs arbitrary: d rule: list_all2_induct)
  case Nil
  then show ?case by (cases d) (simp add: qret_def)
next
  case (Cons k js v vs)
  let ?d = "d\<lparr>q_input := root_bits js vs @ rest,
    q_fields := zip (filter is_optional_or_default (map u_field js)) (optional_bits js vs)\<rparr>"
  have "root_dec k d = Some (Ok (v, ?d))"
    using Cons.hyps Cons.prems by (intro root_dec_bits) simp_all
  moreover have "all_dec root_dec js ?d = Some (Ok (vs, ?d\<lparr>q_input := rest, q_fields := []\<rparr>))"
    using Cons.prems by (intro Cons.IH) simp_all
  ultimately show ?case by (cases d) (simp add: uper_steps)
qed

lemma decode_open_octets:
  assumes "u_wf k x" "k \<in> set xs" "uper_depth depth (q_options d)" "length (open_octets B (u_bits k x)) < SIXTEEN_K"
    "q_input d = octets_with_length (open_octets B (u_bits k x)) @ rest"
  shows "qbind (decode_octets V) (\<lambda>bytes self.
      pbind (u_dec k (per_decoder_new bytes (q_options self))) (\<lambda>(v, _). qret (Some v) self)) d =
    Some (Ok (Some x, d\<lparr>q_input := rest\<rparr>))"
proof -
  obtain pad where pad: "octets_bits (open_octets B (u_bits k x)) = u_bits k x @ pad"
    using open_octets_bits [OF documented_bits [OF documented]] force_pad_prefix by metis
  have "decode_octets V d = Some (Ok (octets_bits (open_octets B (u_bits k x)), d\<lparr>q_input := rest\<rparr>))"
    using assms(3-5) by (intro decode_octets_with_length(1) [OF documented]) simp_all
  moreover have "u_dec k (per_decoder_new (u_bits k x @ pad) (q_options d)) =
      Some (Ok (x, (per_decoder_new (u_bits k x @ pad) (q_options d))\<lparr>q_input := pad\<rparr>))"
    using assms(1,3) by (intro uper_codec.dec_bits [OF codecs [OF UnI2 [OF assms(2)]]])
      (simp_all add: per_decoder_new_def)
  ultimately show ?thesis using pad by (simp add: qbind_def qret_def)
qed

lemma addition_dec_next:
  assumes "addition_ok B k w" "k \<in> set xs" "uper_depth depth (q_options d)"
    "q_extensions_present d = Some (Some ((u_field k, w \<noteq> None) # fs))"
    "q_input d = field_octets_bits (addition_octets B k w) @ rest"
  shows "addition_dec V k d = Some (Ok (w, d\<lparr>q_input := rest, q_extensions_present := Some (Some fs)\<rparr>))"
proof -
  let ?d = "d\<lparr>q_extensions_present := Some (Some fs)\<rparr>"
  have header: "per_parse_extension_header V d = Some (Ok (True, d))"
    "per_extension_is_present d = Some (Ok (Some (u_field k, w \<noteq> None), ?d))"
    using assms(4) by (simp_all add: per_parse_extension_header_def per_extension_is_present_def qret_def)
  show ?thesis
  proof (cases w)
    case None
    then have "d\<lparr>q_input := rest\<rparr> = d" "u_optional k"
      using assms(1,5) by (cases d; simp add: addition_octets_def field_octets_bits_def addition_ok_def)+
    then show ?thesis using None header
      by (cases d) (simp add: addition_dec_def per_decode_extension_addition_def uper_steps)
  next
    case (Some x)
    have "qbind (decode_octets V) (\<lambda>bytes self.
      pbind (u_dec k (per_decoder_new bytes (q_options self))) (\<lambda>(v, _). qret (Some v) self)) ?d =
      Some (Ok (Some x, ?d\<lparr>q_input := rest\<rparr>))"
      using assms Some
      by (intro decode_open_octets) (simp_all add: addition_ok_def addition_octets_def field_octets_bits_def)
    then show ?thesis using Some header
      by (cases d) (simp add: addition_dec_def per_decode_extension_addition_def qbind_def qret_def)
  qed
qed

lemma additions_dec_bits:
  assumes "list_all2 (addition_ok B) js ws" "set js \<subseteq> set xs" "uper_depth depth (q_options d)"
    "q_extensions_present d = Some (Some (zip (map u_field js) (map (\<lambda>w. w \<noteq> None) ws)))"
    "q_input d = concat (map field_octets_bits (map2 (addition_octets B) js ws)) @ rest"
  shows "all_dec (addition_dec V) js d = Some (Ok (ws, d\<lparr>q_input := rest, q_extensions_present := Some (Some [])\<rparr>))"
  using assms
proof (induction js ws arbitrary: d rule: list_all2_induct)
  case Nil
  then show ?case by (cases d) (simp add: qret_def)
next
  case (Cons k js w ws)
  let ?d = "d\<lparr>q_input := concat (map field_octets_bits (map2 (addition_octets B) js ws)) @ rest,
    q_extensions_present := Some (Some (zip (map u_field js) (map (\<lambda>w. w \<noteq> None) ws)))\<rparr>"
  have "addition_dec V k d = Some (Ok (w, ?d))"
    using Cons.hyps Cons.prems by (intro addition_dec_next) simp_all
  moreover have "all_dec (addition_dec V) js ?d =
      Some (Ok (ws, ?d\<lparr>q_input := rest, q_extensions_present := Some (Some [])\<rparr>))"
    using Cons.prems by (intro Cons.IH) simp_all
  ultimately show ?case by (cases d) (simp add: uper_steps)
qed

text \<open>Without extensions every addition is absent.\<close>

lemma additions_dec_absent:
  assumes "list_all2 (addition_ok B) js ws" "\<not> list_ex (\<lambda>w. w \<noteq> None) ws" "q_extensions_present d = None"
  shows "all_dec (addition_dec V) js d = Some (Ok (ws, d))"
  using assms
  by (induction js ws rule: list_all2_induct)
    (simp_all add: addition_dec_def per_decode_extension_addition_def per_parse_extension_header_def uper_steps addition_ok_def)

text \<open>The header of the extension additions is read by the first of them.\<close>

lemma parse_header_bits:
  assumes "list_all2 (addition_ok B) xs ws" "xs \<noteq> []" "length xs < 64" "uper_depth depth (q_options d)"
    "q_extensions_present d = Some None" "q_extension_fields d = Some (u_fields xs)"
    "q_input d = small_number_bits (length xs - 1) @ map (\<lambda>w. w \<noteq> None) ws @ rest"
  shows "per_parse_extension_header V d = Some (Ok (True, d\<lparr>q_input := rest,
    q_extensions_present := Some (Some (zip (map u_field xs) (map (\<lambda>w. w \<noteq> None) ws)))\<rparr>))"
proof -
  let ?bits = "map (\<lambda>w. w \<noteq> None) ws"
  have lw: "length ws = length xs" using assms(1) by (simp add: list_all2_lengthD)
  have "parse_normally_small_length V d = Some (Ok (length xs - 1, d\<lparr>q_input := ?bits @ rest\<rparr>))"
    using assms(3,4,7) by (intro parse_small_length_bits [OF documented]) simp_all
  moreover have "take_input V c (length xs - 1 + 1) (?bits @ rest) = Ok (rest, ?bits)" for c
    using lw assms(2) by (intro take_input_append [OF documented]) (cases xs, simp_all)
  moreover have "List.find (\<lambda>(f, p). is_not_optional_or_default f \<and> \<not> p) (zip (map u_field xs) ?bits) = None"
    using assms(1)
    by (auto simp: find_None_iff in_set_zip list_all2_conv_all_nth addition_ok_def is_not_optional_or_default_def
        split: option.splits)
  ultimately show ?thesis
    using assms(5,6) by (simp add: per_parse_extension_header_def uper_steps Let_def)
qed

lemma first_addition:
  assumes "per_parse_extension_header V d = Some (Ok (True, d'))" "per_parse_extension_header V d' = Some (Ok (True, d'))"
  shows "all_dec (addition_dec V) (k # js) d = all_dec (addition_dec V) (k # js) d'"
  using assms by (simp add: addition_dec_def per_decode_extension_addition_def qbind_def)

text \<open>The root components are read in the same way whatever extension additions the decoder knows; the bits of
  the additions are left to it.\<close>

lemma sequence_dec_roots:
  assumes roots: "list_all2 root_ok ks vs" and depth: "uper_depth (Suc depth) (q_options d)"
    and present: "present \<Longrightarrow> extensible"
    and q: "q_input d = (if extensible then [present] else []) @ optional_bits ks vs @ root_bits ks vs @ tail"
  obtains c where "q_input c = tail" "uper_depth depth (q_options c)"
    "q_extension_fields c = (if extensible then Some (u_fields js) else None)"
    "q_extensions_present c = (if present then Some None else None)"
    "uper_sequence_dec V extensible ks js d =
      pbind (all_dec (addition_dec V) js c) (\<lambda>(ws, c'). Some (Ok ((vs, ws), d\<lparr>q_input := q_input c'\<rparr>)))"
proof -
  have lv: "length vs = length ks" using roots by (simp add: list_all2_lengthD)
  let ?d1 = "d\<lparr>q_input := optional_bits ks vs @ root_bits ks vs @ tail\<rparr>" and ?d2 = "d\<lparr>q_input := root_bits ks vs @ tail\<rparr>"
  have bit: "(if extensible then parse_one_bit V else qret False) d = Some (Ok (present, ?d1))"
  proof (cases extensible)
    case True
    then show ?thesis using parse_one_bit_Cons [OF documented] q by simp
  next
    case False
    then have "d = ?d1" using q by simp
    then show ?thesis using False present by (auto simp: qret_def)
  qed
  have bitmap: "parse_optional_and_default_field_bitmap V (u_fields ks) ?d1 = Some (Ok (optional_bits ks vs, ?d2))"
    using take_input_append [OF documented, of "optional_bits ks vs"] length_optional_bits [OF lv]
    by (simp add: parse_optional_and_default_field_bitmap_def uper_steps)
  define c where "c = components_decoder (u_fields ks) (if extensible then Some (u_fields js) else None) present (optional_bits ks vs) ?d2"
  have c: "q_input c = root_bits ks vs @ tail" "uper_depth depth (q_options c)"
    "q_fields c = zip (filter is_optional_or_default (map u_field ks)) (optional_bits ks vs)"
    "q_extension_fields c = (if extensible then Some (u_fields js) else None)"
    "q_extensions_present c = (if present then Some None else None)"
    using depth by (auto simp: c_def components_decoder_def deeper_def)
  let ?c = "c\<lparr>q_input := tail, q_fields := []\<rparr>"
  have "all_dec root_dec ks c = Some (Ok (vs, ?c))" using roots_dec_bits [OF roots subset_refl c(2,1,3)] by simp
  moreover have "per_check_recursion_depth d = Some (Ok ((), d))" using depth by (simp add: per_check_recursion_depth_def qret_def)
  ultimately have "uper_sequence_dec V extensible ks js d =
      pbind (all_dec (addition_dec V) js ?c) (\<lambda>(ws, c'). Some (Ok ((vs, ws), d\<lparr>q_input := q_input c'\<rparr>)))"
    using bit bitmap
    by (simp add: uper_sequence_dec_def per_decode_sequence_def qbind_def c_def [symmetric] del: if_split)
      (auto simp: pbind_def qret_def split: option.split sum.split)
  with c show thesis by (intro that [of ?c]) simp_all
qed

lemma sequence_dec_bits:
  assumes ok: "uper_sequence_ok B extensible ks xs v" and depth: "uper_depth (Suc depth) (q_options d)"
    and q: "q_input d = uper_sequence_bits B extensible ks xs v @ rest"
  shows "uper_sequence_dec V extensible ks xs d = Some (Ok (v, d\<lparr>q_input := rest\<rparr>))"
proof -
  obtain vs ws where v: "v = (vs, ws)" by (cases v)
  have roots: "list_all2 root_ok ks vs" and adds: "list_all2 (addition_ok B) xs ws"
    and few: "length xs < 64" and ext: "xs \<noteq> [] \<longrightarrow> extensible" using ok by (simp_all add: uper_sequence_ok_def v)
  let ?present = "list_ex (\<lambda>w. w \<noteq> None) ws" and ?fs = "map2 (addition_octets B) xs ws"
  have lw: "length ws = length xs" using adds by (simp add: list_all2_lengthD)
  have present: "?present \<Longrightarrow> extensible \<and> xs \<noteq> []" using ext lw by (cases xs) auto
  let ?tail = "additions_bits ?fs @ rest"
  have q': "q_input d = (if extensible then [?present] else []) @ optional_bits ks vs @ root_bits ks vs @ ?tail"
    using q by (simp add: uper_sequence_bits_def v)
  show ?thesis
  proof (rule sequence_dec_roots [OF roots depth _ q', where js = xs])
    fix c
    assume c: "q_input c = ?tail" "uper_depth depth (q_options c)"
      "q_extension_fields c = (if extensible then Some (u_fields xs) else None)"
      "q_extensions_present c = (if ?present then Some None else None)"
      and dec: "uper_sequence_dec V extensible ks xs d =
        pbind (all_dec (addition_dec V) xs c) (\<lambda>(ws, c'). Some (Ok ((vs, ws), d\<lparr>q_input := q_input c'\<rparr>)))"
    obtain c2 where "all_dec (addition_dec V) xs c = Some (Ok (ws, c2))" "q_input c2 = rest"
    proof (cases ?present)
      case False
      then show thesis using additions_dec_absent [OF adds, of c] c(1,4) list_ex_additions [OF lw]
        by (intro that [of c]) (simp_all add: additions_bits_def)
    next
      case True
      then obtain k js where xs: "xs = k # js" using present by (cases xs) auto
      let ?bits = "map (\<lambda>w. w \<noteq> None) ws" and ?body = "concat (map field_octets_bits ?fs) @ rest"
      let ?c2 = "c\<lparr>q_input := ?body, q_extensions_present := Some (Some (zip (map u_field xs) ?bits))\<rparr>"
      have "?tail = small_number_bits (length xs - 1) @ ?bits @ ?body"
        using True list_ex_additions [OF lw] lw
        by (auto simp: additions_bits_def addition_octets_def intro!: nth_equalityI)
      then have "per_parse_extension_header V c = Some (Ok (True, ?c2))"
        using parse_header_bits [OF adds, of c ?body] c few True present by simp
      moreover have "per_parse_extension_header V ?c2 = Some (Ok (True, ?c2))"
        by (simp add: per_parse_extension_header_def qret_def)
      ultimately have "all_dec (addition_dec V) xs c = all_dec (addition_dec V) xs ?c2"
        unfolding xs by (rule first_addition)
      also have "\<dots> = Some (Ok (ws, ?c2\<lparr>q_input := rest, q_extensions_present := Some (Some [])\<rparr>))"
        using c(2) by (intro additions_dec_bits [OF adds subset_refl]) simp_all
      finally show thesis by (rule that) simp
    qed
    then show ?thesis using dec by (simp add: v pbind_def)
  qed (use present in blast)
qed

text \<open>A decoder that knows no addition leaves the bits of all of them.\<close>

lemma additions_not_skipped:
  assumes ok: "uper_sequence_ok B extensible ks xs (vs, ws)" and depth: "uper_depth (Suc depth) (q_options d)"
    and q: "q_input d = uper_sequence_bits B extensible ks xs (vs, ws) @ rest"
  shows "uper_sequence_dec V extensible ks [] d =
    Some (Ok ((vs, []), d\<lparr>q_input := additions_bits (map2 (addition_octets B) xs ws) @ rest\<rparr>))"
proof -
  have roots: "list_all2 root_ok ks vs" and lw: "length ws = length xs" and ext: "xs \<noteq> [] \<longrightarrow> extensible"
    using ok by (auto simp: uper_sequence_ok_def list_all2_lengthD)
  let ?present = "list_ex (\<lambda>w. w \<noteq> None) ws"
  have present: "?present \<Longrightarrow> extensible" using ext lw by (cases xs) auto
  have "q_input d = (if extensible then [?present] else []) @ optional_bits ks vs @ root_bits ks vs @
      additions_bits (map2 (addition_octets B) xs ws) @ rest"
    using q by (simp add: uper_sequence_bits_def)
  from sequence_dec_roots [OF roots depth present this, where js = "[]"] show ?thesis
    by (auto simp: pbind_def qret_def)
qed

lemma sequence_codec:
  "uper_codec (uper_sequence_enc B extensible ks xs tg) (uper_sequence_dec V extensible ks xs)
    (uper_sequence_bits B extensible ks xs) (uper_sequence_ok B extensible ks xs) (Suc depth)"
  by unfold_locales (simp_all add: sequence_enc_bits sequence_dec_bits)

end

end
