(* ===== verification/Per_Choice.thy ===== *)
theory Per_Choice
  imports Per_Sequence
begin

text \<open>
  A CHOICE keeps the contract of UPER: a root variant is selected by a number of as few bits as
  possible, a variant behind the extension marker by a normally small number and wrapped in an open type.
\<close>

text \<open>A value is the tag of its variant and the value of the variant.\<close>

definition u_variant :: "'v uper_component list \<Rightarrow> tag \<Rightarrow> 'v uper_component option" where
  "u_variant ks t = find (\<lambda>k. u_tag k = t) ks"

definition u_variants :: "'v uper_component list \<Rightarrow> tag_tree list" where
  "u_variants ks = map (\<lambda>k. Leaf (u_tag k)) ks"

text \<open>\<open>VARIANCE_CONSTRAINT\<close> as the derive macro computes it.\<close>

definition variance_constraint :: "nat \<Rightarrow> constraints" where
  "variance_constraint n = constraints_new [CValue (extensible_new (value_new (const_new 0 (int (n - 1)))))]"

definition choice_constraints :: "bool \<Rightarrow> constraints" where
  "choice_constraints extensible = (if extensible then constraints_new [CExtensible] else constraints_NONE)"

definition uper_choice_enc ::
    "bitvec_ops \<Rightarrow> bool \<Rightarrow> 'v uper_component list \<Rightarrow> 'v uper_component list \<Rightarrow> tag \<times> 'v \<Rightarrow> per_encode_fn" where
  "uper_choice_enc B extensible ks xs tv self =
    (case u_variant (ks @ xs) (fst tv) of
       Some k \<Rightarrow>
         per_encode_choice B (u_variants ks) (if extensible then Some (u_variants xs) else None)
           (variance_constraint (length ks)) (choice_constraints extensible) (fst tv) (u_enc k (snd tv)) self
     | None \<Rightarrow> Some (Ok self))"

definition uper_from_tag :: "'v uper_component list \<Rightarrow> tag \<Rightarrow> (tag \<times> 'v) per_decode_fn" where
  "uper_from_tag ks t self =
    (case u_variant ks t of
       Some k \<Rightarrow> qbind (u_dec k) (\<lambda>v. qret (t, v)) self
     | None \<Rightarrow> qerr (DecodeError (NoValidChoice []) (q_codec self)) self)"

definition uper_choice_dec ::
    "per_env \<Rightarrow> bool \<Rightarrow> 'v uper_component list \<Rightarrow> 'v uper_component list \<Rightarrow> (tag \<times> 'v) per_decode_fn" where
  "uper_choice_dec V extensible ks xs =
    per_decode_choice V (u_variants ks) (if extensible then Some (u_variants xs) else None)
      (variance_constraint (length ks)) (choice_constraints extensible) (uper_from_tag (ks @ xs))"

definition tag_index :: "'v uper_component list \<Rightarrow> tag \<Rightarrow> nat" where
  "tag_index ks t = the (position ((=) t) (map u_tag ks))"

text \<open>An open type has at least one octet here.\<close>

definition variant_octets :: "bitvec_ops \<Rightarrow> bits \<Rightarrow> bytes" where
  "variant_octets B b = (if open_octets B b = [] then [0] else open_octets B b)"

definition uper_choice_bits ::
    "bitvec_ops \<Rightarrow> bool \<Rightarrow> 'v uper_component list \<Rightarrow> 'v uper_component list \<Rightarrow> tag \<times> 'v \<Rightarrow> bits" where
  "uper_choice_bits B extensible ks xs tv =
    (case u_variant ks (fst tv) of
       Some k \<Rightarrow> (if extensible then [False] else []) @
         to_bits (log2 (int (length ks))) (tag_index ks (fst tv)) @ u_bits k (snd tv)
     | None \<Rightarrow>
         (case u_variant xs (fst tv) of
            Some k \<Rightarrow> True # small_number_bits (tag_index xs (fst tv)) @
              octets_with_length (variant_octets B (u_bits k (snd tv)))
          | None \<Rightarrow> []))"

definition uper_choice_ok ::
    "bitvec_ops \<Rightarrow> bool \<Rightarrow> 'v uper_component list \<Rightarrow> 'v uper_component list \<Rightarrow> tag \<times> 'v \<Rightarrow> bool" where
  "uper_choice_ok B extensible ks xs tv \<longleftrightarrow>
    length ks \<le> usize_MAX \<and> length xs \<le> usize_MAX \<and>
    (case u_variant ks (fst tv) of
       Some k \<Rightarrow> u_wf k (snd tv)
     | None \<Rightarrow>
         (case u_variant xs (fst tv) of
            Some k \<Rightarrow> extensible \<and> u_wf k (snd tv) \<and> length (variant_octets B (u_bits k (snd tv))) < SIXTEEN_K
          | None \<Rightarrow> False))"

lemma variants_tags [simp]: "variants_from_slice (u_variants ks) = map u_tag ks"
  by (induction ks) (simp_all add: variants_from_slice_def u_variants_def)

lemma u_variant_SomeD: "u_variant ks t = Some k \<Longrightarrow> k \<in> set ks \<and> t \<in> set (map u_tag ks)"
  by (auto simp: u_variant_def find_Some_iff)

lemma u_variant_None: "u_variant ks t = None \<Longrightarrow> t \<notin> set (map u_tag ks)"
  by (auto simp: u_variant_def find_None_iff)

lemma u_variant_append:
  "u_variant (ks @ xs) t = (case u_variant ks t of Some k \<Rightarrow> Some k | None \<Rightarrow> u_variant xs t)"
  by (induction ks) (simp_all add: u_variant_def)

lemma tag_index_props:
  assumes "t \<in> set (map u_tag ks)"
  shows "position ((=) t) (map u_tag ks) = Some (tag_index ks t)" "tag_index ks t < length ks"
    "get (map u_tag ks) (tag_index ks t) = Some t"
  using position_exists(2) [OF assms] position_Some [of "(=) t" "map u_tag ks"]
  by (auto simp: tag_index_def get_def)

lemma variance_facts:
  assumes "i < n" "n \<le> usize_MAX"
  shows "uper_integer_ok Usize (variance_constraint n) (int i)"
    "uper_integer_bits Usize (variance_constraint n) (int i) = to_bits (log2 (int n)) i"
proof -
  let ?b = "Range (Some 0) (Some (int (n - 1)))"
  have t: "in_type I128 (int (n - 1))" "in_type I128 (int i)" "in_type I128 (int n)"
    "in_type Usize (int i)" "in_type Usize 0" "in_type I128 0" "int (n - 1) < type_max I128"
    using assms by (auto simp: in_type_def type_min_def type_max_def usize_MAX_def)
  have r: "bounded_range I128 ?b = Some (int n)"
    using bounded_range_exact(1) [of I128 0 "int (n - 1)" 0] t assms by (simp add: of_nat_diff min_def in_type_def)
  have c: "c_value (variance_constraint n) = Some (extensible_new (value_new ?b))"
    "c_size (variance_constraint n) = None" "\<not> constraints_extensible (variance_constraint n)"
    by (simp_all add: variance_constraint_def constraints_new_def constraints_NONE_def const_new_def
        extensible_new_def constraints_extensible_def)
  then have root: "root_bounds (variance_constraint n) (int i) = Some ?b"
    by (simp add: root_bounds_def extended_integer_def extensible_new_def value_new_def split_beta)
  show "uper_integer_ok Usize (variance_constraint n) (int i)"
    using c(2) root r t assms variance_width(2) [OF assms]
    by (simp add: uper_integer_ok_def prim_wf_def minimum_def BYTE_WIDTH_def)
  show "uper_integer_bits Usize (variance_constraint n) (int i) = to_bits (log2 (int n)) i"
    using c root r by (simp add: uper_integer_bits_def minimum_def)
qed

lemma choice_constraints_extensible [simp]: "constraints_extensible (choice_constraints x) = x"
  by (simp add: choice_constraints_def constraints_new_def constraints_NONE_def constraints_extensible_def)

lemma encode_open_octets:
  assumes "bits_documented B" "\<not> pe_aligned (p_options e)" "length bs < SIXTEEN_K"
  shows "encode_octet_string_into_buffer B e constraints_NONE bs buffer = Some (Ok (buffer @ octets_with_length bs))"
  using encode_octets_bits [OF assms(1,2) string_fits_NONE [OF assms(3)]]
  by (simp add: container_bits_NONE octets_with_length_def)

lemma variant_octets_bits:
  assumes "bits_documented B"
  shows "\<exists>pad. octets_bits (variant_octets B b) = b @ pad"
proof (cases "open_octets B b = []")
  case True
  then have "force_pad_to_alignment b = []" using open_octets_bits [OF assms, of b] by (simp add: octets_bits_def)
  then have "b = []" by (simp add: force_pad_to_alignment_def split: if_splits)
  then show ?thesis by simp
next
  case False
  then show ?thesis using open_octets_bits [OF assms, of b] force_pad_prefix [of b] by (simp add: variant_octets_def)
qed

locale uper_choice =
  fixes V :: per_env and ks xs :: "'v uper_component list" and depth :: nat and extensible :: bool
  assumes documented: "per_documented V"
    and codecs: "k \<in> set ks \<union> set xs \<Longrightarrow> uper_codec (u_enc k) (u_dec k) (u_bits k) (u_wf k) depth"
begin

abbreviation B :: bitvec_ops where "B \<equiv> pv_bits V"

lemma choice_enc_bits:
  assumes ok: "uper_choice_ok B extensible ks xs tv" and e: "uper_encoder e"
  shows "uper_choice_enc B extensible ks xs tv e =
    Some (Ok (e\<lparr>p_output := p_output e @ uper_choice_bits B extensible ks xs tv\<rparr>))"
proof -
  obtain t v where tv: "tv = (t, v)" by (cases tv)
  have docB: "bits_documented B" using documented by (rule documented_bits)
  have plain: "\<not> pe_aligned (p_options e)" using e by simp
  define new where "new l = (self_new e (per_without_set_encoding (p_options e)))\<lparr>p_parent_output_length := Some l\<rparr>" for l
  have new: "uper_encoder (new l)" "p_output (new l) = []" for l
    using e by (simp_all add: new_def self_new_def per_encoder_new_def per_without_set_encoding_def)
  have bit: "encode_extensible_bit (choice_constraints extensible) [] c = (extensible \<and> \<not> c, if extensible then [\<not> c] else [])" for c
    by (simp add: encode_extensible_bit_def)
  show ?thesis
  proof (cases "u_variant ks t")
    case (Some k)
    then have k: "u_wf k v" "length ks \<le> usize_MAX" "k \<in> set ks \<union> set xs" and t: "t \<in> set (map u_tag ks)"
      using ok u_variant_SomeD [OF Some] by (auto simp: uper_choice_ok_def tv)
    note i = tag_index_props [OF t]
    note enc = uper_codec.enc_bits [OF codecs [OF k(3)] k(1) new(1)]
    note index = encode_number_bits [OF docB plain variance_facts(1) [OF i(2) k(2)], unfolded variance_facts(2) [OF i(2) k(2)]]
    have t': "tag_contains t (u_variants ks)" using t by (simp add: tag_contains_iff)
    show ?thesis
      using Some i(1,2) t' enc new index e
      by (auto simp: uper_choice_enc_def u_variant_append uper_choice_bits_def tv per_encode_choice_def bit
          new_def [symmetric] per_extend_uper Let_def)
  next
    case None
    then obtain k where k: "u_variant xs t = Some k" "extensible" "u_wf k v" "length xs \<le> usize_MAX"
      "length (variant_octets B (u_bits k v)) < SIXTEEN_K"
      using ok by (auto simp: uper_choice_ok_def tv split: option.splits)
    have k': "k \<in> set ks \<union> set xs" "t \<in> set (map u_tag xs)" using u_variant_SomeD [OF k(1)] by auto
    note i = tag_index_props [OF k'(2)]
    note enc = uper_codec.enc_bits [OF codecs [OF k'(1)] k(3) new(1)]
    have out: "fst (per_output B ((new l)\<lparr>p_output := b\<rparr>)) = open_octets B b" for l b
      using new by (simp add: per_output_def bitstring_output_def open_octets_def)
    have t': "\<not> tag_contains t (u_variants ks)" using u_variant_None [OF None] by (simp add: tag_contains_iff)
    have "tag_index xs t \<le> usize_MAX" using i(2) k(4) by simp
    from encode_small_number_bits [OF docB plain this] show ?thesis
      using None k(1,2) i(1) t' enc new e encode_open_octets [OF docB plain k(5)]
      by (simp add: uper_choice_enc_def u_variant_append uper_choice_bits_def tv per_encode_choice_def
          encode_extensible_bit_def new_def [symmetric] per_extend_uper Let_def out variant_octets_def [symmetric])
  qed
qed

lemma choice_dec_bits:
  assumes ok: "uper_choice_ok B extensible ks xs tv" and d: "uper_depth (Suc depth) (q_options d)"
    and q: "q_input d = uper_choice_bits B extensible ks xs tv @ rest"
  shows "uper_choice_dec V extensible ks xs d = Some (Ok (tv, d\<lparr>q_input := rest\<rparr>))"
proof -
  obtain t v where tv: "tv = (t, v)" by (cases tv)
  have check: "per_check_recursion_depth d = Some (Ok ((), d))" using d by (simp add: per_check_recursion_depth_def qret_def)
  have plain: "uper_depth 0 (q_options d)" using d by simp
  show ?thesis
  proof (cases "u_variant ks t")
    case (Some k)
    then have k: "u_wf k v" "length ks \<le> usize_MAX" "k \<in> set ks \<union> set xs" and t: "t \<in> set (map u_tag ks)"
      using ok u_variant_SomeD [OF Some] by (auto simp: uper_choice_ok_def tv)
    note i = tag_index_props [OF t]
    let ?i = "tag_index ks t"
    let ?d1 = "d\<lparr>q_input := to_bits (log2 (int (length ks))) ?i @ u_bits k v @ rest\<rparr>"
    let ?d2 = "d\<lparr>q_input := u_bits k v @ rest\<rparr>"
    have bit: "parse_extensible_bit V (choice_constraints extensible) d = Some (Ok (False, ?d1))"
    proof (cases extensible)
      case True
      then show ?thesis using parse_one_bit_Cons [OF documented] q Some
        by (simp add: parse_extensible_bit_def uper_choice_bits_def tv)
    next
      case False
      then have "d = ?d1" using q Some by (simp add: uper_choice_bits_def tv)
      then show ?thesis using False by (simp add: parse_extensible_bit_def qret_def)
    qed
    have "per_decode_integer V (per_prim Usize) (variance_constraint (length ks)) ?d1 = Some (Ok (int ?i, ?d1\<lparr>q_input := u_bits k v @ rest\<rparr>))"
      using plain documented variance_facts [OF i(2) k(2)] by (intro uper_integer.dec_bits) (simp_all add: given_def)
    then have index: "(if length ks \<noteq> 1 then choice_index (parse_integer V (per_prim Usize) (variance_constraint (length ks)))
        else qret 0) ?d1 = Some (Ok (?i, ?d2))"
      using i(2) by (auto simp: choice_index_def per_decode_integer_def qret_def)
    have "u_dec k (q_depth (\<lambda>n. n - 1) ?d2) = Some (Ok (v, (q_depth (\<lambda>n. n - 1) ?d2)\<lparr>q_input := rest\<rparr>))"
      using d by (intro uper_codec.dec_bits [OF codecs [OF k(3)] k(1)]) (auto simp: q_depth_def)
    then have "uper_from_tag (ks @ xs) t (q_depth (\<lambda>n. n - 1) ?d2) = Some (Ok ((t, v), (q_depth (\<lambda>n. n - 1) ?d2)\<lparr>q_input := rest\<rparr>))"
      using Some by (simp add: uper_from_tag_def u_variant_append uper_steps)
    moreover have "q_depth (\<lambda>n. min (n + 1) usize_MAX) ((q_depth (\<lambda>n. n - 1) ?d2)\<lparr>q_input := rest\<rparr>) = d\<lparr>q_input := rest\<rparr>"
      using d by (cases d) (auto simp: q_depth_def)
    ultimately show ?thesis using check bit index i(3)
      by (cases "length ks = 1") (simp_all add: uper_choice_dec_def per_decode_choice_def qbind_def qret_def tv Let_def)
  next
    case None
    then obtain k where k: "u_variant xs t = Some k" "extensible" "u_wf k v" "length xs \<le> usize_MAX"
      "length (variant_octets B (u_bits k v)) < SIXTEEN_K"
      using ok by (auto simp: uper_choice_ok_def tv split: option.splits)
    have k': "k \<in> set ks \<union> set xs" "t \<in> set (map u_tag xs)" using u_variant_SomeD [OF k(1)] by auto
    note i = tag_index_props [OF k'(2)]
    let ?i = "tag_index xs t" and ?o = "variant_octets B (u_bits k v)"
    let ?d1 = "d\<lparr>q_input := small_number_bits ?i @ octets_with_length ?o @ rest\<rparr>"
    let ?d2 = "d\<lparr>q_input := octets_with_length ?o @ rest\<rparr>"
    have bit: "parse_extensible_bit V (choice_constraints extensible) d = Some (Ok (True, ?d1))"
      using parse_one_bit_Cons [OF documented] q None k(1,2)
      by (simp add: parse_extensible_bit_def uper_choice_bits_def tv)
    have "parse_normally_small_integer V (per_prim Usize) ?d1 = Some (Ok (int ?i, ?d1\<lparr>q_input := octets_with_length ?o @ rest\<rparr>))"
      using plain i(2) k(4) by (intro parse_small_number_bits [OF documented]) simp_all
    then have index: "choice_index (parse_normally_small_integer V (per_prim Usize)) ?d1 = Some (Ok (?i, ?d2))"
      by (simp add: choice_index_def qret_def)
    have octets: "decode_octets V ?d2 = Some (Ok (octets_bits ?o, ?d2\<lparr>q_input := rest\<rparr>))"
      using plain k(5) by (intro decode_octets_with_length(1) [OF documented]) simp_all
    obtain pad where pad: "octets_bits ?o = u_bits k v @ pad" using variant_octets_bits [OF documented_bits [OF documented]] by blast
    have "u_dec k (per_decoder_new (u_bits k v @ pad) (deeper (q_options d))) =
        Some (Ok (v, (per_decoder_new (u_bits k v @ pad) (deeper (q_options d)))\<lparr>q_input := pad\<rparr>))"
      using d by (intro uper_codec.dec_bits [OF codecs [OF k'(1)] k(3)]) (auto simp: per_decoder_new_def deeper_def)
    then have "uper_from_tag (ks @ xs) t (per_decoder_new (u_bits k v @ pad) (deeper (q_options d))) =
        Some (Ok ((t, v), (per_decoder_new (u_bits k v @ pad) (deeper (q_options d)))\<lparr>q_input := pad\<rparr>))"
      using k(1) None by (simp add: uper_from_tag_def u_variant_append uper_steps)
    then show ?thesis using check bit index i(3) octets pad k(2)
      by (simp add: uper_choice_dec_def per_decode_choice_def qbind_def qret_def tv Let_def split del: if_split)
  qed
qed

lemma choice_codec:
  "uper_codec (uper_choice_enc B extensible ks xs) (uper_choice_dec V extensible ks xs)
    (uper_choice_bits B extensible ks xs) (uper_choice_ok B extensible ks xs) (Suc depth)"
  by unfold_locales (simp_all add: choice_enc_bits choice_dec_bits)

end

end
