(* ===== verification/Per_Schema.thy ===== *)
theory Per_Schema
  imports Per_Choice Oer_Schema
begin

text \<open>
  The closure of the contract of UPER: a datatype of ASN.1 types with extensible SEQUENCE and
  CHOICE, each with the encoder and the decoder that the derived implementations put together from the
  operations of \<open>per/\<close>.  One induction over the types shows that every type keeps the contract.
\<close>

datatype per_type =
    PBool
  | PNull
  | PInteger int_type constraints
  | PEnumerated "int enumerated"
  | POctets constraints
  | PBits constraints
  | POid
  | PSequenceOf constraints per_type
  | PSequence bool "(field \<times> per_type) list" "(field \<times> per_type) list"
  | PChoice bool "(field \<times> per_type) list" "(field \<times> per_type) list"

definition uper_embed ::
    "field \<Rightarrow> ('a \<Rightarrow> 'v) \<Rightarrow> ('v \<Rightarrow> 'a option) \<Rightarrow> ('a \<Rightarrow> per_encode_fn) \<Rightarrow> 'a per_decode_fn \<Rightarrow>
     ('a \<Rightarrow> bits) \<Rightarrow> ('a \<Rightarrow> bool) \<Rightarrow> 'v uper_component" where
  "uper_embed f C un enc dec bits good =
    \<lparr>u_field = f,
     u_enc = (\<lambda>v. case un v of Some x \<Rightarrow> enc x | None \<Rightarrow> (\<lambda>self. Some (Ok self))),
     u_dec = qbind dec (\<lambda>x. qret (C x)),
     u_bits = (\<lambda>v. case un v of Some x \<Rightarrow> bits x | None \<Rightarrow> []),
     u_wf = (\<lambda>v. case un v of Some x \<Rightarrow> good x | None \<Rightarrow> False)\<rparr>"

lemma uper_embed_codec:
  fixes f :: field
  assumes "uper_codec enc dec bits good' depth" "\<And>v x. un v = Some x \<Longrightarrow> v = C x" "depth \<le> depth'"
    "\<And>x. good x \<Longrightarrow> good' x"
  defines "k \<equiv> uper_embed f C un enc dec bits good"
  shows "uper_codec (u_enc k) (u_dec k) (u_bits k) (u_wf k) depth'"
proof
  fix v and e :: per_encoder
  assume "u_wf k v" and e: "uper_encoder e"
  then obtain x where "un v = Some x" "good' x" using assms(4) by (auto simp: k_def uper_embed_def split: option.splits)
  then show "u_enc k v e = Some (Ok (e\<lparr>p_output := p_output e @ u_bits k v\<rparr>))"
    using uper_codec.enc_bits [OF assms(1) _ e] by (simp add: k_def uper_embed_def)
next
  fix v and d :: per_decoder and rest
  assume "u_wf k v" and d: "uper_depth depth' (q_options d)" "q_input d = u_bits k v @ rest"
  then obtain x where x: "un v = Some x" "good' x" using assms(4) by (auto simp: k_def uper_embed_def split: option.splits)
  then show "u_dec k d = Some (Ok (v, d\<lparr>q_input := rest\<rparr>))"
    using uper_codec.dec_bits [OF assms(1) x(2), of d rest] d assms(3) assms(2) [of v x]
    by (simp add: k_def uper_embed_def qbind_def qret_def)
qed

text \<open>The values of the root components and then of the extension additions.\<close>

fun un_parts :: "nat \<Rightarrow> asn_value \<Rightarrow> (asn_value option list \<times> asn_value option list) option" where
  "un_parts n (VSequence os) = Some (take n os, drop n os)"
| "un_parts n _ = None"

lemma un_parts_Some: "un_parts n v = Some x \<Longrightarrow> v = (\<lambda>(vs, ws). VSequence (vs @ ws)) x"
  by (cases v) auto

fun per_type_codec :: "per_env \<Rightarrow> per_type \<Rightarrow> field \<Rightarrow> asn_value uper_component" where
  "per_type_codec V PBool f =
    uper_embed f VBool un_bool (per_encode_bool (f_tag f)) (per_decode_bool V) (\<lambda>b. [b]) (\<lambda>_. True)"
| "per_type_codec V PNull f =
    uper_embed f (\<lambda>_. VNull) un_null (\<lambda>_. per_encode_null) per_decode_null (\<lambda>_. []) (\<lambda>_. True)"
| "per_type_codec V (PInteger it cs) f =
    uper_embed f VInteger un_integer (per_encode_integer (pv_bits V) (prim_ops it) (f_tag f) cs)
      (per_decode_integer V (per_prim it) cs) (uper_integer_bits it cs) (uper_integer_ok it cs)"
| "per_type_codec V (PEnumerated E) f =
    uper_embed f VEnumerated un_enumerated (per_encode_enumerated (pv_bits V) E (f_tag f)) (per_decode_enumerated V E)
      (enumerated_bits E) (enumerated_ok E)"
| "per_type_codec V (POctets cs) f =
    uper_embed f VOctets un_octets (per_encode_octet_string (pv_bits V) (f_tag f) cs) (per_decode_octet_string V cs)
      (\<lambda>v. container_bits cs (length v) @ octets_bits v) (\<lambda>v. string_fits cs 8 (length v))"
| "per_type_codec V (PBits cs) f =
    uper_embed f VBits un_bits (per_encode_bit_string (pv_bits V) (f_tag f) cs) (per_decode_bit_string V cs)
      (\<lambda>v. container_bits cs (length v) @ v) (\<lambda>v. string_fits cs 1 (length v))"
| "per_type_codec V POid f =
    uper_embed f VOid un_oid (per_encode_object_identifier (pv_bits V) (f_tag f)) (per_decode_object_identifier V)
      (\<lambda>v. octets_with_length (oid_contents v)) uper_oid_ok"
| "per_type_codec V (PSequenceOf cs T) f =
    (let k = per_type_codec V T (new_required 0 SEQUENCE (Leaf SEQUENCE) []) in
     uper_embed f VSequenceOf un_sequence_of (\<lambda>vs. per_encode_sequence_of (pv_bits V) (f_tag f) (map (u_enc k) vs) cs)
       (per_decode_sequence_of V (u_dec k) cs) (element_bits (u_bits k) cs) (elements_ok (u_wf k) cs))"
| "per_type_codec V (PSequence extensible fs gs) f =
    (let ks = map (\<lambda>(g, T). per_type_codec V T g) fs; xs = map (\<lambda>(g, T). per_type_codec V T g) gs in
     uper_embed f (\<lambda>(vs, ws). VSequence (vs @ ws)) (un_parts (length fs))
       (uper_sequence_enc (pv_bits V) extensible ks xs (f_tag f)) (uper_sequence_dec V extensible ks xs)
       (uper_sequence_bits (pv_bits V) extensible ks xs) (uper_sequence_ok (pv_bits V) extensible ks xs))"
| "per_type_codec V (PChoice extensible fs gs) f =
    (let ks = map (\<lambda>(g, T). per_type_codec V T g) fs; xs = map (\<lambda>(g, T). per_type_codec V T g) gs in
     uper_embed f (\<lambda>(t, v). VChoice t v) un_choice
       (uper_choice_enc (pv_bits V) extensible ks xs) (uper_choice_dec V extensible ks xs)
       (uper_choice_bits (pv_bits V) extensible ks xs) (uper_choice_ok (pv_bits V) extensible ks xs))"

fun per_nesting :: "per_type \<Rightarrow> nat" where
  "per_nesting (PSequenceOf cs T) = Suc (per_nesting T)"
| "per_nesting (PSequence _ fs gs) = Suc (Max (insert 0 (set (map (\<lambda>(g, T). per_nesting T) fs) \<union> set (map (\<lambda>(g, T). per_nesting T) gs))))"
| "per_nesting (PChoice _ fs gs) = Suc (Max (insert 0 (set (map (\<lambda>(g, T). per_nesting T) fs) \<union> set (map (\<lambda>(g, T). per_nesting T) gs))))"
| "per_nesting _ = 0"

fun per_type_ok :: "per_type \<Rightarrow> bool" where
  "per_type_ok (PSequenceOf cs T) = per_type_ok T"
| "per_type_ok (PSequence _ fs gs) \<longleftrightarrow>
    list_all (\<lambda>(g, T). smallest_tag (tag_tree g) = f_tag g \<and> per_type_ok T) fs \<and> list_all (\<lambda>(g, T). per_type_ok T) gs"
| "per_type_ok (PChoice _ fs gs) \<longleftrightarrow> list_all (\<lambda>(g, T). per_type_ok T) fs \<and> list_all (\<lambda>(g, T). per_type_ok T) gs"
| "per_type_ok _ = True"

lemma u_field_per_type_codec [simp]: "u_field (per_type_codec V T f) = f"
  by (cases T) (simp_all add: uper_embed_def Let_def)

lemma per_nesting_parts:
  assumes "(g, T) \<in> set fs \<union> set gs"
  shows "per_nesting T \<le> per_nesting (PSequence x fs gs) - 1" "per_nesting T \<le> per_nesting (PChoice x fs gs) - 1"
  using assms by (auto intro!: Max_ge)

lemma uper_codec_weaken:
  "uper_codec enc dec bits good depth \<Longrightarrow> depth \<le> depth' \<Longrightarrow> uper_codec enc dec bits good depth'"
  unfolding uper_codec_def by (meson order_trans)

text \<open>The contract of the parts of a constructed type, at the depth that is left for them.\<close>

lemma per_parts_codec:
  assumes "\<And>g T f. (g, T) \<in> set fs \<union> set gs \<Longrightarrow> per_type_ok T \<Longrightarrow>
      uper_codec (u_enc (per_type_codec V T f)) (u_dec (per_type_codec V T f)) (u_bits (per_type_codec V T f))
        (u_wf (per_type_codec V T f)) (per_nesting T)"
    "list_all (\<lambda>(g, T). per_type_ok T) fs" "list_all (\<lambda>(g, T). per_type_ok T) gs"
    "\<And>g T. (g, T) \<in> set fs \<union> set gs \<Longrightarrow> per_nesting T \<le> n"
    "k \<in> set (map (\<lambda>(g, T). per_type_codec V T g) fs) \<union> set (map (\<lambda>(g, T). per_type_codec V T g) gs)"
  shows "uper_codec (u_enc k) (u_dec k) (u_bits k) (u_wf k) n"
proof -
  obtain g T where gT: "(g, T) \<in> set fs \<union> set gs" "k = per_type_codec V T g" using assms(5) by auto
  then have "per_type_ok T" using assms(2,3) by (auto simp: list_all_iff)
  then show ?thesis unfolding gT(2) by (rule uper_codec_weaken [OF assms(1) [OF gT(1)] assms(4) [OF gT(1)]])
qed

lemma per_type_codec_keeps_contract:
  assumes V: "per_documented V" and "per_type_ok T"
  shows "uper_codec (u_enc (per_type_codec V T f)) (u_dec (per_type_codec V T f)) (u_bits (per_type_codec V T f))
    (u_wf (per_type_codec V T f)) (per_nesting T)"
  using assms(2)
proof (induction T arbitrary: f)
  case PBool
  show ?case unfolding per_type_codec.simps
    by (rule uper_embed_codec [OF uper_bool.uper_codec_axioms]) (simp_all add: un_iff given_def V)
next
  case PNull
  show ?case unfolding per_type_codec.simps
    by (rule uper_embed_codec [OF uper_null.uper_codec_axioms]) (simp_all add: un_iff)
next
  case (PInteger it cs)
  show ?case unfolding per_type_codec.simps
    by (rule uper_embed_codec [OF uper_integer.uper_codec_axioms]) (simp_all add: un_iff given_def V)
next
  case (PEnumerated E)
  show ?case unfolding per_type_codec.simps
    by (rule uper_embed_codec [OF uper_enumerated.uper_codec_axioms]) (simp_all add: un_iff given_def V)
next
  case (POctets cs)
  show ?case unfolding per_type_codec.simps
    by (rule uper_embed_codec [OF uper_octet_string.uper_codec_axioms]) (simp_all add: un_iff given_def V)
next
  case (PBits cs)
  show ?case unfolding per_type_codec.simps
    by (rule uper_embed_codec [OF uper_bit_string.uper_codec_axioms]) (simp_all add: un_iff given_def V)
next
  case POid
  show ?case unfolding per_type_codec.simps octets_with_length_def
    by (rule uper_embed_codec [OF uper_oid.uper_codec_axioms]) (simp_all add: un_iff given_def V)
next
  case (PSequenceOf cs T)
  define k where "k = per_type_codec V T (new_required 0 SEQUENCE (Leaf SEQUENCE) [])"
  have "uper_codec (u_enc k) (u_dec k) (u_bits k) (u_wf k) (per_nesting T)"
    unfolding k_def using PSequenceOf by simp
  note codec = uper_codec.sequence_of_codec [OF this]
  show ?case unfolding per_type_codec.simps Let_def k_def [symmetric]
    by (rule uper_embed_codec [OF codec]) (simp_all add: un_iff given_def V)
next
  case (PSequence extensible fs gs)
  define ks where "ks = map (\<lambda>(g, T). per_type_codec V T g) fs"
  define xs where "xs = map (\<lambda>(g, T). per_type_codec V T g) gs"
  have "uper_components V ks xs (per_nesting (PSequence extensible fs gs) - 1)"
  proof (rule uper_components.intro [OF V])
    fix k assume "k \<in> set ks \<union> set xs"
    then show "uper_codec (u_enc k) (u_dec k) (u_bits k) (u_wf k) (per_nesting (PSequence extensible fs gs) - 1)"
      unfolding ks_def xs_def
      by (rule per_parts_codec [rotated -1])
        (use PSequence per_nesting_parts(1) in \<open>auto simp: list_all_iff\<close>)
  next
    fix k assume "k \<in> set ks"
    then show "key (u_field k) = u_tag k" using PSequence.prems by (auto simp: ks_def list_all_iff)
  qed
  note codec = uper_components.sequence_codec [OF this]
  show ?case unfolding per_type_codec.simps Let_def ks_def [symmetric] xs_def [symmetric]
    by (rule uper_embed_codec [OF codec un_parts_Some]) simp_all
next
  case (PChoice extensible fs gs)
  define ks where "ks = map (\<lambda>(g, T). per_type_codec V T g) fs"
  define xs where "xs = map (\<lambda>(g, T). per_type_codec V T g) gs"
  have "uper_choice V ks xs (per_nesting (PChoice extensible fs gs) - 1)"
  proof (rule uper_choice.intro [OF V])
    fix k assume "k \<in> set ks \<union> set xs"
    then show "uper_codec (u_enc k) (u_dec k) (u_bits k) (u_wf k) (per_nesting (PChoice extensible fs gs) - 1)"
      unfolding ks_def xs_def
      by (rule per_parts_codec [rotated -1])
        (use PChoice per_nesting_parts(2) in \<open>auto simp: list_all_iff\<close>)
  qed
  note codec = uper_choice.choice_codec [OF this]
  show ?case unfolding per_type_codec.simps Let_def ks_def [symmetric] xs_def [symmetric]
    by (rule uper_embed_codec [OF codec un_choice_iff [THEN iffD1]]) simp_all
qed

end
