(* ===== verification/Per_Termination.thy ===== *)
theory Per_Termination
  imports Per_Codec Ber_Termination
begin

text \<open>
  The decoders of PER return on every input, aligned or not: the loop over the fragments of a
  length ends because every round takes at least eight bits, and the number of bits never grows.
\<close>

text \<open>A computation that returns, and a value with at least \<open>k\<close> bits fewer than before.\<close>

definition shrinks :: "nat \<Rightarrow> bits \<Rightarrow> (bits \<times> 's) dec_result option \<Rightarrow> bool" where
  "shrinks k input r \<longleftrightarrow> (case r of None \<Rightarrow> False | Some (Inl e) \<Rightarrow> True | Some (Inr (rest, s)) \<Rightarrow> length rest + k \<le> length input)"

definition step_shrinks :: "'s step \<Rightarrow> bool" where
  "step_shrinks f \<longleftrightarrow> (\<forall>input n s. shrinks 0 input (f input n s))"

lemma shrinks_simps [simp]:
  "\<not> shrinks k i None" "shrinks k i (Some (Inl e))" "shrinks k i (Some (Inr (rest, s))) \<longleftrightarrow> length rest + k \<le> length i"
  by (simp_all add: shrinks_def)

lemma shrinks_pbind:
  assumes "shrinks k i r" "\<And>rest s. r = Some (Ok (rest, s)) \<Longrightarrow> length rest + k \<le> length i \<Longrightarrow> shrinks l i (f (rest, s))"
  shows "shrinks l i (pbind r f)"
  using assms by (auto simp: shrinks_def pbind_def split: option.splits sum.splits)

lemma shrinks_mono: "shrinks k j r \<Longrightarrow> length j + l \<le> length i + k \<Longrightarrow> shrinks l i r"
  by (auto simp: shrinks_def split: option.splits sum.splits)

lemma take_input_shrinks: "per_documented V \<Longrightarrow> shrinks n input (Some (take_input V c n input))"
proof -
  assume V: "per_documented V"
  show ?thesis
  proof (cases "n \<le> length input")
    case True
    then have "pv_take V n input = Ok (drop n input, take n input)" using V unfolding per_documented_def by blast
    then show ?thesis using True by (simp add: take_input_def)
  next
    case False
    then have "\<exists>k. pv_take V n input = Err (NomIncomplete k)" using V unfolding per_documented_def by simp
    then show ?thesis by (auto simp: take_input_def)
  qed
qed

lemma parse_padding_shrinks:
  assumes "per_documented V"
  shows "(\<exists>e. parse_padding V options input = Err e) \<or> (\<exists>i. parse_padding V options input = Ok i \<and> length i \<le> length input)"
proof -
  have "shrinks (length input mod 8) input (Some (take_input V c (length input mod 8) input))" for c
    by (rule take_input_shrinks [OF assms])
  from this [of "per_dec_current_codec options"] show ?thesis
    by (auto simp: parse_padding_def force_parse_padding_def shrinks_def split: sum.splits)
qed

lemma pbind_shrinks_take:
  assumes "per_documented V" "\<And>rest x. length rest + n \<le> length i \<Longrightarrow> shrinks l input (f (rest, x))"
  shows "shrinks l input (pbind (Some (take_input V c n i)) f)"
  using take_input_shrinks [OF assms(1), of n i c] assms(2)
  by (auto simp: shrinks_def [of n] pbind_def split: sum.splits)

lemma unknown_length_shrinks:
  assumes V: "per_documented V" and f: "step_shrinks f"
  shows "shrinks 8 input (decode_unknown_length V options f None input s) \<and>
    shrinks 0 input (decode_unknown_length V options f (Some n) input s)"
proof (induction "length input" arbitrary: input s n rule: less_induct)
  case less
  have step: "shrinks l i (f i' n s)" if "length i' + l \<le> length i" for i i' n s l
    by (rule shrinks_mono [of 0 i']) (use f that in \<open>simp_all add: step_shrinks_def\<close>)
  have none: "shrinks 8 input (decode_unknown_length V options f None input s)" for s
  proof -
    let ?c = "per_dec_current_codec options"
    have body: "shrinks 8 input
      (pbind (Some (take_input V ?c 1 i)) (\<lambda>(i, mask).
        if \<not> mask ! 0 then pbind (Some (take_input V ?c 7 i)) (\<lambda>(i, len). f i (bv_load_be (pv_bits V) len) s)
        else pbind (Some (take_input V ?c 1 i)) (\<lambda>(i, mask).
          if \<not> mask ! 0 then pbind (Some (take_input V ?c 14 i)) (\<lambda>(i, len). f i (bv_load_be (pv_bits V) len) s)
          else pbind (Some (take_input V ?c 6 i)) (\<lambda>(i, mask).
            case fragment_length (bv_load_be (pv_bits V) mask) of
              None \<Rightarrow> Some (Err (DecodeError ParserFail ?c))
            | Some len \<Rightarrow> pbind (f i len s) (\<lambda>(i, s). decode_unknown_length V options f (Some len) i s)))))"
      (is "shrinks 8 input ?body") if "length i \<le> length input" for i
    proof -
      have loop: "shrinks 8 input (pbind (f i' len s) (\<lambda>(i, s). decode_unknown_length V options f (Some len) i s))"
        if "length i' + 8 \<le> length input" for i' len
      proof (rule shrinks_pbind [OF step [OF that]], simp)
        fix rest :: bits and s assume "length rest + 8 \<le> length input"
        then show "shrinks 8 input (decode_unknown_length V options f (Some len) rest s)"
          using less [of rest] by - (rule shrinks_mono [of 0 rest], simp_all)
      qed
      show ?thesis
        using that
        by (auto intro!: pbind_shrinks_take [OF V] step loop split: option.splits)
    qed
    from parse_padding_shrinks [OF V, of options input] show ?thesis
    proof (elim disjE exE conjE)
      fix i assume "parse_padding V options input = Ok i" "length i \<le> length input"
      with body [of i] show ?thesis by (subst decode_unknown_length.simps) simp
    qed (subst decode_unknown_length.simps, simp)
  qed
  moreover have "shrinks 0 input (decode_unknown_length V options f (Some n) input s)"
  proof (subst decode_unknown_length.simps, simp, rule shrinks_pbind [OF none], simp, intro impI)
    fix rest :: bits and s assume r: "length rest + 8 \<le> length input"
    show "shrinks 0 input (pbind (f rest n s) (\<lambda>(i, s). decode_unknown_length V options f (Some n) i s))"
    proof (rule shrinks_pbind [OF step [where l = 8]], use r in simp, simp)
      fix rest' :: bits and s' assume "length rest' + 8 \<le> length input"
      then show "shrinks 0 input (decode_unknown_length V options f (Some n) rest' s')"
        using less [of rest'] by - (rule shrinks_mono [of 0 rest'], simp_all)
    qed
  qed
  ultimately show ?case by blast
qed

section \<open>Decoders that return\<close>

definition reads :: "'a per_decode_fn \<Rightarrow> bool" where
  "reads m \<longleftrightarrow> (\<forall>d. m d \<noteq> None \<and> (\<forall>x d'. m d = Some (Ok (x, d')) \<longrightarrow> length (q_input d') \<le> length (q_input d)))"

lemma readsI:
  "(\<And>d. m d \<noteq> None) \<Longrightarrow> (\<And>d x d'. m d = Some (Ok (x, d')) \<Longrightarrow> length (q_input d') \<le> length (q_input d)) \<Longrightarrow> reads m"
  by (auto simp: reads_def)

lemma reads_result:
  "reads m \<Longrightarrow> (\<exists>e. m d = Some (Err e)) \<or> (\<exists>x d'. m d = Some (Ok (x, d')) \<and> length (q_input d') \<le> length (q_input d))"
  unfolding reads_def by (metis not_None_eq old.sum.exhaust surj_pair)

lemma reads_basic [simp]: "reads (qret x)" "reads (qerr e)"
  by (simp_all add: reads_def qret_def qerr_def)

lemma reads_at:
  assumes "\<And>d. (\<exists>e. m d = Some (Err e)) \<or> (\<exists>x d'. m d = Some (Ok (x, d')) \<and> length (q_input d') \<le> length (q_input d))"
  shows "reads m"
proof (rule readsI)
  show "m d \<noteq> None" for d using assms [of d] by auto
  show "m d = Some (Ok (x, d')) \<Longrightarrow> length (q_input d') \<le> length (q_input d)" for d x d'
    using assms [of d] by auto
qed

lemma reads_qbind:
  assumes "reads m" "\<And>x. reads (f x)"
  shows "reads (qbind m f)"
proof (rule reads_at)
  fix d
  show "(\<exists>e. qbind m f d = Some (Err e)) \<or> (\<exists>x d'. qbind m f d = Some (Ok (x, d')) \<and> length (q_input d') \<le> length (q_input d))"
    using reads_result [OF assms(1), of d]
  proof (elim disjE exE conjE)
    fix x d' assume "m d = Some (Ok (x, d'))" "length (q_input d') \<le> length (q_input d)"
    then show ?thesis using reads_result [OF assms(2) [of x], of d'] by (auto simp: qbind_def intro: le_trans)
  qed (simp add: qbind_def)
qed

lemma reads_dependent: "(\<And>d. reads (m (h d))) \<Longrightarrow> reads (\<lambda>d. m (h d) d)"
  by (auto simp: reads_def)

lemma reads_if: "reads m \<Longrightarrow> reads m' \<Longrightarrow> reads (\<lambda>d. if c d then m d else m' d)"
  by (auto simp: reads_def)

lemma reads_pbind: "(\<And>d. r d \<noteq> None) \<Longrightarrow> (\<And>x. reads (f x)) \<Longrightarrow> reads (\<lambda>self. pbind (r self) (\<lambda>x. f x self))"
  by (rule readsI) (auto simp: pbind_def reads_def split: option.splits sum.splits)

lemma reads_shrinks:
  assumes "\<And>d. shrinks 0 (q_input d) (r d)"
  shows "reads (\<lambda>self. pbind (r self) (\<lambda>(input, s). qret s (self\<lparr>q_input := input\<rparr>)))"
proof (rule reads_at)
  fix d
  show "(\<exists>e. pbind (r d) (\<lambda>(input, s). qret s (d\<lparr>q_input := input\<rparr>)) = Some (Err e)) \<or>
    (\<exists>x d'. pbind (r d) (\<lambda>(input, s). qret s (d\<lparr>q_input := input\<rparr>)) = Some (Ok (x, d')) \<and> length (q_input d') \<le> length (q_input d))"
    using assms [of d] by (auto simp: shrinks_def qret_def split: option.splits sum.splits)
qed

section \<open>Lengths and strings\<close>

lemma shrinks_zero_padding:
  assumes "per_documented V" "\<And>i. length i \<le> length input \<Longrightarrow> shrinks l input' (f i)"
  shows "shrinks l input' (pbind (Some (if c then parse_padding V options input else Ok input)) f)"
  using parse_padding_shrinks [OF assms(1), of options input] assms(2) by auto

lemma step_shrinksD: "step_shrinks f \<Longrightarrow> length i' + l \<le> length i \<Longrightarrow> shrinks l i (f i' n s)"
  by (rule shrinks_mono [of 0 i']) (simp_all add: step_shrinks_def)

lemma constrained_length_shrinks:
  assumes "per_documented V" "step_shrinks f" "length input \<le> length input'"
  shows "shrinks 0 input' (decode_constrained_length V options sz rng padding f input s)"
  unfolding decode_constrained_length_def Let_def
  by (rule shrinks_zero_padding [OF assms(1)])
    (use assms(3) in \<open>auto intro!: pbind_shrinks_take [OF assms(1)] shrinks_zero_padding [OF assms(1)]
      step_shrinksD [OF assms(2)] split: option.splits\<close>)

lemma length_shrinks:
  assumes "per_documented V" "step_shrinks f"
  shows "shrinks 0 input (per_decode_length V options cs f input s)"
    "shrinks 0 input (decode_string_length V options cs large f input s)"
proof -
  have u: "shrinks 0 input (decode_unknown_length V options f None input s)"
    by (rule shrinks_mono [of 8 input]) (simp_all add: unknown_length_shrinks [OF assms])
  have c: "shrinks 0 input (decode_constrained_length V options sz rng padding f input s)" for sz rng padding
    by (rule constrained_length_shrinks [OF assms order_refl])
  show "shrinks 0 input (per_decode_length V options cs f input s)"
    using u c step_shrinksD [OF assms(2), of input 0 input]
    by (auto simp: per_decode_length_def split: option.splits)
  have "shrinks 0 input (pbind (Some (if True then parse_padding V options input else Ok input)) (\<lambda>i. f i n s))" for n
    by (rule shrinks_zero_padding [OF assms(1)]) (simp add: step_shrinksD [OF assms(2)])
  then show "shrinks 0 input (decode_string_length V options cs large f input s)"
    using u c by (auto simp: decode_string_length_def split: option.splits)
qed

lemma steps_shrink:
  assumes "per_documented V"
  shows "step_shrinks (take_step V c w)" "step_shrinks (octets_step V c)" "step_shrinks (chars_step V c w single)"
    "step_shrinks (\<lambda>input len length_out. Some (Ok (input, len)))"
  unfolding step_shrinks_def take_step_def octets_step_def chars_step_def Let_def
  by (auto intro!: pbind_shrinks_take [OF assms])

lemma reads_take:
  assumes "per_documented V"
  shows "reads (\<lambda>self. pbind (Some (take_input V (q_codec self) (h self) (q_input self))) (\<lambda>(input, x).
    qret (g x) (self\<lparr>q_input := input\<rparr>)))"
proof (rule reads_at)
  fix d :: per_decoder
  show "(\<exists>e. pbind (Some (take_input V (q_codec d) (h d) (q_input d))) (\<lambda>(input, x). qret (g x) (d\<lparr>q_input := input\<rparr>)) = Some (Err e)) \<or>
    (\<exists>x d'. pbind (Some (take_input V (q_codec d) (h d) (q_input d))) (\<lambda>(input, x). qret (g x) (d\<lparr>q_input := input\<rparr>)) = Some (Ok (x, d')) \<and>
      length (q_input d') \<le> length (q_input d))"
    using take_input_shrinks [OF assms, of "h d" "q_input d" "q_codec d"]
    by (auto simp: shrinks_def qret_def split: sum.splits)
qed

lemma reads_bits:
  assumes "per_documented V"
  shows "reads (parse_one_bit V)" "reads (parse_extensible_bit V cs)"
    "reads (parse_optional_and_default_field_bitmap V FIELDS)"
proof -
  show b: "reads (parse_one_bit V)"
    unfolding parse_one_bit_def [abs_def] by (rule reads_take [OF assms])
  then show "reads (parse_extensible_bit V cs)" by (simp add: parse_extensible_bit_def)
  show "reads (parse_optional_and_default_field_bitmap V FIELDS)"
    unfolding parse_optional_and_default_field_bitmap_def [abs_def] by (rule reads_take [OF assms])
qed

lemma reads_skip_padding: "per_documented V \<Longrightarrow> reads (skip_padding V)"
proof (rule reads_at)
  fix d :: per_decoder
  assume "per_documented V"
  from parse_padding_shrinks [OF this, of "q_options d" "q_input d"]
  show "(\<exists>e. skip_padding V d = Some (Err e)) \<or> (\<exists>x d'. skip_padding V d = Some (Ok (x, d')) \<and> length (q_input d') \<le> length (q_input d))"
    by (elim disjE exE conjE) (simp_all add: skip_padding_def qret_def)
qed

lemma reads_containers:
  assumes "per_documented V" "\<And>c. step_shrinks (f c)"
  shows "reads (\<lambda>self. decode_extensible_container V cs (f (h self)) s self)"
    "reads (\<lambda>self. decode_extensible_string V cs large (f (h self)) s self)"
proof -
  have "reads (decode_extensible_container V cs (f c) s)" for c
    unfolding decode_extensible_container_def
    by (intro reads_qbind reads_bits(2) reads_shrinks length_shrinks assms)
  then show "reads (\<lambda>self. decode_extensible_container V cs (f (h self)) s self)"
    by (auto simp: reads_def)
  have "reads (decode_extensible_string V cs large (f c) s)" for c
    unfolding decode_extensible_string_def
    by (intro reads_qbind reads_bits(2) reads_shrinks length_shrinks assms)
  then show "reads (\<lambda>self. decode_extensible_string V cs large (f (h self)) s self)"
    by (auto simp: reads_def)
qed

lemma reads_octets:
  assumes "per_documented V"
  shows "reads (decode_octets V)"
  unfolding decode_octets_def [abs_def]
  by (intro reads_shrinks length_shrinks steps_shrink assms)

lemma reads_strings:
  assumes "per_documented V"
  shows "reads (per_decode_octet_string V cs)" "reads (per_decode_bit_string V cs)" "reads (per_decode_any V)"
proof -
  show "reads (per_decode_octet_string V cs)" "reads (per_decode_bit_string V cs)"
    unfolding per_decode_octet_string_def [abs_def] per_decode_bit_string_def [abs_def]
    by (rule reads_containers [OF assms], rule steps_shrink [OF assms])+
  have "reads (\<lambda>self. decode_extensible_container V constraints_NONE (take_step V (q_codec self) 8) [] self)"
    by (rule reads_containers [OF assms], rule steps_shrink [OF assms])
  then have "reads (qbind (\<lambda>self. decode_extensible_container V constraints_NONE (take_step V (q_codec self) 8) [] self)
      (\<lambda>octet_string. qret (bv_raw (pv_bits V) octet_string)))"
    by (rule reads_qbind) simp
  then show "reads (per_decode_any V)"
    by (simp add: per_decode_any_def [abs_def] qbind_def [abs_def])
qed


section \<open>Numbers\<close>

lemma reads_number:
  assumes "per_documented V"
  shows "reads (parse_non_negative_binary_integer V from_bytes rng)"
proof (rule reads_at)
  fix d :: per_decoder
  show "(\<exists>e. parse_non_negative_binary_integer V from_bytes rng d = Some (Err e)) \<or>
    (\<exists>x d'. parse_non_negative_binary_integer V from_bytes rng d = Some (Ok (x, d')) \<and> length (q_input d') \<le> length (q_input d))"
  proof (cases "take_input V (q_codec d) (log2 rng) (q_input d)")
    case (Inr r)
    then obtain rest data where r: "take_input V (q_codec d) (log2 rng) (q_input d) = Ok (rest, data)" by (cases r) auto
    then have l: "length rest \<le> length (q_input d)"
      using take_input_shrinks [OF assms, of "log2 rng" "q_input d" "q_codec d"] by simp
    define padded where "padded = (if length data < 8 then replicate (8 - length data) False @ data
      else let remainder = length data mod 8 in if remainder \<noteq> 0 then replicate (8 - remainder) False @ data else data)"
    show ?thesis
      using r l by (cases "from_bytes (bv_raw (pv_bits V) padded) (q_codec d)")
        (simp_all add: parse_non_negative_binary_integer_def padded_def [symmetric] qret_def del: Let_def)
  qed (simp add: parse_non_negative_binary_integer_def)
qed

lemma reads_constrained_number:
  assumes "per_documented V"
  shows "reads (parse_constrained_number V from_bytes rng)"
proof -
  have wide: "reads (\<lambda>self. pbind (Some (octet_count_bits k (q_codec self)))
      (\<lambda>n. parse_non_negative_binary_integer V from_bytes (range_from_len n) self))" for k
    by (rule reads_pbind) (simp_all add: reads_number [OF assms])
  show ?thesis
    unfolding parse_constrained_number_def [abs_def] Let_def
    by (intro reads_if reads_qbind reads_skip_padding reads_number wide assms)
qed

lemma reads_result_pbind: "(\<And>x. reads (f x)) \<Longrightarrow> reads (\<lambda>self. pbind (Some (r self)) (\<lambda>x. f x self))"
  by (rule reads_pbind) simp_all

lemma reads_when: "(\<not> b \<Longrightarrow> reads m) \<Longrightarrow> (b \<Longrightarrow> reads m') \<Longrightarrow> reads (if b then m' else m)"
  by simp

lemma reads_option:
  assumes "r = None \<Longrightarrow> reads m" "\<And>v. reads (f v)"
  shows "reads (\<lambda>self. case r of None \<Rightarrow> m self | Some v \<Rightarrow> f v self)"
proof (cases r)
  case None
  then show ?thesis using assms(1) by simp
next
  case (Some v)
  then show ?thesis using assms(2) [of v] by simp
qed

lemma reads_parse_integer:
  assumes "per_documented V"
  shows "reads (parse_integer V I cs)"
proof -
  define body where "body vc overflow = (case pi_from_i128 I (minimum (vc_value (constraint vc))) of
      None \<Rightarrow> qerr overflow
    | Some lower \<Rightarrow>
        (case bounded_range I128 (vc_value (constraint vc)) of
           Some rng \<Rightarrow>
             if rng = 0 then qret lower
             else qbind (parse_constrained_number V (pi_unsigned_from_bytes I) rng) (\<lambda>number.
               qret (pi_wrapping_unsigned_add I lower number))
         | None \<Rightarrow>
             qbind (decode_octets V) (\<lambda>bytes self.
               pbind (Some (if as_start (vc_value (constraint vc)) = None
                   then i_try_from_signed_bytes (pi_ops I) (bv_raw (pv_bits V) bytes) (q_codec self)
                   else i_try_from_unsigned_bytes (pi_ops I) (bv_raw (pv_bits V) bytes) (q_codec self))) (\<lambda>number.
                 case pi_checked_add I lower number of
                   None \<Rightarrow> qerr overflow self
                 | Some v \<Rightarrow> qret v self))))" for vc :: "value_constraint extensible" and overflow
  have "reads (body vc overflow)" for vc overflow
    unfolding body_def
    by (auto intro!: reads_qbind reads_octets [OF assms] reads_constrained_number [OF assms] reads_result_pbind
        reads_option split: option.splits)
  then have "reads (\<lambda>self. body vc (DecodeError (IntegerOverflow (pi_WIDTH I)) (q_codec self)) self)" for vc
    by (rule reads_dependent)
  moreover have "reads (qbind (decode_octets V) (\<lambda>bytes self.
      pbind (Some (pi_try_from_bytes I (bv_raw (pv_bits V) bytes) (q_codec self))) (\<lambda>v. qret v self)))"
    by (intro reads_qbind reads_octets assms reads_result_pbind reads_basic)
  ultimately have "reads (\<lambda>self. case (if x then None else c_value cs) of
      None \<Rightarrow> qbind (decode_octets V) (\<lambda>bytes self.
        pbind (Some (pi_try_from_bytes I (bv_raw (pv_bits V) bytes) (q_codec self))) (\<lambda>v. qret v self)) self
    | Some vc \<Rightarrow> body vc (DecodeError (IntegerOverflow (pi_WIDTH I)) (q_codec self)) self)" for x
    by (intro reads_option)
  then have "reads (qbind (parse_extensible_bit V cs) (\<lambda>x self. case (if x then None else c_value cs) of
      None \<Rightarrow> qbind (decode_octets V) (\<lambda>bytes self.
        pbind (Some (pi_try_from_bytes I (bv_raw (pv_bits V) bytes) (q_codec self))) (\<lambda>v. qret v self)) self
    | Some vc \<Rightarrow> body vc (DecodeError (IntegerOverflow (pi_WIDTH I)) (q_codec self)) self))"
    by (intro reads_qbind reads_bits assms)
  also have "qbind (parse_extensible_bit V cs) (\<lambda>x self. case (if x then None else c_value cs) of
      None \<Rightarrow> qbind (decode_octets V) (\<lambda>bytes self.
        pbind (Some (pi_try_from_bytes I (bv_raw (pv_bits V) bytes) (q_codec self))) (\<lambda>v. qret v self)) self
    | Some vc \<Rightarrow> body vc (DecodeError (IntegerOverflow (pi_WIDTH I)) (q_codec self)) self) = parse_integer V I cs"
    unfolding parse_integer_def
    by (rule arg_cong [where f = "qbind (parse_extensible_bit V cs)"]) (auto simp: body_def Let_def fun_eq_iff split: option.splits)
  finally show ?thesis .
qed

lemma reads_small_integer:
  assumes "per_documented V"
  shows "reads (parse_normally_small_integer V I)"
  unfolding parse_normally_small_integer_def by (intro reads_qbind reads_bits reads_parse_integer assms)

lemma reads_enumerated:
  assumes "per_documented V"
  shows "reads (per_decode_enumerated V E)"
proof -
  have "reads (\<lambda>self. case r of None \<Rightarrow> qerr (DecodeError (e (q_codec self)) (q_codec self)) self | Some v \<Rightarrow> qret v self)"
    for r :: "'a option" and e
    by (intro reads_option reads_dependent [where m = "\<lambda>c. qerr (DecodeError (e c) c)" and h = q_codec] reads_basic)
  then show ?thesis
    unfolding per_decode_enumerated_def
    by (intro reads_qbind reads_when reads_bits reads_small_integer reads_number reads_basic assms)
qed

lemma reads_oid:
  assumes "per_documented V"
  shows "reads (per_decode_object_identifier V)"
proof -
  have "nom_documented (pv_nom V)" using assms by (simp add: per_documented_def)
  then show ?thesis
    unfolding per_decode_object_identifier_def
    by (intro reads_qbind reads_octets assms reads_pbind oid_from_bytes_returns reads_basic)
qed

lemma elements_step_shrinks:
  assumes "reads dec"
  shows "step_shrinks (elements_step dec options)"
proof -
  have "shrinks 0 input (elements_step dec options input n vs)" for input n vs
  proof (induction n arbitrary: input vs)
    case (Suc n)
    show ?case
      using reads_result [OF assms, of "per_decoder_new input options"]
    proof (elim disjE exE conjE)
      fix x d' assume "dec (per_decoder_new input options) = Some (Ok (x, d'))"
        "length (q_input d') \<le> length (q_input (per_decoder_new input options))"
      then show ?thesis using shrinks_mono [OF Suc.IH [of "q_input d'" "vs @ [x]"], of 0 input]
        by (simp add: per_decoder_new_def)
    qed simp
  qed simp
  then show ?thesis by (simp add: step_shrinks_def)
qed

lemma reads_sequence_of:
  assumes "per_documented V" "reads dec"
  shows "reads (per_decode_sequence_of V dec cs)"
proof -
  have "reads per_check_recursion_depth"
    by (rule reads_at) (simp add: per_check_recursion_depth_def qerr_def qret_def)
  moreover have "reads (\<lambda>self. decode_extensible_container V cs (elements_step dec (deeper (q_options self))) [] self)"
    by (rule reads_containers [OF assms(1)], rule elements_step_shrinks [OF assms(2)])
  ultimately show ?thesis unfolding per_decode_sequence_of_def by (intro reads_qbind)
qed

end
