(* ===== verification/Per_Messages.thy ===== *)
theory Per_Messages
  imports Per_Schema Per_Termination Oer_Messages
begin

text \<open>
  Whole messages under UPER: the constructed types interpreted on the codecs of the model, a
  round trip for every type, termination of the length decoder, and inputs on which encoder and
  decoder disagree.
\<close>

section \<open>Constructed types on the codecs of the model\<close>

definition ref_per_env :: per_env where
  "ref_per_env =
    \<lparr>pv_bits = ref_bitvec,
     pv_take = (\<lambda>n input. if n \<le> length input then Ok (drop n input, take n input) else Err (NomIncomplete Unknown)),
     pv_nom = ref_nom\<rparr>"

lemma ref_per_env_documented: "per_documented ref_per_env"
  by (auto simp: per_documented_def ref_per_env_def ref_bitvec_documented ref_nom_documented)

text \<open>An extensible CHOICE and an extensible SEQUENCE of a required INTEGER (0..1000), an optional
  OCTET STRING, a SEQUENCE OF BOOLEAN and the CHOICE, with two extension additions.\<close>

definition reply_variants :: "(field \<times> per_type) list" where
  "reply_variants = [(required_field 0 (new_context 0), PBits constraints_NONE),
     (required_field 1 (new_context 1), PInteger U16 (ranged 0 1000))]"

definition reply_additions :: "(field \<times> per_type) list" where
  "reply_additions = [(required_field 0 (new_context 2), POctets constraints_NONE)]"

definition notice_components :: "(field \<times> per_type) list" where
  "notice_components = [(required_field 0 INTEGER, PInteger U16 (ranged 0 1000)),
     (optional_field 1 OCTET_STRING, POctets constraints_NONE),
     (required_field 2 SEQUENCE, PSequenceOf constraints_NONE PBool),
     (required_field 3 (new_context 0), PChoice True reply_variants reply_additions)]"

definition notice_additions :: "(field \<times> per_type) list" where
  "notice_additions = [(optional_field 0 (new_context 4), PBool), (optional_field 1 (new_context 5), POctets constraints_NONE)]"

definition per_codecs_of :: "(field \<times> per_type) list \<Rightarrow> asn_value uper_component list" where
  "per_codecs_of fs = map (\<lambda>(g, T). per_type_codec ref_per_env T g) fs"

interpretation reply: uper_choice ref_per_env "per_codecs_of reply_variants" "per_codecs_of reply_additions" 0 True
proof (rule uper_choice.intro [OF ref_per_env_documented])
  fix k assume "k \<in> set (per_codecs_of reply_variants) \<union> set (per_codecs_of reply_additions)"
  then obtain g T where gT: "(g, T) \<in> set reply_variants \<union> set reply_additions" "k = per_type_codec ref_per_env T g"
    by (auto simp: per_codecs_of_def)
  then have "per_type_ok T" "per_nesting T \<le> 0" by (auto simp: reply_variants_def reply_additions_def)
  then show "uper_codec (u_enc k) (u_dec k) (u_bits k) (u_wf k) 0"
    unfolding gT(2) by (intro uper_codec_weaken [OF per_type_codec_keeps_contract [OF ref_per_env_documented]])
qed

interpretation notice: uper_components ref_per_env "per_codecs_of notice_components" "per_codecs_of notice_additions" 1
  True SEQUENCE
proof (rule uper_components.intro [OF ref_per_env_documented])
  fix k assume "k \<in> set (per_codecs_of notice_components) \<union> set (per_codecs_of notice_additions)"
  then obtain g T where gT: "(g, T) \<in> set notice_components \<union> set notice_additions" "k = per_type_codec ref_per_env T g"
    by (auto simp: per_codecs_of_def)
  then have "per_type_ok T" "per_nesting T \<le> 1"
    by (auto simp: notice_components_def notice_additions_def reply_variants_def reply_additions_def)
  then show "uper_codec (u_enc k) (u_dec k) (u_bits k) (u_wf k) 1"
    unfolding gT(2) by (intro uper_codec_weaken [OF per_type_codec_keeps_contract [OF ref_per_env_documented]])
next
  fix k assume "k \<in> set (per_codecs_of notice_components)"
  then obtain g T where gT: "(g, T) \<in> set notice_components" "k = per_type_codec ref_per_env T g"
    by (auto simp: per_codecs_of_def)
  have "smallest_tag (tag_tree g) = f_tag g" using gT(1) unfolding notice_components_def by (auto; code_simp)
  then show "key (u_field k) = u_tag k" by (simp add: gT(2))
qed

section \<open>Messages\<close>

context uper_codec
begin

lemma message_bits:
  assumes "good v"
  shows "uper_encode B (enc v) = Some (Ok (variant_octets B (bits v)))"
proof -
  have e: "uper_encoder (per_encoder_new 0 0 per_enc_unaligned)" "p_output (per_encoder_new 0 0 per_enc_unaligned) = []"
    by (simp_all add: per_encoder_new_def per_enc_unaligned_def)
  then show ?thesis using enc_bits [OF assms e(1)]
    by (simp add: uper_encode_def per_encode_def per_output_def bitstring_output_def variant_octets_def open_octets_def Let_def)
qed

lemma message_roundtrip:
  assumes "good v" "per_documented V" "depth \<le> 128"
  shows "uper_decode V dec (variant_octets (pv_bits V) (bits v)) = Some (Ok v)"
proof -
  let ?bytes = "variant_octets (pv_bits V) (bits v)"
  have B: "bits_documented (pv_bits V)" using assms(2) by (rule documented_bits)
  obtain pad where "octets_bits ?bytes = bits v @ pad" using variant_octets_bits [OF B] by blast
  then have input: "bv_from_slice (pv_bits V) ?bytes = bits v @ pad"
    by (simp add: bits_documentedD(1) [OF B] octets_bits_def)
  have "uper_depth depth (q_options (per_decoder_new (bits v @ pad) per_dec_unaligned))"
    using assms(3) by (simp add: per_decoder_new_def per_dec_unaligned_def usize_MAX_def)
  from dec_bits [OF assms(1) this, of pad] show ?thesis
    unfolding uper_decode_def per_decode_def input by (simp add: per_decoder_new_def)
qed

end


definition notice_value :: asn_value where
  "notice_value = VSequence [Some (VInteger 513), None, Some (VSequenceOf [VBool True, VBool False]),
     Some (VChoice (new_context 2) (VOctets [7])), None, Some (VOctets [1, 2])]"

lemma notice_integer: "uper_integer_ok U16 (ranged 0 1000) 513"
  by code_simp

lemma short_open_octets:
  assumes "bits_documented B" "length b \<le> 800"
  shows "length (open_octets B b) < SIXTEEN_K" "length (variant_octets B b) < SIXTEEN_K"
proof -
  have "length (force_pad_to_alignment b) \<le> 808" using assms(2) by (auto simp: force_pad_to_alignment_def le_diff_conv)
  then show "length (open_octets B b) < SIXTEEN_K"
    using bits_documentedD(5) [OF assms(1)] by (simp add: open_octets_def SIXTEEN_K_def)
  then show "length (variant_octets B b) < SIXTEEN_K" by (simp add: variant_octets_def SIXTEEN_K_def)
qed

lemma notice_value_wf:
  "u_wf (per_type_codec ref_per_env (PSequence True notice_components notice_additions) (required_field 0 SEQUENCE)) notice_value"
proof -
  have ref: "bits_documented (pv_bits ref_per_env)" by (rule documented_bits [OF ref_per_env_documented])
  have "Suc (Suc 0) < SIXTEEN_K" "Suc 0 < SIXTEEN_K" by (simp_all add: SIXTEEN_K_def)
  moreover have "c_size constraints_NONE = None" "effective_size constraints_NONE n = None" for n
    by (simp_all add: effective_size_def constraints_NONE_def)
  moreover have "Suc (Suc 0) \<le> usize_MAX" "Suc 0 \<le> usize_MAX" by (simp_all add: usize_MAX_def)
  moreover have "length (length_bits n @ octets_bits [a]) \<le> 800" "length (length_bits n @ octets_bits [a, b]) \<le> 800" for n a b
    by (simp_all add: length_bits_def)
  ultimately show ?thesis
  by (simp add: notice_components_def notice_additions_def reply_variants_def reply_additions_def notice_value_def
      uper_embed_def Let_def uper_sequence_ok_def root_ok_def addition_ok_def required_field_def optional_field_def
      new_required_def new_optional_def new_field_def is_optional_or_default_def notice_integer size_ok_def
      elements_ok_def uper_choice_ok_def u_variant_def new_context_def string_fits_NONE container_bits_NONE
      short_open_octets [OF ref])
qed


lemma schema_roundtrip:
  assumes "per_documented V" "per_type_ok T" "per_nesting T \<le> 128" "u_wf (per_type_codec V T f) v"
  shows "uper_encode (pv_bits V) (u_enc (per_type_codec V T f) v) =
      Some (Ok (variant_octets (pv_bits V) (u_bits (per_type_codec V T f) v)))"
    "uper_decode V (u_dec (per_type_codec V T f)) (variant_octets (pv_bits V) (u_bits (per_type_codec V T f) v)) =
      Some (Ok v)"
  using uper_codec.message_bits [OF per_type_codec_keeps_contract [OF assms(1,2)] assms(4)]
    uper_codec.message_roundtrip [OF per_type_codec_keeps_contract [OF assms(1,2)] assms(4,1,3)]
  by simp_all

text \<open>C2: every well-formed value of every type of the model that nests at most 128 constructed types survives
  UPER.  The encoder writes the bits of the value as the specification \<open>u_bits\<close> gives them, padded to octets
  and never empty, and the decoder returns the value.  Well formed (\<open>u_wf\<close>) are the values that satisfy their
  constraints and stay out of the fragments: strings, object identifiers and lists whose length is not given by
  their constraint have fewer than 16384 elements (lists also keep the root of an extensible size), the open types of
  extension additions and of extension variants have fewer than 16384 octets, and a SEQUENCE has fewer than 64
  additions.  For the values with fragments the statement is false, see C16.\<close>

theorem uper_schema_roundtrip:
  assumes "per_documented V" "per_type_ok T" "per_nesting T \<le> 128" "u_wf (per_type_codec V T f) v"
  shows "uper_encode (pv_bits V) (u_enc (per_type_codec V T f) v) =
      Some (Ok (variant_octets (pv_bits V) (u_bits (per_type_codec V T f) v))) \<and>
    uper_decode V (u_dec (per_type_codec V T f)) (variant_octets (pv_bits V) (u_bits (per_type_codec V T f) v)) =
      Some (Ok v)"
  using schema_roundtrip [OF assms] by blast

theorem uper_schema_roundtrip_witness:
  "uper_encode (pv_bits ref_per_env) (u_enc (per_type_codec ref_per_env
      (PSequence True notice_components notice_additions) (required_field 0 SEQUENCE)) notice_value) =
      Some (Ok (variant_octets (pv_bits ref_per_env) (u_bits (per_type_codec ref_per_env
      (PSequence True notice_components notice_additions) (required_field 0 SEQUENCE)) notice_value))) \<and>
    uper_decode ref_per_env (u_dec (per_type_codec ref_per_env
      (PSequence True notice_components notice_additions) (required_field 0 SEQUENCE)))
      (variant_octets (pv_bits ref_per_env) (u_bits (per_type_codec ref_per_env
      (PSequence True notice_components notice_additions) (required_field 0 SEQUENCE)) notice_value)) =
      Some (Ok notice_value)"
proof (rule uper_schema_roundtrip [OF ref_per_env_documented _ _ notice_value_wf])
  show "per_type_ok (PSequence True notice_components notice_additions)" by code_simp
  show "per_nesting (PSequence True notice_components notice_additions) \<le> 128" by code_simp
qed

section \<open>Fragments\<close>

lemma octets_step_append:
  assumes "per_documented V" "length w * 8 \<le> usize_MAX"
  shows "octets_step V c (octets_bits w @ rest) (length w) s = Some (Ok (rest, s @ w))"
  using take_input_append [OF assms(1), of "octets_bits w" "length w * 8" c rest] assms(2)
  by (simp add: octets_step_def usize_mul_exact raw_octets_bits [OF documented_bits [OF assms(1)]])

definition fragment_header :: bits where
  "fragment_header = [True, True, False, False, False, False, False, True]"

lemma encode_two_fragments:
  assumes B: "bits_documented B" and e: "\<not> pe_aligned (p_options e)" and n: "16384 < length v" "length v < 32768"
  shows "encode_octet_string_into_buffer B e constraints_NONE v buffer =
    Some (Ok (buffer @ fragment_header @ octets_bits (take 16384 v) @
      length_bits (length v - 16384) @ octets_bits (take (length v - 16384) v)))"
proof -
  let ?m = "length v - 16384" and ?f = "octets_range B v"
  have f: "fragment_of (length v) = (1, 16384)" "\<not> length v < SIXTEEN_K" "length v \<noteq> SIXTEEN_K" "?m < SIXTEEN_K"
    using n by (simp_all add: fragment_of_def SIXTEEN_K_def THIRTY_TWO_K_def FOURTY_EIGHT_K_def SIXTY_FOUR_K_def)
  have part: "?f 0 k = Some (Ok (octets_bits (take k v)))" if "k \<le> length v" for k
    using that by (simp add: octets_range_def slice_def octets_bits_def bits_documentedD(1) [OF B])
  have marker: "bv_from_slice B [0xC1] = fragment_header"
    by (simp add: bits_documentedD(1) [OF B] fragment_header_def msb_bits_def)
  have "fragment_loop B e b ?m 16384 ?f = Some (Ok (b @ length_bits ?m @ octets_bits (take ?m v)))" for b
    using encode_short_length_bits [OF B e f(4)] part [of ?m] by (subst fragment_loop.simps) (simp add: f(4))
  then have "fragment_loop B e buffer (length v) 0 ?f =
      Some (Ok (buffer @ fragment_header @ octets_bits (take 16384 v) @ length_bits ?m @ octets_bits (take ?m v)))"
    using n part [of 16384] by (subst fragment_loop.simps) (simp add: f(1-3) marker)
  then show ?thesis using e f(2)
    by (simp add: encode_octet_string_into_buffer_def encode_extensible_bit_def constraints_NONE_def constraints_extensible_def
        per_encode_length_def encode_string_length_def encode_unconstrained_length_def)
qed

lemma decode_two_fragments:
  assumes V: "per_documented V" and d: "\<not> pd_aligned (q_options d)" and n: "16384 < length v" "length v < 32768"
    and i: "q_input d = fragment_header @ octets_bits (take 16384 v) @ length_bits (length v - 16384) @
      octets_bits (take (length v - 16384) v)"
  shows "\<exists>d'. per_decode_octet_string V constraints_NONE d = Some (Ok (take 16384 v @ take (length v - 16384) v, d'))"
proof -
  let ?m = "length v - 16384" and ?step = "octets_step V (q_codec d)"
  let ?tail = "length_bits ?m @ octets_bits (take ?m v)"
  have m: "?m < SIXTEEN_K" "length (take ?m v) = ?m" "length (take 16384 v) = 16384" using n by (simp_all add: SIXTEEN_K_def)
  have s1: "?step (octets_bits (take 16384 v) @ ?tail) SIXTEEN_K [] = Some (Ok (?tail, take 16384 v))"
    using octets_step_append [OF V, of "take 16384 v" "q_codec d" ?tail "[]"] m(3) by (simp add: usize_MAX_def SIXTEEN_K_def)
  have s2: "?step (octets_bits (take ?m v)) ?m s = Some (Ok ([], s @ take ?m v))" for s
    using octets_step_append [OF V, of "take ?m v" "q_codec d" "[]" s] m n by (simp add: usize_MAX_def)
  have "decode_unknown_length V (q_options d) ?step None ?tail s = Some (Ok ([], s @ take ?m v))" for s
    by (simp add: decode_unknown_length_bits [OF V d m(1)] s2)
  then have loop: "decode_unknown_length V (q_options d) ?step (Some SIXTEEN_K) ?tail s = Some (Ok (?tail, s @ take ?m v))" for s
    by (subst decode_unknown_length.simps) simp
  have bit: "take_input V c (Suc 0) (b # xs) = Ok (xs, [b])" for c b xs
    using take_input_append [OF V, of "[b]" 1 c xs] by simp
  have six: "take_input V c 6 ([False, False, False, False, False, True] @ xs) = Ok (xs, [False, False, False, False, False, True])" for c xs
    by (rule take_input_append [OF V]) simp
  have load: "bv_load_be (pv_bits V) [False, False, False, False, False, True] = 1"
    using bits_documentedD(4) [OF documented_bits [OF V], of "[False, False, False, False, False, True]"]
    by (simp add: bits_val_def)
  have "decode_unknown_length V (q_options d) ?step None (q_input d) [] = Some (Ok (?tail, take 16384 v @ take ?m v))"
    by (subst decode_unknown_length.simps)
      (use d six in \<open>simp add: i fragment_header_def bit load fragment_length_def s1 loop\<close>)
  then show ?thesis
    by (simp add: per_decode_octet_string_def decode_extensible_container_def parse_extensible_bit_def constraints_NONE_def
        constraints_extensible_def uper_steps per_decode_length_def)
qed

text \<open>C16: between 16384 and 32768 octets, the last fragment of an OCTET STRING repeats the octets from
  the start of the value instead of the octets after the first fragment, and UPER decodes to that
  other value of the same length without an error.\<close>

theorem uper_last_fragment_repeats:
  assumes "per_documented V" "16384 < length v" "length v < 32768"
  shows "\<exists>bytes. uper_encode (pv_bits V) (per_encode_octet_string (pv_bits V) t constraints_NONE v) = Some (Ok bytes) \<and>
    uper_decode V (per_decode_octet_string V constraints_NONE) bytes =
      Some (Ok (take 16384 v @ take (length v - 16384) v))"
proof -
  have B: "bits_documented (pv_bits V)" using assms(1) by (rule documented_bits)
  let ?m = "length v - 16384"
  define b where "b = fragment_header @ octets_bits (take 16384 v) @ length_bits ?m @ octets_bits (take ?m v)"
  let ?bytes = "open_octets (pv_bits V) b"
  have "length b mod 8 = 0"
    using assms(2,3) by (simp add: b_def fragment_header_def length_bits_def)
  then have pad: "force_pad_to_alignment b = b" by (simp add: force_pad_to_alignment_def)
  have input: "bv_from_slice (pv_bits V) ?bytes = b"
    using open_octets_bits [OF B, of b] pad by (simp add: octets_bits_def bits_documentedD(1) [OF B])
  then have "?bytes \<noteq> []" using bits_documentedD(2) [OF B, of ?bytes] by (auto simp: b_def fragment_header_def)
  then have "uper_encode (pv_bits V) (per_encode_octet_string (pv_bits V) t constraints_NONE v) = Some (Ok ?bytes)"
    using encode_two_fragments [OF B _ assms(2,3), of "per_encoder_new 0 0 per_enc_unaligned" "[]"]
    by (simp add: uper_encode_def per_encode_def per_encode_octet_string_def per_encoder_new_def per_enc_unaligned_def
        per_extend_def per_output_def bitstring_output_def open_octets_def b_def)
  moreover have "\<exists>d'. per_decode_octet_string V constraints_NONE (per_decoder_new b per_dec_unaligned) =
      Some (Ok (take 16384 v @ take ?m v, d'))"
    by (rule decode_two_fragments [OF assms(1) _ assms(2,3)]) (simp_all add: per_decoder_new_def per_dec_unaligned_def b_def)
  ultimately show ?thesis
    by (auto simp: uper_decode_def per_decode_def input)
qed

theorem uper_last_fragment_repeats_witness:
  "\<exists>bytes. uper_encode (pv_bits ref_per_env)
      (per_encode_octet_string (pv_bits ref_per_env) OCTET_STRING constraints_NONE (replicate 16384 (0 :: u8) @ [1])) = Some (Ok bytes) \<and>
    uper_decode ref_per_env (per_decode_octet_string ref_per_env constraints_NONE) bytes =
      Some (Ok (take 16384 (replicate 16384 (0 :: u8) @ [1]) @ take (length (replicate 16384 (0 :: u8) @ [1]) - 16384) (replicate 16384 (0 :: u8) @ [1])))"
  by (rule uper_last_fragment_repeats [OF ref_per_env_documented]) simp_all


section \<open>Inputs of every kind\<close>

text \<open>An input that announces one fragment after the other.\<close>

definition endless_fragments :: per_decoder where
  "endless_fragments = per_decoder_new (concat (replicate 40 fragment_header)) per_dec_aligned"

text \<open>C15: the decoders of BOOLEAN, INTEGER, ENUMERATED, the strings of bits and octets, open types, OBJECT
  IDENTIFIER and SEQUENCE OF return a value or an error on every input, aligned or not: no loop over
  fragments runs forever and nothing panics.\<close>

theorem per_decoders_return:
  assumes "per_documented V"
  shows "per_decode_bool V d \<noteq> None \<and> per_decode_integer V I cs d \<noteq> None \<and> per_decode_enumerated V E d \<noteq> None \<and>
    per_decode_octet_string V cs d \<noteq> None \<and> per_decode_bit_string V cs d \<noteq> None \<and> per_decode_any V d \<noteq> None \<and>
    per_decode_object_identifier V d \<noteq> None \<and>
    per_decode_sequence_of V (per_decode_sequence_of V (per_decode_octet_string V cs') cs'') cs d \<noteq> None"
proof -
  have "reads (per_decode_bool V)" "reads (per_decode_integer V I cs)"
    using reads_bits(1) [OF assms] reads_parse_integer [OF assms, of I cs]
    by (simp_all add: per_decode_bool_def per_decode_integer_def [abs_def])
  moreover have "reads (per_decode_sequence_of V (per_decode_sequence_of V (per_decode_octet_string V cs') cs'') cs)"
    by (intro reads_sequence_of reads_strings assms)
  ultimately show ?thesis
    using reads_enumerated [OF assms, of E] reads_strings(1,2) [OF assms, of cs] reads_strings(3) [OF assms] reads_oid [OF assms]
    by (simp add: reads_def)
qed

theorem per_decoders_return_witness:
  "per_decode_bool ref_per_env endless_fragments \<noteq> None \<and>
    per_decode_integer ref_per_env (per_prim U8) constraints_NONE endless_fragments \<noteq> None \<and>
    per_decode_enumerated ref_per_env \<lparr>en_VARIANTS = [0 :: int], en_EXTENDED_VARIANTS = None, en_DISCRIMINANTS = [],
      en_EXTENDED_DISCRIMINANTS = None\<rparr> endless_fragments \<noteq> None \<and>
    per_decode_octet_string ref_per_env constraints_NONE endless_fragments \<noteq> None \<and>
    per_decode_bit_string ref_per_env constraints_NONE endless_fragments \<noteq> None \<and>
    per_decode_any ref_per_env endless_fragments \<noteq> None \<and>
    per_decode_object_identifier ref_per_env endless_fragments \<noteq> None \<and>
    per_decode_sequence_of ref_per_env (per_decode_sequence_of ref_per_env
      (per_decode_octet_string ref_per_env constraints_NONE) constraints_NONE) constraints_NONE
      endless_fragments \<noteq> None"
  by (rule per_decoders_return [OF ref_per_env_documented])

section \<open>Versions of a type\<close>

text \<open>A SEQUENCE of an extensible SEQUENCE and a BOOLEAN; the second version of the inner type has an
  extension addition.\<close>

definition inner_v1 :: per_type where
  "inner_v1 = PSequence True [(required_field 0 BOOL, PBool)] []"

definition inner_v2 :: per_type where
  "inner_v2 = PSequence True [(required_field 0 BOOL, PBool)] [(optional_field 0 (new_context 1), PBool)]"

definition outer_of :: "per_type \<Rightarrow> per_type" where
  "outer_of T = PSequence False [(required_field 0 SEQUENCE, T), (required_field 1 BOOL, PBool)] []"

definition uper_message :: "per_type \<Rightarrow> asn_value \<Rightarrow> bytes enc_result option" where
  "uper_message T v = uper_encode ref_bitvec (u_enc (per_type_codec ref_per_env T (required_field 0 SEQUENCE)) v)"

definition uper_value :: "per_type \<Rightarrow> bytes \<Rightarrow> asn_value dec_result option" where
  "uper_value T bytes = uper_decode ref_per_env (u_dec (per_type_codec ref_per_env T (required_field 0 SEQUENCE))) bytes"

definition new_value :: asn_value where
  "new_value = VSequence [Some (VSequence [Some (VBool True), Some (VBool True)]), Some (VBool True)]"

lemma new_bits:
  "u_bits (per_type_codec ref_per_env (outer_of inner_v2) (required_field 0 SEQUENCE)) new_value =
    [True, True, False, False, False, False, False, False, False, True] @
    [False, False, False, False, False, False, False, True] @
    [True, False, False, False, False, False, False, False] @ [True]"
  by code_simp

lemma new_octets:
  "variant_octets ref_bitvec ([True, True, False, False, False, False, False, False, False, True] @
    [False, False, False, False, False, False, False, True] @
    [True, False, False, False, False, False, False, False] @ [True]) = [0xC0, 0x40, 0x60, 0x20]"
  by code_simp

lemma new_wf: "u_wf (per_type_codec ref_per_env (outer_of inner_v2) (required_field 0 SEQUENCE)) new_value"
proof -
  have "bits_documented (pv_bits ref_per_env)" by (rule documented_bits [OF ref_per_env_documented])
  note short = short_open_octets [OF this]
  show ?thesis
    by (simp add: outer_of_def inner_v2_def new_value_def uper_embed_def Let_def uper_sequence_ok_def root_ok_def
      addition_ok_def short)
qed

lemma per_sequence_components:
  assumes V: "per_documented V" and ok: "per_type_ok (PSequence extensible fs gs)"
  shows "uper_components V (map (\<lambda>(g, T). per_type_codec V T g) fs) (map (\<lambda>(g, T). per_type_codec V T g) gs)
    (per_nesting (PSequence extensible fs gs) - 1)"
proof (rule uper_components.intro [OF V])
  fix k assume "k \<in> set (map (\<lambda>(g, T). per_type_codec V T g) fs) \<union> set (map (\<lambda>(g, T). per_type_codec V T g) gs)"
  then show "uper_codec (u_enc k) (u_dec k) (u_bits k) (u_wf k) (per_nesting (PSequence extensible fs gs) - 1)"
    by (rule per_parts_codec [rotated -1])
      (use ok per_nesting_parts(1) per_type_codec_keeps_contract [OF V] in \<open>auto simp: list_all_iff\<close>)
next
  fix k assume "k \<in> set (map (\<lambda>(g, T). per_type_codec V T g) fs)"
  then show "smallest_tag (tag_tree (u_field k)) = u_tag k" using ok by (auto simp: list_all_iff)
qed

lemma additions_bits_empty: "additions_bits fs = [] \<longleftrightarrow> \<not> list_ex (\<lambda>f. f \<noteq> None) fs"
  by (cases fs) (auto simp: additions_bits_def)

text \<open>C17: A decoder that knows none of the extension additions of a SEQUENCE does not skip them: for every
  well-formed value it returns the root components without an error, and leaves the bits of the additions, which
  are there whenever one addition is, in front of whatever follows the SEQUENCE.\<close>

theorem uper_unknown_additions_not_skipped:
  assumes "per_documented V" "per_type_ok (PSequence True fs gs)" "length vs = length fs"
    "u_wf (per_type_codec V (PSequence True fs gs) f) (VSequence (vs @ ws))"
    "uper_depth (per_nesting (PSequence True fs gs)) (q_options d)"
    "q_input d = u_bits (per_type_codec V (PSequence True fs gs) f) (VSequence (vs @ ws)) @ rest"
  shows "\<exists>root additions. u_bits (per_type_codec V (PSequence True fs gs) f) (VSequence (vs @ ws)) = root @ additions \<and>
    u_dec (per_type_codec V (PSequence True fs []) f) d = Some (Ok (VSequence vs, d\<lparr>q_input := additions @ rest\<rparr>)) \<and>
    (additions = [] \<longleftrightarrow> (\<forall>w \<in> set ws. w = None))"
proof -
  define ks where "ks = map (\<lambda>(g, T). per_type_codec V T g) fs"
  define xs where "xs = map (\<lambda>(g, T). per_type_codec V T g) gs"
  note c = per_sequence_components [OF assms(1,2), folded ks_def xs_def]
  let ?adds = "additions_bits (map2 (addition_octets (pv_bits V)) xs ws)"
  have ok: "uper_sequence_ok (pv_bits V) True ks xs (vs, ws)"
    and bits: "u_bits (per_type_codec V (PSequence True fs gs) f) (VSequence (vs @ ws)) =
      uper_sequence_bits (pv_bits V) True ks xs (vs, ws)"
    using assms(3,4) by (simp_all add: uper_embed_def Let_def ks_def xs_def)
  have lw: "length ws = length xs" using ok by (auto simp: uper_sequence_ok_def list_all2_lengthD)
  have "uper_depth (Suc (per_nesting (PSequence True fs gs) - 1)) (q_options d)" using assms(5) by simp
  note left = uper_components.additions_not_skipped [OF c ok this assms(6) [unfolded bits]]
  have "u_dec (per_type_codec V (PSequence True fs []) f) d = Some (Ok (VSequence vs, d\<lparr>q_input := ?adds @ rest\<rparr>))"
    using left by (simp add: uper_embed_def Let_def ks_def [symmetric] qbind_def qret_def)
  moreover have "?adds = [] \<longleftrightarrow> (\<forall>w \<in> set ws. w = None)"
    using uper_components.list_ex_additions [OF c lw] by (auto simp: additions_bits_empty list_ex_iff)
  ultimately show ?thesis unfolding bits uper_sequence_bits_def by (auto simp: append_assoc [symmetric] simp del: append_assoc)
qed

text \<open>The bits of the addition are 19, and the outer component that follows is read from them.\<close>

theorem uper_unknown_additions_not_skipped_witness:
  "\<exists>root additions. u_bits (per_type_codec ref_per_env inner_v2 (required_field 0 SEQUENCE))
      (VSequence [Some (VBool True), Some (VBool True)]) = root @ additions \<and>
    u_dec (per_type_codec ref_per_env inner_v1 (required_field 0 SEQUENCE))
      (per_decoder_new (u_bits (per_type_codec ref_per_env inner_v2 (required_field 0 SEQUENCE))
        (VSequence [Some (VBool True), Some (VBool True)]) @ [True]) per_dec_unaligned) =
      Some (Ok (VSequence [Some (VBool True)], per_decoder_new (additions @ [True]) per_dec_unaligned)) \<and> additions \<noteq> []"
proof -
  let ?d = "per_decoder_new (u_bits (per_type_codec ref_per_env inner_v2 (required_field 0 SEQUENCE))
    (VSequence [Some (VBool True), Some (VBool True)]) @ [True]) per_dec_unaligned"
  have "bits_documented (pv_bits ref_per_env)" by (rule documented_bits [OF ref_per_env_documented])
  note short = short_open_octets [OF this]
  have wf: "u_wf (per_type_codec ref_per_env inner_v2 (required_field 0 SEQUENCE)) (VSequence [Some (VBool True), Some (VBool True)])"
    by (simp add: inner_v2_def uper_embed_def Let_def uper_sequence_ok_def root_ok_def addition_ok_def short)
  have "per_type_ok inner_v2" "per_nesting inner_v2 \<le> 128" by code_simp+
  then have "\<exists>root additions. u_bits (per_type_codec ref_per_env inner_v2 (required_field 0 SEQUENCE))
      (VSequence ([Some (VBool True)] @ [Some (VBool True)])) = root @ additions \<and>
    u_dec (per_type_codec ref_per_env inner_v1 (required_field 0 SEQUENCE)) ?d =
      Some (Ok (VSequence [Some (VBool True)], ?d\<lparr>q_input := additions @ [True]\<rparr>)) \<and>
    (additions = [] \<longleftrightarrow> (\<forall>w \<in> set [Some (VBool True)]. w = None))"
    unfolding inner_v1_def inner_v2_def
    by (intro uper_unknown_additions_not_skipped ref_per_env_documented)
      (use wf in \<open>simp_all add: inner_v2_def per_decoder_new_def per_dec_unaligned_def usize_MAX_def\<close>)
  then show ?thesis by (simp add: per_decoder_new_def)
qed

text \<open>What that means for a message: a decoder that knows the first version of the inner type takes the
  bits of the addition for the component that follows, which changes from TRUE to FALSE without an error.\<close>

lemma uper_old_version_misreads:
  "uper_message (outer_of inner_v2) new_value = Some (Ok [0xC0, 0x40, 0x60, 0x20]) \<and>
   uper_value (outer_of inner_v2) [0xC0, 0x40, 0x60, 0x20] = Some (Ok new_value) \<and>
   uper_value (outer_of inner_v1) [0xC0, 0x40, 0x60, 0x20] =
     Some (Ok (VSequence [Some (VSequence [Some (VBool True)]), Some (VBool False)]))"
proof -
  have "per_type_ok (outer_of inner_v2)" "per_nesting (outer_of inner_v2) \<le> 128" by code_simp+
  note r = schema_roundtrip [OF ref_per_env_documented this new_wf, unfolded new_bits]
  have "pv_bits ref_per_env = ref_bitvec" by (simp add: ref_per_env_def)
  note r = r [unfolded this new_octets]
  have "uper_value (outer_of inner_v1) [0xC0, 0x40, 0x60, 0x20] =
     Some (Ok (VSequence [Some (VSequence [Some (VBool True)]), Some (VBool False)]))"
    by code_simp
  then show ?thesis using r by (simp add: uper_message_def uper_value_def)
qed

end
