(* ===== verification/Json_Values.thy ===== *)
theory Json_Values
  imports Restricted_Strings Per_Encoder "HOL-Library.List_Lexorder" "HOL-Library.Char_ord"
begin

text \<open>
  What the JSON encoding rules stand on: Rust strings as the list of their UTF-8 octets, hexadecimal
  and decimal text, IEEE 754 numbers of 64 bits, and the \<open>Value\<close> of the crate \<open>serde_json\<close>.  The
  numbers of a \<open>Value\<close> and the conversions of the crate are the parameter \<open>J\<close>, and \<open>json_documented\<close> is what
  the crate documents of them.
\<close>

section \<open>Strings\<close>

text \<open>\<open>char::from(b)\<close> for an octet and back; a \<open>String\<close> is the list of its UTF-8 octets.\<close>

definition octet_char :: "u8 \<Rightarrow> char" where "octet_char b = char_of (unat b)"

abbreviation utf8_chars :: "bytes \<Rightarrow> string" where "utf8_chars \<equiv> map octet_char"

definition continuation :: "u8 \<Rightarrow> bool" where "continuation b \<longleftrightarrow> 0x80 \<le> b \<and> b \<le> 0xBF"

text \<open>The well-formed sequences of Unicode, as \<open>core::str::from_utf8\<close> checks them.\<close>

fun is_utf8 :: "bytes \<Rightarrow> bool" where
  "is_utf8 [] = True"
| "is_utf8 (a # xs) =
    (if a < 0x80 then is_utf8 xs
     else if a < 0xC2 then False
     else if a < 0xE0 then (case xs of b # ys \<Rightarrow> continuation b \<and> is_utf8 ys | _ \<Rightarrow> False)
     else if a < 0xF0 then
       (case xs of b # c # ys \<Rightarrow>
          continuation b \<and> (a = 0xE0 \<longrightarrow> 0xA0 \<le> b) \<and> (a = 0xED \<longrightarrow> b \<le> 0x9F) \<and> continuation c \<and> is_utf8 ys
        | _ \<Rightarrow> False)
     else if a < 0xF5 then
       (case xs of b # c # d # ys \<Rightarrow>
          continuation b \<and> (a = 0xF0 \<longrightarrow> 0x90 \<le> b) \<and> (a = 0xF4 \<longrightarrow> b \<le> 0x8F) \<and> continuation c \<and>
          continuation d \<and> is_utf8 ys
        | _ \<Rightarrow> False)
     else False)"

definition from_utf8 :: "bytes \<Rightarrow> string option" where
  "from_utf8 bs = (if is_utf8 bs then Some (utf8_chars bs) else None)"

fun split_on :: "char \<Rightarrow> string \<Rightarrow> string list" where
  "split_on c [] = [[]]"
| "split_on c (x # xs) =
    (if x = c then [] # split_on c xs
     else (case split_on c xs of p # ps \<Rightarrow> (x # p) # ps | [] \<Rightarrow> [[x]]))"

fun join :: "string \<Rightarrow> string list \<Rightarrow> string" where
  "join sep [] = []"
| "join sep [p] = p"
| "join sep (p # ps) = p @ sep @ join sep ps"

text \<open>\<open>str::eq_ignore_ascii_case\<close>.\<close>

definition ascii_lowercase :: "char \<Rightarrow> char" where
  "ascii_lowercase c = (let n = of_char c :: nat in if 65 \<le> n \<and> n \<le> 90 then char_of (n + 32) else c)"

definition eq_ignore_ascii_case :: "string \<Rightarrow> string \<Rightarrow> bool" where
  "eq_ignore_ascii_case a b = (map ascii_lowercase a = map ascii_lowercase b)"

section \<open>Numbers as text\<close>

definition hex_digit :: "nat \<Rightarrow> char" where "hex_digit n = ''0123456789ABCDEF'' ! n"

text \<open>\<open>format!("{b:02X?}")\<close> of every octet.\<close>

definition hex_octet :: "u8 \<Rightarrow> string" where
  "hex_octet b = [hex_digit (unat b div 16), hex_digit (unat b mod 16)]"

definition hexstring :: "bytes \<Rightarrow> string" where "hexstring bs = concat (map hex_octet bs)"

definition nibble_from_hexdigit :: "char \<Rightarrow> u8 option" where
  "nibble_from_hexdigit c =
    (let n = of_char c :: nat in
     if 48 \<le> n \<and> n \<le> 57 then Some (word_of_nat (n - 48))
     else if 97 \<le> n \<and> n \<le> 102 then Some (word_of_nat (n - 97 + 0xA))
     else if 65 \<le> n \<and> n \<le> 70 then Some (word_of_nat (n - 65 + 0xA))
     else None)"

text \<open>The loop over \<open>char_indices\<close>: it returns at the first character that is no hexadecimal digit, so the
  characters before are octets and the index of the octet is that of the character.\<close>

fun hexstring_loop :: "nat \<Rightarrow> string \<Rightarrow> bytes \<Rightarrow> bytes option" where
  "hexstring_loop i [] bs = Some bs"
| "hexstring_loop i (c # cs) bs =
    (case nibble_from_hexdigit c of
       None \<Rightarrow> None
     | Some n \<Rightarrow>
         if i mod 2 = 0 then hexstring_loop (Suc i) cs (bs @ [push_bit 4 n])
         else hexstring_loop (Suc i) cs (bs[i div 2 := bs ! (i div 2) OR n]))"

definition bytes_from_hexstring :: "string \<Rightarrow> bytes option" where
  "bytes_from_hexstring hex_string =
    (if length hex_string mod 2 \<noteq> 0 then None else hexstring_loop 0 hex_string [])"

text \<open>\<open>format!("{arc}")\<close> and \<open>str::parse::<u32>\<close>, which takes a sign \<open>+\<close> before at least one digit.\<close>

fun decimal :: "nat \<Rightarrow> string" where
  "decimal n = (if n < 10 then [hex_digit n] else decimal (n div 10) @ [hex_digit (n mod 10)])"

declare decimal.simps [simp del]

fun decimal_digits :: "string \<Rightarrow> nat \<Rightarrow> nat option" where
  "decimal_digits [] acc = Some acc"
| "decimal_digits (c # cs) acc =
    (let n = of_char c in if 48 \<le> n \<and> n \<le> 57 then decimal_digits cs (10 * acc + (n - 48)) else None)"

definition parse_u32 :: "string \<Rightarrow> u32 option" where
  "parse_u32 s =
    (let ds = (if 1 < length s \<and> hd s = CHR ''+'' then tl s else s)
     in if ds = [] then None
        else Option.bind (decimal_digits ds 0) (\<lambda>n. if n < 2 ^ 32 then Some (word_of_nat n) else None))"

section \<open>Numbers of 64 bits\<close>

type_synonym f64 = "64 word"

definition f64_sign :: "f64 \<Rightarrow> bool" where "f64_sign x = bit x 63"
definition f64_exponent :: "f64 \<Rightarrow> f64" where "f64_exponent x = drop_bit 52 x AND 0x7FF"
definition f64_mantissa :: "f64 \<Rightarrow> f64" where "f64_mantissa x = x AND 0xFFFFFFFFFFFFF"

definition f64_is_infinite :: "f64 \<Rightarrow> bool" where
  "f64_is_infinite x \<longleftrightarrow> f64_exponent x = 0x7FF \<and> f64_mantissa x = 0"
definition f64_is_nan :: "f64 \<Rightarrow> bool" where
  "f64_is_nan x \<longleftrightarrow> f64_exponent x = 0x7FF \<and> f64_mantissa x \<noteq> 0"
definition f64_is_zero :: "f64 \<Rightarrow> bool" where
  "f64_is_zero x \<longleftrightarrow> f64_exponent x = 0 \<and> f64_mantissa x = 0"
definition f64_is_finite :: "f64 \<Rightarrow> bool" where "f64_is_finite x \<longleftrightarrow> f64_exponent x \<noteq> 0x7FF"

definition f64_INFINITY :: f64 where "f64_INFINITY = 0x7FF0000000000000"
definition f64_NEG_INFINITY :: f64 where "f64_NEG_INFINITY = 0xFFF0000000000000"
definition f64_NAN :: f64 where "f64_NAN = 0x7FF8000000000000"
definition f64_NEG_ZERO :: f64 where "f64_NEG_ZERO = 0x8000000000000000"

text \<open>The trait \<open>RealType\<close> as far as JER uses it; the number between the two conversions is an \<open>f64\<close>.\<close>

record 'r real_ops =
  r_try_to_float :: "'r \<Rightarrow> f64 option"
  r_try_from_float :: "f64 \<Rightarrow> 'r option"

definition f64_ops :: "f64 real_ops" where
  "f64_ops = \<lparr>r_try_to_float = Some, r_try_from_float = Some\<rparr>"

section \<open>JSON values\<close>

text \<open>\<open>serde_json::Value\<close>; its \<open>Map\<close> is a \<open>BTreeMap\<close>, the list of the entries in the order of the keys.\<close>

datatype 'n json =
    JNull
  | JBool bool
  | JNumber 'n
  | JString string
  | JArray "'n json list"
  | JObject "(string \<times> 'n json) list"

type_synonym 'n value_map = "(string \<times> 'n json) list"

fun as_bool :: "'n json \<Rightarrow> bool option" where "as_bool (JBool b) = Some b" | "as_bool _ = None"
fun as_str :: "'n json \<Rightarrow> string option" where "as_str (JString s) = Some s" | "as_str _ = None"
fun as_number :: "'n json \<Rightarrow> 'n option" where "as_number (JNumber n) = Some n" | "as_number _ = None"
fun as_array :: "'n json \<Rightarrow> 'n json list option" where "as_array (JArray vs) = Some vs" | "as_array _ = None"
fun as_object :: "'n json \<Rightarrow> 'n value_map option" where "as_object (JObject m) = Some m" | "as_object _ = None"
fun is_null :: "'n json \<Rightarrow> bool" where "is_null JNull = True" | "is_null _ = False"

text \<open>\<open>Map::remove\<close>: the value of the key, and the map without it.\<close>

definition bt_remove :: "'k \<Rightarrow> ('k \<times> 'v) list \<Rightarrow> 'v option \<times> ('k \<times> 'v) list" where
  "bt_remove k m = (map_of m k, filter (\<lambda>e. fst e \<noteq> k) m)"

record 'n json_env =
  jn_from_i64 :: "int \<Rightarrow> 'n"
  jn_from_usize :: "nat \<Rightarrow> 'n"
  jn_from_f64 :: "f64 \<Rightarrow> 'n option"
  jn_as_i64 :: "'n \<Rightarrow> int option"
  jn_as_u64 :: "'n \<Rightarrow> nat option"
  jn_as_f64 :: "'n \<Rightarrow> f64 option"
  jn_display :: "'n json \<Rightarrow> string"
  jn_from_str :: "string \<Rightarrow> 'n json option"
  jn_bits :: bitvec_ops
  jn_try_from_vec :: "bytes \<Rightarrow> bool list option"

definition as_i64 :: "'n json_env \<Rightarrow> 'n json \<Rightarrow> int option" where
  "as_i64 J v = Option.bind (as_number v) (jn_as_i64 J)"

definition as_f64 :: "'n json_env \<Rightarrow> 'n json \<Rightarrow> f64 option" where
  "as_f64 J v = Option.bind (as_number v) (jn_as_f64 J)"

text \<open>Integers keep their value, a finite number has a JSON number and no other one has, and
  \<open>BitVec::try_from_vec\<close> refuses only vectors of more bits than it can address.\<close>

definition json_documented :: "'n json_env \<Rightarrow> bool" where
  "json_documented J \<longleftrightarrow>
    (\<forall>i. in_type I64 i \<longrightarrow> jn_as_i64 J (jn_from_i64 J i) = Some i) \<and>
    (\<forall>n \<le> usize_MAX. jn_as_u64 J (jn_from_usize J n) = Some n) \<and>
    (\<forall>x. f64_is_finite x \<longrightarrow> (\<exists>n. jn_from_f64 J x = Some n \<and> jn_as_f64 J n = Some x)) \<and>
    (\<forall>x. \<not> f64_is_finite x \<longrightarrow> jn_from_f64 J x = None) \<and>
    bits_documented (jn_bits J) \<and>
    (\<forall>bs. 8 * length bs < 2 ^ 61 \<longrightarrow> jn_try_from_vec J bs = Some (bv_from_slice (jn_bits J) bs))"

text \<open>A concrete crate: numbers are integers or floating-point numbers, values are printed as JSON
  text, and the texts that can be read are those of the list \<open>known\<close>.\<close>

datatype ref_number = RInt int | RFloat f64

fun ref_as_int :: "ref_number \<Rightarrow> int option" where "ref_as_int (RInt i) = Some i" | "ref_as_int _ = None"
fun ref_as_float :: "ref_number \<Rightarrow> f64 option" where "ref_as_float (RFloat x) = Some x" | "ref_as_float _ = None"

fun ref_number_text :: "ref_number \<Rightarrow> string" where
  "ref_number_text (RInt i) = (if i < 0 then ''-'' @ decimal (nat (- i)) else decimal (nat i))"
| "ref_number_text (RFloat x) = ''0x'' @ hexstring (be_bytes 8 (uint x))"

definition quoted :: "string \<Rightarrow> string" where "quoted s = [CHR 0x22] @ s @ [CHR 0x22]"

fun ref_display :: "ref_number json \<Rightarrow> string" where
  "ref_display JNull = ''null''"
| "ref_display (JBool b) = (if b then ''true'' else ''false'')"
| "ref_display (JNumber n) = ref_number_text n"
| "ref_display (JString s) = quoted s"
| "ref_display (JArray vs) = ''['' @ join '','' (map ref_display vs) @ '']''"
| "ref_display (JObject m) = ''{'' @ join '','' (map (\<lambda>(k, v). quoted k @ '':'' @ ref_display v) m) @ ''}''"

definition ref_json_env :: "(string \<times> ref_number json) list \<Rightarrow> ref_number json_env" where
  "ref_json_env known =
    \<lparr>jn_from_i64 = RInt, jn_from_usize = (\<lambda>n. RInt (int n)),
     jn_from_f64 = (\<lambda>x. if f64_is_finite x then Some (RFloat x) else None),
     jn_as_i64 = ref_as_int, jn_as_u64 = (\<lambda>n. Option.bind (ref_as_int n) (\<lambda>i. if 0 \<le> i then Some (nat i) else None)),
     jn_as_f64 = ref_as_float, jn_display = ref_display, jn_from_str = map_of known,
     jn_bits = ref_bitvec, jn_try_from_vec = (\<lambda>bs. Some (bv_from_slice ref_bitvec bs))\<rparr>"

lemma ref_json_documented: "json_documented (ref_json_env known)"
  by (simp add: json_documented_def ref_json_env_def ref_bitvec_documented)

lemma json_documentedD:
  assumes "json_documented J"
  shows "in_type I64 i \<Longrightarrow> jn_as_i64 J (jn_from_i64 J i) = Some i"
    and "n \<le> usize_MAX \<Longrightarrow> jn_as_u64 J (jn_from_usize J n) = Some n"
    and "f64_is_finite x \<Longrightarrow> \<exists>n. jn_from_f64 J x = Some n \<and> jn_as_f64 J n = Some x"
    and "bits_documented (jn_bits J)"
    and "8 * length bs < 2 ^ 61 \<Longrightarrow> jn_try_from_vec J bs = Some (bv_from_slice (jn_bits J) bs)"
  using assms unfolding json_documented_def by blast+

section \<open>Lemmas\<close>

lemma octet_less: "unat (b :: u8) < 256"
  using unsigned_less [of b] by simp

lemma octet_char_inj [simp]: "octet_char a = octet_char b \<longleftrightarrow> a = b"
proof
  assume "octet_char a = octet_char b"
  then have "unat a mod 256 = unat b mod 256" unfolding octet_char_def by (metis of_char_of)
  then show "a = b" using octet_less [of a] octet_less [of b] by (simp add: word_unat_eq_iff)
qed simp

lemma of_octet_char [simp]: "of_char (octet_char b) = (b :: u8)"
proof -
  have "of_char (octet_char b) = (of_nat (of_char (octet_char b)) :: u8)" by (simp only: of_nat_of_char)
  also have "of_char (octet_char b) = unat b mod 256" by (simp only: octet_char_def of_char_of)
  also have "unat b mod 256 = unat b" using octet_less [of b] by simp
  finally show ?thesis by simp
qed

lemma of_utf8_chars [simp]: "map of_char (utf8_chars bs) = (bs :: bytes)"
  by (simp add: comp_def)

lemma is_utf8_ascii: "list_all (\<lambda>b. b < 0x80) bs \<Longrightarrow> is_utf8 bs"
  by (induction bs) simp_all

subsection \<open>Hexadecimal text\<close>

lemma less_16_cases: "(n :: nat) < 16 \<Longrightarrow> n \<in> {0, 1, 2, 3, 4, 5, 6, 7, 8, 9, 10, 11, 12, 13, 14, 15}"
  by (simp add: numeral_eq_Suc less_Suc_eq)

lemma nibble_hex_digit: "n < 16 \<Longrightarrow> nibble_from_hexdigit (hex_digit n) = Some (word_of_nat n)"
  by (drule less_16_cases) (auto simp: nibble_from_hexdigit_def hex_digit_def)

lemma nibbles_of_octet: "push_bit 4 (word_of_nat (unat b div 16)) OR word_of_nat (unat b mod 16) = (b :: u8)"
proof -
  have "unat (drop_bit 4 b) = unat b div 16" "unat (take_bit 4 b) = unat b mod 16"
    using unat_drop_bit_eq [of 4 b] unsigned_take_bit_eq [of 4 b, where 'a = nat]
    by (simp_all add: drop_bit_eq_div take_bit_eq_mod unat_div unat_mod)
  moreover have "word_of_nat (unat w) = w" for w :: u8 by simp
  ultimately have "word_of_nat (unat b div 16) = drop_bit 4 b" "word_of_nat (unat b mod 16) = take_bit 4 b"
    by metis+
  then show ?thesis by (auto intro!: bit_eqI simp: bit_simps)
qed

lemma length_hexstring [simp]: "length (hexstring bs) = 2 * length bs"
  by (induction bs) (simp_all add: hexstring_def hex_octet_def)

lemma hexstring_loop_octets:
  "hexstring_loop (2 * length acc) (hexstring bs) acc = Some (acc @ bs)"
proof (induction bs arbitrary: acc)
  case (Cons b bs)
  have l: "unat b div 16 < 16" "unat b mod 16 < 16" using octet_less [of b] by simp_all
  have "hexstring_loop (2 * length (acc @ [b])) (hexstring bs) (acc @ [b]) = Some ((acc @ [b]) @ bs)"
    by (rule Cons.IH)
  then show ?case
    by (simp add: hexstring_def hex_octet_def nibble_hex_digit [OF l(1)] nibble_hex_digit [OF l(2)] nibbles_of_octet)
qed (simp add: hexstring_def)

lemma bytes_from_hexstring_hexstring [simp]: "bytes_from_hexstring (hexstring bs) = Some bs"
  using hexstring_loop_octets [of "[]" bs] by (simp add: bytes_from_hexstring_def)

text \<open>A text that is read has two digits for each octet.\<close>

lemma hexstring_loop_length:
  "hexstring_loop i s acc = Some bs \<Longrightarrow> length acc = (i + 1) div 2 \<Longrightarrow> length bs = (i + length s + 1) div 2"
proof (induction i s acc rule: hexstring_loop.induct)
  case (2 i c cs acc)
  obtain n where n: "nibble_from_hexdigit c = Some n" using 2(3) by (auto split: option.splits)
  show ?case
  proof (cases "i mod 2 = 0")
    case True
    then have "length (acc @ [push_bit 4 n]) = (Suc i + 1) div 2" using 2(4) by (auto elim!: evenE simp: mod_eq_0_iff_dvd)
    then show ?thesis using 2(1) [OF n True] 2(3) n True by simp
  next
    case False
    then have "Suc i div 2 = Suc (i div 2)" by presburger
    then have "length (acc[i div 2 := acc ! (i div 2) OR n]) = (Suc i + 1) div 2"
      using 2(4) by simp
    then show ?thesis using 2(2) [OF n False] 2(3) n False by simp
  qed
qed simp

subsection \<open>Decimal text\<close>

lemma of_hex_digit: "n < 10 \<Longrightarrow> of_char (hex_digit n) = 48 + n"
proof -
  assume "n < 10"
  then have "n \<in> {0, 1, 2, 3, 4, 5, 6, 7, 8, 9}" by auto
  then show ?thesis by (auto simp: hex_digit_def)
qed

lemma decimal_digits_snoc:
  "n < 10 \<Longrightarrow> decimal_digits (ds @ [hex_digit n]) acc = map_option (\<lambda>a. 10 * a + n) (decimal_digits ds acc)"
  by (induction ds arbitrary: acc) (simp_all add: of_hex_digit Let_def)

lemma decimal_digits_decimal: "decimal_digits (decimal n) 0 = Some n"
proof (induction n rule: decimal.induct)
  case (1 n)
  then show ?case by (subst decimal.simps) (simp add: of_hex_digit decimal_digits_snoc Let_def)
qed

lemma decimal_chars: "c \<in> set (decimal n) \<Longrightarrow> 48 \<le> (of_char c :: nat) \<and> (of_char c :: nat) \<le> 57"
proof (induction n rule: decimal.induct)
  case (1 n)
  then show ?case
    by (cases "n < 10") (auto simp: of_hex_digit decimal.simps [of n])
qed

lemma decimal_not_empty [simp]: "decimal n \<noteq> []"
  by (subst decimal.simps) simp

lemma parse_u32_decimal [simp]: "parse_u32 (decimal (unat w)) = Some w"
proof -
  have "hd (decimal (unat w)) \<in> set (decimal (unat w))" by simp
  then have "hd (decimal (unat w)) \<noteq> CHR ''+''" using decimal_chars by force
  then show ?thesis using unsigned_less [of w] by (simp add: parse_u32_def decimal_digits_decimal)
qed

lemma split_on_no_sep: "c \<notin> set p \<Longrightarrow> split_on c p = [p]"
  by (induction p) auto

lemma split_on_append: "c \<notin> set p \<Longrightarrow> split_on c (p @ c # s) = p # split_on c s"
  by (induction p) auto

lemma split_on_join:
  "ps \<noteq> [] \<Longrightarrow> \<forall>p \<in> set ps. c \<notin> set p \<Longrightarrow> split_on c (join [c] ps) = ps"
  by (induction "[c]" ps rule: join.induct) (simp_all add: split_on_no_sep split_on_append)

lemma split_on_not_empty [simp]: "split_on c s \<noteq> []"
  by (induction s) (auto split: list.splits)

lemma eq_ignore_ascii_case_refl [simp]: "eq_ignore_ascii_case a a"
  by (simp add: eq_ignore_ascii_case_def)

end
