(* ===== verification/Jer_Encoder.thy ===== *)
theory Jer_Encoder
  imports Json_Values Integer_Type
begin

text \<open>
  \<open>jer/enc.rs\<close>: the encoder of the JSON encoding rules.  A component does not know its name: a SEQUENCE
  pushes the names of its components on a stack before it encodes them, and every value that is
  finished takes the name on the top of the stack and becomes an entry of the innermost object that is
  under construction.  Without a name it becomes the root.  The outer \<open>option\<close> is \<open>None\<close> where the code
  panics; an encoder is not used any more after an error.
\<close>

section \<open>The encoder\<close>

record 'n jer_encoder =
  j_stack :: "string list"
  j_constructed_stack :: "'n value_map list"
  j_root_value :: "'n json option"

type_synonym 'n jer_encode_fn = "'n jer_encoder \<Rightarrow> 'n jer_encoder enc_result option"

definition jer_encoder_new :: "'n jer_encoder" where
  "jer_encoder_new = \<lparr>j_stack = [], j_constructed_stack = [], j_root_value = None\<rparr>"

abbreviation jer_enc_error :: "jer_encode_error_kind \<Rightarrow> encode_error" where
  "jer_enc_error k \<equiv> from_codec_encode_kind (JerEncErr k)"

definition to_json :: "'n jer_encoder \<Rightarrow> 'n json enc_result" where
  "to_json self = ok_or (jer_enc_error NoRootValueFound) (j_root_value self)"

definition jer_to_string :: "'n json_env \<Rightarrow> 'n jer_encoder \<Rightarrow> string" where
  "jer_to_string J self = (case j_root_value self of None \<Rightarrow> [] | Some v \<Rightarrow> jn_display J v)"

definition update_root_or_constructed :: "'n json \<Rightarrow> 'n jer_encode_fn" where
  "update_root_or_constructed v self =
    (case j_stack self of
       ident # st \<Rightarrow>
         (case j_constructed_stack self of
            [] \<Rightarrow> Some (Err (jer_enc_error JsonEncoder))
          | m # ms \<Rightarrow> Some (Ok (self\<lparr>j_stack := st, j_constructed_stack := bt_insert ident v m # ms\<rparr>)))
     | [] \<Rightarrow> Some (Ok (self\<lparr>j_root_value := Some v\<rparr>)))"

text \<open>\<open>String::from_utf8\<close> with its error.\<close>

definition text_value :: "bytes \<Rightarrow> 'n jer_encode_fn" where
  "text_value bs self =
    (case from_utf8 bs of
       Some s \<Rightarrow> update_root_or_constructed (JString s) self
     | None \<Rightarrow> Some (Err (jer_enc_error InvalidCharacter)))"

section \<open>Values without components\<close>

definition jer_encode_octet_string :: "bytes \<Rightarrow> 'n jer_encode_fn" where
  "jer_encode_octet_string v = update_root_or_constructed (JString (hexstring v))"

definition jer_encode_any :: "bytes \<Rightarrow> 'n jer_encode_fn" where
  "jer_encode_any v = jer_encode_octet_string v"

definition jer_encode_bool :: "bool \<Rightarrow> 'n jer_encode_fn" where
  "jer_encode_bool v = update_root_or_constructed (JBool v)"

definition has_fixed_size :: "constraints \<Rightarrow> bool" where
  "has_fixed_size cs = (case c_size cs of Some s \<Rightarrow> is_fixed (constraint s) | None \<Rightarrow> False)"

text \<open>\<open>force_align\<close> and \<open>into_vec\<close> give the octets of the bits.\<close>

definition bit_string_value :: "'n json_env \<Rightarrow> constraints \<Rightarrow> bool list \<Rightarrow> 'n json" where
  "bit_string_value J cs v =
    (let bytes = hexstring (bv_raw (jn_bits J) v) in
     if has_fixed_size cs then JString bytes
     else JObject (bt_insert ''length'' (JNumber (jn_from_usize J (length v)))
            (bt_insert ''value'' (JString bytes) [])))"

definition jer_encode_bit_string :: "'n json_env \<Rightarrow> constraints \<Rightarrow> bool list \<Rightarrow> 'n jer_encode_fn" where
  "jer_encode_bit_string J cs v = update_root_or_constructed (bit_string_value J cs v)"

text \<open>The trait \<open>Enumerated\<close> with the names of its items, those of the root first.\<close>

record 'e named_enumerated =
  ne_enumerated :: "'e enumerated"
  ne_IDENTIFIERS :: "string list"

definition variant_identifier :: "'e named_enumerated \<Rightarrow> 'e \<Rightarrow> string option" where
  "variant_identifier E v =
    Option.bind (enumeration_index (ne_enumerated E) v) (\<lambda>i.
      get (ne_IDENTIFIERS E)
        (if is_extended_variant (ne_enumerated E) v then i + variance (ne_enumerated E) else i))"

definition from_identifier :: "'e named_enumerated \<Rightarrow> string \<Rightarrow> 'e option" where
  "from_identifier E s =
    Option.bind (position (\<lambda>id. id = s) (ne_IDENTIFIERS E)) (\<lambda>i.
      if i < variance (ne_enumerated E) then from_enumeration_index (ne_enumerated E) i
      else from_extended_enumeration_index (ne_enumerated E) (i - variance (ne_enumerated E)))"

definition jer_encode_enumerated :: "'e named_enumerated \<Rightarrow> 'e \<Rightarrow> 'n jer_encode_fn" where
  "jer_encode_enumerated E v self =
    Option.bind (variant_identifier E v) (\<lambda>s. update_root_or_constructed (JString s) self)"

definition oid_text :: "u32 list \<Rightarrow> string" where
  "oid_text v = join ''.'' (map (\<lambda>arc. decimal (unat arc)) v)"

definition jer_encode_object_identifier :: "u32 list \<Rightarrow> 'n jer_encode_fn" where
  "jer_encode_object_identifier v = update_root_or_constructed (JString (oid_text v))"

text \<open>What JER needs of the trait \<open>IntegerType\<close>.\<close>

record 'i jer_integer =
  ji_to_i64 :: "'i \<Rightarrow> int option"
  ji_to_bigint :: "'i \<Rightarrow> int"
  ji_try_from_i64 :: "int \<Rightarrow> 'i option"
  ji_WIDTH :: nat

definition jer_prim :: "int_type \<Rightarrow> int jer_integer" where
  "jer_prim t = \<lparr>ji_to_i64 = try_into I64, ji_to_bigint = (\<lambda>v. v), ji_try_from_i64 = try_into t, ji_WIDTH = BITS t\<rparr>"

text \<open>\<open>Integer\<close>: \<open>From<i64>\<close> and \<open>WIDTH = u32::MAX\<close>.\<close>

definition jer_integer_kind :: "integer_kind jer_integer" where
  "jer_integer_kind =
    \<lparr>ji_to_i64 = integer_to_i64, ji_to_bigint = to_bigint, ji_try_from_i64 = (\<lambda>i. Some (integer_from I64 i)),
     ji_WIDTH = 2 ^ 32 - 1\<rparr>"

definition jer_encode_integer :: "'n json_env \<Rightarrow> 'i jer_integer \<Rightarrow> 'i \<Rightarrow> 'n jer_encode_fn" where
  "jer_encode_integer J I v self =
    (case ji_to_i64 I v of
       Some i \<Rightarrow> update_root_or_constructed (JNumber (jn_from_i64 J i)) self
     | None \<Rightarrow> Some (Err (jer_enc_error (ExceedsSupportedIntSize (ji_to_bigint I v)))))"

definition jer_encode_real :: "'n json_env \<Rightarrow> 'r real_ops \<Rightarrow> 'r \<Rightarrow> 'n jer_encode_fn" where
  "jer_encode_real J R v self =
    (case r_try_to_float R v of
       None \<Rightarrow> Some (Err (jer_enc_error ExceedsSupportedRealRange))
     | Some x \<Rightarrow>
         if f64_is_infinite x then
           (if \<not> f64_sign x then update_root_or_constructed (JString ''INF'') self
            else update_root_or_constructed (JString ''-INF'') self)
         else if f64_is_nan x then update_root_or_constructed (JString ''NAN'') self
         else if f64_is_zero x \<and> f64_sign x then update_root_or_constructed (JString ''-0'') self
         else (case jn_from_f64 J x of
                 Some n \<Rightarrow> update_root_or_constructed (JNumber n) self
               | None \<Rightarrow> Some (Err (jer_enc_error ExceedsSupportedRealRange))))"

definition jer_encode_null :: "'n jer_encode_fn" where
  "jer_encode_null = update_root_or_constructed JNull"

section \<open>Character strings\<close>

definition jer_encode_utf8_string :: "string \<Rightarrow> 'n jer_encode_fn" where
  "jer_encode_utf8_string v = update_root_or_constructed (JString v)"

definition jer_encode_general_string :: "u32 list \<Rightarrow> 'n jer_encode_fn" where
  "jer_encode_general_string v = text_value (string_bytes General v)"

definition jer_encode_graphic_string :: "u32 list \<Rightarrow> 'n jer_encode_fn" where
  "jer_encode_graphic_string v = text_value (string_bytes Graphic v)"

definition jer_encode_visible_string :: "u32 list \<Rightarrow> 'n jer_encode_fn" where
  "jer_encode_visible_string v = text_value (string_bytes Visible v)"

definition jer_encode_ia5_string :: "u32 list \<Rightarrow> 'n jer_encode_fn" where
  "jer_encode_ia5_string v = text_value (string_bytes IA5 v)"

definition jer_encode_printable_string :: "u32 list \<Rightarrow> 'n jer_encode_fn" where
  "jer_encode_printable_string v = text_value (string_bytes Printable v)"

definition jer_encode_numeric_string :: "u32 list \<Rightarrow> 'n jer_encode_fn" where
  "jer_encode_numeric_string v = text_value (string_bytes Numeric v)"

text \<open>\<open>todo!()\<close>.\<close>

definition jer_encode_teletex_string :: "u32 list \<Rightarrow> 'n jer_encode_fn" where
  "jer_encode_teletex_string v self = None"

definition jer_encode_bmp_string :: "u32 list \<Rightarrow> 'n jer_encode_fn" where
  "jer_encode_bmp_string v = text_value (string_bytes Bmp v)"

section \<open>Constructed types\<close>

definition jer_encode_explicit_prefix :: "'n jer_encode_fn \<Rightarrow> 'n jer_encode_fn" where
  "jer_encode_explicit_prefix value = value"

text \<open>The names of the components, those of the root first.\<close>

definition field_names :: "fields \<Rightarrow> fields option \<Rightarrow> string list" where
  "field_names FIELDS EXTENDED_FIELDS =
    map name (fields_list FIELDS) @
    (case EXTENDED_FIELDS of Some fs \<Rightarrow> map name (fields_list fs) | None \<Rightarrow> [])"

text \<open>\<open>self.constructed_stack.pop()\<close> and the object it gives.\<close>

definition finish_object :: "'n jer_encode_fn" where
  "finish_object self =
    (case j_constructed_stack self of
       [] \<Rightarrow> Some (Err (jer_enc_error JsonEncoder))
     | m # ms \<Rightarrow> update_root_or_constructed (JObject m) (self\<lparr>j_constructed_stack := ms\<rparr>))"

definition jer_encode_sequence :: "fields \<Rightarrow> fields option \<Rightarrow> 'n jer_encode_fn \<Rightarrow> 'n jer_encode_fn" where
  "jer_encode_sequence FIELDS EXTENDED_FIELDS encoder_scope self =
    (let st = fold (\<lambda>nm st. nm # st) (rev (field_names FIELDS EXTENDED_FIELDS)) (j_stack self) in
     pbind (encoder_scope (self\<lparr>j_stack := st, j_constructed_stack := [] # j_constructed_stack self\<rparr>)) finish_object)"

definition jer_encode_set :: "fields \<Rightarrow> fields option \<Rightarrow> 'n jer_encode_fn \<Rightarrow> 'n jer_encode_fn" where
  "jer_encode_set FIELDS EXTENDED_FIELDS value = jer_encode_sequence FIELDS EXTENDED_FIELDS value"

fun encode_items :: "'n jer_encode_fn list \<Rightarrow> 'n json list \<Rightarrow> 'n json list enc_result option" where
  "encode_items [] acc = Some (Ok acc)"
| "encode_items (v # vs) acc =
    pbind (v jer_encoder_new) (\<lambda>item_encoder.
      pbind (Some (to_json item_encoder)) (\<lambda>rv. encode_items vs (acc @ [rv])))"

definition jer_encode_sequence_of :: "'n jer_encode_fn list \<Rightarrow> 'n jer_encode_fn" where
  "jer_encode_sequence_of values self =
    pbind (encode_items values []) (\<lambda>vs. update_root_or_constructed (JArray vs) self)"

text \<open>The elements in the order of \<open>SetOf::to_vec\<close>.\<close>

definition jer_encode_set_of :: "'n jer_encode_fn list \<Rightarrow> 'n jer_encode_fn" where
  "jer_encode_set_of values self =
    pbind (encode_items values []) (\<lambda>vs. update_root_or_constructed (JArray vs) self)"

definition jer_encode_some :: "'n jer_encode_fn \<Rightarrow> 'n jer_encode_fn" where
  "jer_encode_some value = value"

definition jer_encode_some_with_tag_and_constraints :: "'n jer_encode_fn \<Rightarrow> 'n jer_encode_fn" where
  "jer_encode_some_with_tag_and_constraints value = value"

definition jer_encode_none :: "'n jer_encode_fn" where
  "jer_encode_none self = Some (Ok (self\<lparr>j_stack := tl (j_stack self)\<rparr>))"

definition jer_encode_none_with_tag :: "'n jer_encode_fn" where
  "jer_encode_none_with_tag self = Some (Ok (self\<lparr>j_stack := tl (j_stack self)\<rparr>))"

text \<open>\<open>find_map\<close> over the variants and their indices.\<close>

fun find_identifier :: "tag \<Rightarrow> string list \<Rightarrow> (nat \<times> tag) list \<Rightarrow> string option" where
  "find_identifier t IDENTIFIERS [] = None"
| "find_identifier t IDENTIFIERS ((i, variant_tag) # vs) =
    (case (if t = variant_tag then get IDENTIFIERS i else None) of
       Some s \<Rightarrow> Some s
     | None \<Rightarrow> find_identifier t IDENTIFIERS vs)"

definition all_variants :: "tag_tree list \<Rightarrow> tag_tree list option \<Rightarrow> tag list" where
  "all_variants VARIANTS EXTENDED_VARIANTS =
    variants_from_slice (VARIANTS @ (case EXTENDED_VARIANTS of Some vs \<Rightarrow> vs | None \<Rightarrow> []))"

definition jer_encode_choice ::
    "tag_tree list \<Rightarrow> tag_tree list option \<Rightarrow> string list \<Rightarrow> tag \<Rightarrow> 'n jer_encode_fn \<Rightarrow> 'n jer_encode_fn" where
  "jer_encode_choice VARIANTS EXTENDED_VARIANTS IDENTIFIERS t encode_fn self =
    (let variants = all_variants VARIANTS EXTENDED_VARIANTS in
     case find_identifier t IDENTIFIERS (enumerate 0 variants) of
       None \<Rightarrow> Some (Err (EncodeError VariantNotInChoice Jer))
     | Some ident \<Rightarrow>
         if variants = [] then update_root_or_constructed (JObject []) self
         else pbind (encode_fn (self\<lparr>j_constructed_stack := [] # j_constructed_stack self,
                                      j_stack := ident # j_stack self\<rparr>)) finish_object)"

definition jer_encode_extension_addition :: "'n jer_encode_fn \<Rightarrow> 'n jer_encode_fn" where
  "jer_encode_extension_addition value = value"

definition jer_encode_extension_addition_group :: "'n jer_encode_fn option \<Rightarrow> 'n jer_encode_fn" where
  "jer_encode_extension_addition_group value = (case value of Some v \<Rightarrow> v | None \<Rightarrow> jer_encode_none)"

section \<open>Messages\<close>

text \<open>\<open>jer::encode\<close>.\<close>

definition jer_encode :: "'n json_env \<Rightarrow> 'n jer_encode_fn \<Rightarrow> string enc_result option" where
  "jer_encode J value = pbind (value jer_encoder_new) (\<lambda>encoder. Some (Ok (jer_to_string J encoder)))"

end
