(* ===== verification/Jer_Decoder.thy ===== *)
theory Jer_Decoder
  imports Jer_Encoder
begin

text \<open>
  \<open>jer/de.rs\<close>: the decoder of the JSON encoding rules.  Its state is a stack of JSON values: a SEQUENCE
  takes its object off the stack and pushes the value of each component, \<open>None\<close> for a component the
  object does not have, so that the component to be decoded next is on the top.  The outer \<open>option\<close> is
  \<open>None\<close> where the code panics; a decoder is not used any more after an error.
\<close>

section \<open>The decoder\<close>

record 'n jer_decoder =
  jd_stack :: "'n json option list"

type_synonym ('n, 'a) jer_decode_fn = "'n jer_decoder \<Rightarrow> ('a \<times> 'n jer_decoder) dec_result option"

definition jret :: "'a \<Rightarrow> ('n, 'a) jer_decode_fn" where "jret x self = Some (Ok (x, self))"

definition jlift :: "'a dec_result \<Rightarrow> ('n, 'a) jer_decode_fn" where
  "jlift r self = Some (map_ok (\<lambda>x. (x, self)) r)"

definition jbind :: "('n, 'a) jer_decode_fn \<Rightarrow> ('a \<Rightarrow> ('n, 'b) jer_decode_fn) \<Rightarrow> ('n, 'b) jer_decode_fn" where
  "jbind m f self = pbind (m self) (\<lambda>(x, self). f x self)"

abbreviation jer_error :: "jer_decode_error_kind \<Rightarrow> decode_error" where
  "jer_error k \<equiv> from_codec_kind (JerErr k)"

text \<open>\<open>Decoder::new\<close> and \<open>From<Value>\<close>.\<close>

definition jer_decoder_of_value :: "'n json \<Rightarrow> 'n jer_decoder" where
  "jer_decoder_of_value v = \<lparr>jd_stack = [Some v]\<rparr>"

definition jer_decoder_new :: "'n json_env \<Rightarrow> string \<Rightarrow> 'n jer_decoder dec_result" where
  "jer_decoder_new J input =
    (case jn_from_str J input of
       Some root \<Rightarrow> Ok (jer_decoder_of_value root)
     | None \<Rightarrow> Err (DecodeError ParserFail Jer))"

text \<open>\<open>stack.pop().flatten().ok_or_else(eoi)\<close>.\<close>

definition pop_value :: "('n, 'n json) jer_decode_fn" where
  "pop_value self =
    (case jd_stack self of
       Some v # st \<Rightarrow> Some (Ok (v, self\<lparr>jd_stack := st\<rparr>))
     | _ \<Rightarrow> Some (Err (jer_error EndOfInput)))"

definition push_value :: "'n json option \<Rightarrow> 'n jer_decoder \<Rightarrow> 'n jer_decoder" where
  "push_value v self = self\<lparr>jd_stack := v # jd_stack self\<rparr>"

definition decode_jer_value :: "('n json \<Rightarrow> 'a dec_result) \<Rightarrow> ('n, 'a) jer_decode_fn" where
  "decode_jer_value decoder_fn = jbind pop_value (\<lambda>v. jlift (decoder_fn v))"

definition type_mismatch :: "'a option \<Rightarrow> 'a dec_result" where
  "type_mismatch = ok_or (jer_error TypeMismatch)"

section \<open>From JSON values\<close>

definition any_from_value :: "'n json_env \<Rightarrow> 'n json \<Rightarrow> bytes dec_result" where
  "any_from_value J v = Ok (map of_char (jn_display J v))"

definition boolean_from_value :: "'n json \<Rightarrow> bool dec_result" where
  "boolean_from_value v = type_mismatch (as_bool v)"

definition enumerated_from_value :: "'e named_enumerated \<Rightarrow> 'n json \<Rightarrow> 'e dec_result" where
  "enumerated_from_value E v =
    and_then (type_mismatch (as_str v)) (\<lambda>s.
      ok_or (jer_error (InvalidEnumDiscriminant s)) (from_identifier E s))"

definition integer_from_value :: "'n json_env \<Rightarrow> 'i jer_integer \<Rightarrow> 'n json \<Rightarrow> 'i dec_result" where
  "integer_from_value J I v =
    and_then (type_mismatch (as_i64 J v)) (\<lambda>i.
      ok_or (DecodeError (IntegerOverflow (ji_WIDTH I)) Jer) (ji_try_from_i64 I i))"

definition real_from_value :: "'n json_env \<Rightarrow> 'r real_ops \<Rightarrow> 'n json \<Rightarrow> 'r dec_result" where
  "real_from_value J R v =
    (case as_f64 J v of
       Some x \<Rightarrow> type_mismatch (r_try_from_float R x)
     | None \<Rightarrow> type_mismatch (Option.bind (as_str v) (\<lambda>s.
         if s = ''-0'' then r_try_from_float R f64_NEG_ZERO
         else if s = ''INF'' then r_try_from_float R f64_INFINITY
         else if s = ''-INF'' then r_try_from_float R f64_NEG_INFINITY
         else if s = ''NAN'' then r_try_from_float R f64_NAN
         else None)))"

definition null_from_value :: "'n json \<Rightarrow> unit dec_result" where
  "null_from_value v = type_mismatch (if is_null v then Some () else None)"

fun parse_arcs :: "string list \<Rightarrow> u32 list option" where
  "parse_arcs [] = Some []"
| "parse_arcs (arc # arcs) = Option.bind (parse_u32 arc) (\<lambda>a. map_option ((#) a) (parse_arcs arcs))"

definition object_identifier_from_value :: "'n json \<Rightarrow> u32 list dec_result" where
  "object_identifier_from_value v =
    and_then (type_mismatch (as_str v)) (\<lambda>s.
      ok_or (jer_error InvalidOIDString)
        (Option.bind (parse_arcs (split_on CHR ''.'' s)) object_identifier_new))"

definition string_from_value :: "'n json \<Rightarrow> string dec_result" where
  "string_from_value v = type_mismatch (as_str v)"

definition octet_string_from_value :: "'n json \<Rightarrow> bytes dec_result" where
  "octet_string_from_value v =
    and_then (type_mismatch (as_str v)) (\<lambda>s. ok_or (jer_error InvalidJerOctetString) (bytes_from_hexstring s))"

section \<open>Values without components\<close>

definition jer_decode_any :: "'n json_env \<Rightarrow> ('n, bytes) jer_decode_fn" where
  "jer_decode_any J = decode_jer_value (any_from_value J)"

definition jer_decode_bool :: "('n, bool) jer_decode_fn" where
  "jer_decode_bool = decode_jer_value boolean_from_value"

definition jer_decode_enumerated :: "'e named_enumerated \<Rightarrow> ('n, 'e) jer_decode_fn" where
  "jer_decode_enumerated E = decode_jer_value (enumerated_from_value E)"

definition jer_decode_integer :: "'n json_env \<Rightarrow> 'i jer_integer \<Rightarrow> ('n, 'i) jer_decode_fn" where
  "jer_decode_integer J I = decode_jer_value (integer_from_value J I)"

definition jer_decode_real :: "'n json_env \<Rightarrow> 'r real_ops \<Rightarrow> ('n, 'r) jer_decode_fn" where
  "jer_decode_real J R = decode_jer_value (real_from_value J R)"

definition jer_decode_null :: "('n, unit) jer_decode_fn" where
  "jer_decode_null = decode_jer_value null_from_value"

definition jer_decode_object_identifier :: "('n, u32 list) jer_decode_fn" where
  "jer_decode_object_identifier = decode_jer_value object_identifier_from_value"

definition jer_decode_octet_string :: "('n, bytes) jer_decode_fn" where
  "jer_decode_octet_string = decode_jer_value octet_string_from_value"

text \<open>A BIT STRING of fixed size is a text of hexadecimal digits, any other one an object of this text and
  the number of bits.  The padding bits are dropped one by one.\<close>

abbreviation jer_custom :: decode_error where "jer_custom \<equiv> DecodeError Custom Jer"

definition fixed_bits_size :: "constraints \<Rightarrow> int option" where
  "fixed_bits_size cs =
    Option.bind (c_size cs) (\<lambda>s. if is_fixed (constraint s) then as_start (constraint s) else None)"

definition sized_bits :: "'n json_env \<Rightarrow> 'n json \<Rightarrow> (bool list \<times> nat) dec_result" where
  "sized_bits J obj =
    and_then (type_mismatch (as_object obj)) (\<lambda>value_map.
      and_then (type_mismatch
        (Option.bind (Option.bind (map_of value_map ''value'') as_str) (\<lambda>value.
          map_option (\<lambda>len. (value, len))
            (Option.bind (Option.bind (map_of value_map ''length'') as_number) (jn_as_u64 J)))))
      (\<lambda>(value, len).
        and_then (ok_or jer_custom (bytes_from_hexstring value)) (\<lambda>bytes.
          map_ok (\<lambda>bits. (bits, len)) (ok_or jer_custom (jn_try_from_vec J bytes)))))"

definition strip_padding :: "bool list \<times> nat \<Rightarrow> bool list dec_result" where
  "strip_padding = (\<lambda>(padded, bitstring_length).
    (let padding_length = (if bitstring_length mod 8 = 0 then 0 else 8 - bitstring_length mod 8);
         padded = (butlast ^^ padding_length) padded
     in if bitstring_length = length padded then Ok padded else Err jer_custom))"

definition jer_decode_bit_string :: "'n json_env \<Rightarrow> constraints \<Rightarrow> ('n, bool list) jer_decode_fn" where
  "jer_decode_bit_string J cs =
    (case fixed_bits_size cs of
       Some n \<Rightarrow>
         jbind (decode_jer_value octet_string_from_value) (\<lambda>bytes.
           jlift (and_then (ok_or jer_custom (jn_try_from_vec J bytes)) (\<lambda>bits. strip_padding (bits, nat n))))
     | None \<Rightarrow> jbind pop_value (\<lambda>obj. jlift (and_then (sized_bits J obj) strip_padding)))"

section \<open>Character strings\<close>

text \<open>\<open>TryFrom<String>\<close> of the character string types reads the octets of the text.\<close>

definition jer_decode_restricted :: "character_set_name \<Rightarrow> tag \<Rightarrow> ('n, u32 list) jer_decode_fn" where
  "jer_decode_restricted S t =
    jbind (decode_jer_value string_from_value) (\<lambda>s self.
      Option.bind (try_from_slice S (map of_char s)) (\<lambda>r.
        jlift (map_err (\<lambda>_. DecodeError (StringConversionFailed t) Jer) r) self))"

definition jer_decode_utf8_string :: "('n, string) jer_decode_fn" where
  "jer_decode_utf8_string = decode_jer_value string_from_value"

definition jer_decode_visible_string :: "('n, u32 list) jer_decode_fn" where
  "jer_decode_visible_string = jer_decode_restricted Visible VISIBLE_STRING"

definition jer_decode_general_string :: "('n, u32 list) jer_decode_fn" where
  "jer_decode_general_string = jer_decode_restricted General GENERAL_STRING"

definition jer_decode_graphic_string :: "('n, u32 list) jer_decode_fn" where
  "jer_decode_graphic_string = jer_decode_restricted Graphic GRAPHIC_STRING"

definition jer_decode_ia5_string :: "('n, u32 list) jer_decode_fn" where
  "jer_decode_ia5_string = jer_decode_restricted IA5 IA5_STRING"

definition jer_decode_printable_string :: "('n, u32 list) jer_decode_fn" where
  "jer_decode_printable_string = jer_decode_restricted Printable PRINTABLE_STRING"

definition jer_decode_numeric_string :: "('n, u32 list) jer_decode_fn" where
  "jer_decode_numeric_string = jer_decode_restricted Numeric NUMERIC_STRING"

text \<open>\<open>todo!()\<close>.\<close>

definition jer_decode_teletex_string :: "('n, u32 list) jer_decode_fn" where
  "jer_decode_teletex_string self = None"

definition jer_decode_bmp_string :: "('n, u32 list) jer_decode_fn" where
  "jer_decode_bmp_string = jer_decode_restricted Bmp BMP_STRING"

section \<open>Constructed types\<close>

definition jer_decode_explicit_prefix :: "('n, 'a) jer_decode_fn \<Rightarrow> ('n, 'a) jer_decode_fn" where
  "jer_decode_explicit_prefix decode = decode"

definition jer_decode_sequence ::
    "fields \<Rightarrow> fields option \<Rightarrow> ('n, 'a) jer_decode_fn \<Rightarrow> ('n, 'a) jer_decode_fn" where
  "jer_decode_sequence FIELDS EXTENDED_FIELDS decode_fn =
    jbind pop_value (\<lambda>obj self.
      pbind (Some (type_mismatch (as_object obj))) (\<lambda>value_map.
        (let (rest, st) =
           fold (\<lambda>nm (m, st). let (v, m) = bt_remove nm m in (m, v # st))
             (rev (field_names FIELDS EXTENDED_FIELDS)) (value_map, jd_stack self)
         in decode_fn (self\<lparr>jd_stack := st\<rparr>))))"

fun items_loop :: "('n, 'a) jer_decode_fn \<Rightarrow> 'n json list \<Rightarrow> 'a list \<Rightarrow> ('n, 'a list) jer_decode_fn" where
  "items_loop decode [] acc self = Some (Ok (acc, self))"
| "items_loop decode (v # vs) acc self =
    pbind (decode (push_value (Some v) self)) (\<lambda>(x, self). items_loop decode vs (acc @ [x]) self)"

definition jer_decode_sequence_of :: "('n, 'a) jer_decode_fn \<Rightarrow> ('n, 'a list) jer_decode_fn" where
  "jer_decode_sequence_of decode =
    jbind pop_value (\<lambda>v. jbind (jlift (type_mismatch (as_array v))) (\<lambda>vs. items_loop decode vs []))"

definition jer_decode_set_of :: "('n, 'a) jer_decode_fn \<Rightarrow> ('n, 'a multiset) jer_decode_fn" where
  "jer_decode_set_of decode = jbind (jer_decode_sequence_of decode) (\<lambda>xs. jret (mset xs))"

fun set_fields_loop ::
    "(nat \<Rightarrow> tag \<Rightarrow> ('n, 'a) jer_decode_fn) \<Rightarrow> (nat \<times> field) list \<Rightarrow> 'n value_map \<Rightarrow> 'a list \<Rightarrow>
     ('n, 'a list \<times> 'n value_map) jer_decode_fn" where
  "set_fields_loop decode_fn [] m acc self = Some (Ok ((acc, m), self))"
| "set_fields_loop decode_fn ((i, f) # fs) m acc self =
    (let (v, m) = bt_remove (name f) m in
     pbind (decode_fn i (f_tag f) (push_value v self)) (\<lambda>(x, self).
       set_fields_loop decode_fn fs m (acc @ [x]) self))"

definition jer_decode_set ::
    "fields \<Rightarrow> fields option \<Rightarrow> (nat \<Rightarrow> tag \<Rightarrow> ('n, 'f) jer_decode_fn) \<Rightarrow> ('f list \<Rightarrow> 'a dec_result) \<Rightarrow>
     ('n, 'a) jer_decode_fn" where
  "jer_decode_set FIELDS EXTENDED_FIELDS decode_fn field_fn =
    jbind pop_value (\<lambda>obj.
      jbind (jlift (type_mismatch (as_object obj))) (\<lambda>value_map.
        jbind (set_fields_loop decode_fn
            (sort_key (\<lambda>(i, f). smallest_tag (tag_tree f)) (enumerate 0 (fields_list FIELDS))) value_map [])
          (\<lambda>(acc, m).
            jbind (set_fields_loop decode_fn
                (enumerate (length (fields_list FIELDS))
                  (case EXTENDED_FIELDS of Some fs \<Rightarrow> fields_list fs | None \<Rightarrow> [])) m acc)
              (\<lambda>(acc, m). jlift (field_fn acc)))))"

text \<open>The first entry of the object names the variant.\<close>

definition choice_entry :: "tag_tree list \<Rightarrow> tag_tree list option \<Rightarrow> string list \<Rightarrow> 'n value_map \<Rightarrow> (tag \<times> 'n json) option" where
  "choice_entry VARIANTS EXTENDED_VARIANTS IDENTIFIERS m =
    (case m of
       [] \<Rightarrow> None
     | (k, v) # _ \<Rightarrow>
         Option.bind (position (\<lambda>id. eq_ignore_ascii_case id k) IDENTIFIERS) (\<lambda>i.
           map_option (\<lambda>t. (t, v)) (get (all_variants VARIANTS EXTENDED_VARIANTS) i)))"

definition jer_decode_choice ::
    "tag_tree list \<Rightarrow> tag_tree list option \<Rightarrow> string list \<Rightarrow> (tag \<Rightarrow> ('n, 'a) jer_decode_fn) \<Rightarrow> ('n, 'a) jer_decode_fn" where
  "jer_decode_choice VARIANTS EXTENDED_VARIANTS IDENTIFIERS decode_variant =
    jbind pop_value (\<lambda>v.
      jbind (jlift (type_mismatch (as_object v))) (\<lambda>m.
        case choice_entry VARIANTS EXTENDED_VARIANTS IDENTIFIERS m of
          Some (t, v) \<Rightarrow> (\<lambda>self. decode_variant t (push_value (Some v) self))
        | None \<Rightarrow> decode_variant EOC))"

definition jer_decode_optional :: "('n, 'a) jer_decode_fn \<Rightarrow> ('n, 'a option) jer_decode_fn" where
  "jer_decode_optional decode self =
    (case jd_stack self of
       [] \<Rightarrow> Some (Err (jer_error EndOfInput))
     | None # st \<Rightarrow> Some (Ok (None, self\<lparr>jd_stack := st\<rparr>))
     | Some v # st \<Rightarrow> jbind decode (\<lambda>x. jret (Some x)) (self\<lparr>jd_stack := Some v # st\<rparr>))"

definition jer_decode_optional_with_explicit_prefix :: "('n, 'a) jer_decode_fn \<Rightarrow> ('n, 'a option) jer_decode_fn" where
  "jer_decode_optional_with_explicit_prefix decode = jer_decode_optional decode"

definition jer_decode_optional_with_tag :: "('n, 'a) jer_decode_fn \<Rightarrow> ('n, 'a option) jer_decode_fn" where
  "jer_decode_optional_with_tag decode = jer_decode_optional decode"

definition jer_decode_extension_addition :: "('n, 'a) jer_decode_fn \<Rightarrow> ('n, 'a option) jer_decode_fn" where
  "jer_decode_extension_addition decode = jer_decode_optional decode"

definition jer_decode_extension_addition_group :: "('n, 'a) jer_decode_fn \<Rightarrow> ('n, 'a option) jer_decode_fn" where
  "jer_decode_extension_addition_group decode = jer_decode_optional decode"

section \<open>Messages\<close>

text \<open>\<open>jer::decode\<close>: what is left on the stack is not looked at.\<close>

definition jer_decode_value :: "('n, 'a) jer_decode_fn \<Rightarrow> 'n json \<Rightarrow> 'a dec_result option" where
  "jer_decode_value decode v = pbind (decode (jer_decoder_of_value v)) (\<lambda>(x, self). Some (Ok x))"

definition jer_decode :: "'n json_env \<Rightarrow> ('n, 'a) jer_decode_fn \<Rightarrow> string \<Rightarrow> 'a dec_result option" where
  "jer_decode J decode input =
    pbind (Some (jer_decoder_new J input)) (\<lambda>d. pbind (decode d) (\<lambda>(x, self). Some (Ok x)))"

end
