(* ===== verification/Jer_Codec.thy ===== *)
theory Jer_Codec
  imports Jer_Decoder
begin

text \<open>
  The contract between the encoder and the decoder of JER, and the types without components that keep it.
  A codec gives one JSON value \<open>json v\<close> to the encoder's innermost object, under the name on the top of
  the stack, or to its root; the decoder takes this value off the top of its stack and leaves the rest.
\<close>

section \<open>The contract\<close>

text \<open>A name on the stack has an object to go to.\<close>

definition ready :: "'n jer_encoder \<Rightarrow> bool" where
  "ready e \<longleftrightarrow> (j_stack e \<noteq> [] \<longrightarrow> j_constructed_stack e \<noteq> [])"

definition put_json :: "'n json \<Rightarrow> 'n jer_encoder \<Rightarrow> 'n jer_encoder" where
  "put_json v e =
    (case j_stack e of
       [] \<Rightarrow> e\<lparr>j_root_value := Some v\<rparr>
     | nm # st \<Rightarrow> e\<lparr>j_stack := st, j_constructed_stack :=
         bt_insert nm v (hd (j_constructed_stack e)) # tl (j_constructed_stack e)\<rparr>)"

lemma update_put_json: "ready e \<Longrightarrow> update_root_or_constructed v e = Some (Ok (put_json v e))"
  by (auto simp: update_root_or_constructed_def ready_def put_json_def split: list.splits)

lemma ready_new [simp]: "ready jer_encoder_new"
  by (simp add: ready_def jer_encoder_new_def)

lemma to_json_put_new [simp]: "to_json (put_json v jer_encoder_new) = Ok v"
  by (simp add: to_json_def put_json_def jer_encoder_new_def)

lemma jer_to_string_put_new [simp]: "jer_to_string J (put_json v jer_encoder_new) = jn_display J v"
  by (simp add: jer_to_string_def put_json_def jer_encoder_new_def)

definition jer_encode_value :: "'n jer_encode_fn \<Rightarrow> 'n json enc_result option" where
  "jer_encode_value encode_fn = pbind (encode_fn jer_encoder_new) (\<lambda>e. Some (to_json e))"

locale jer_codec =
  fixes enc :: "'v \<Rightarrow> 'n jer_encode_fn"
    and dec :: "('n, 'v) jer_decode_fn"
    and json :: "'v \<Rightarrow> 'n json"
    and wf :: "'v \<Rightarrow> bool"
  assumes enc_json: "wf v \<Longrightarrow> ready e \<Longrightarrow> enc v e = Some (Ok (put_json (json v) e))"
    and dec_json: "wf v \<Longrightarrow> jd_stack d = Some (json v) # st \<Longrightarrow> dec d = Some (Ok (v, d\<lparr>jd_stack := st\<rparr>))"
begin

lemma value_roundtrip:
  assumes "wf v"
  shows "jer_encode_value (enc v) = Some (Ok (json v))" "jer_decode_value dec (json v) = Some (Ok v)"
  using enc_json [OF assms ready_new] dec_json [OF assms, of "jer_decoder_of_value (json v)" "[]"]
  by (simp_all add: jer_encode_value_def jer_decode_value_def jer_decoder_of_value_def)

lemma text_roundtrip:
  assumes "wf v"
  shows "jer_encode J (enc v) = Some (Ok (jn_display J (json v)))"
    and "jn_from_str J (jn_display J (json v)) = Some (json v) \<Longrightarrow>
      jer_decode J dec (jn_display J (json v)) = Some (Ok v)"
  using enc_json [OF assms ready_new] dec_json [OF assms, of "jer_decoder_of_value (json v)" "[]"]
  by (simp_all add: jer_encode_def jer_decode_def jer_decoder_new_def jer_decoder_of_value_def)

text \<open>Different values have different JSON values.\<close>

lemma json_inj: "wf v \<Longrightarrow> wf w \<Longrightarrow> json v = json w \<Longrightarrow> v = w"
  using value_roundtrip(2) [of v] value_roundtrip(2) [of w] by (metis Inr_inject option.inject)

lemma encode_items_json:
  "list_all wf vs \<Longrightarrow> encode_items (map enc vs) acc = Some (Ok (acc @ map json vs))"
  by (induction vs arbitrary: acc) (simp_all add: enc_json)

lemma items_loop_json:
  "list_all wf vs \<Longrightarrow> items_loop dec (map json vs) acc self = Some (Ok (acc @ vs, self))"
proof (induction vs arbitrary: acc self)
  case (Cons v vs)
  have "dec (push_value (Some (json v)) self) = Some (Ok (v, self))"
    using dec_json [of v "push_value (Some (json v)) self" "jd_stack self"] Cons.prems
    by (simp add: push_value_def)
  then show ?case using Cons by simp
qed simp

lemma decode_optional_json:
  assumes "wf v" "jd_stack d = Some (json v) # st"
  shows "jer_decode_optional dec d = Some (Ok (Some v, d\<lparr>jd_stack := st\<rparr>))"
  using assms dec_json [OF assms(1), of "d\<lparr>jd_stack := Some (json v) # st\<rparr>" st]
  by (simp add: jer_decode_optional_def jbind_def jret_def)

end

lemma decode_optional_absent:
  "jd_stack d = None # st \<Longrightarrow> jer_decode_optional dec d = Some (Ok (None, d\<lparr>jd_stack := st\<rparr>))"
  by (simp add: jer_decode_optional_def)

section \<open>Types without components\<close>

lemma jer_codecI:
  fixes wf :: "'v \<Rightarrow> bool" and enc :: "'v \<Rightarrow> 'n jer_encode_fn"
  assumes "\<And>v. wf v \<Longrightarrow> enc v = update_root_or_constructed (json v)"
    "\<And>v. wf v \<Longrightarrow> f (json v) = Ok v" "dec = decode_jer_value f"
  shows "jer_codec enc dec json wf"
proof
  fix v and e :: "'n jer_encoder" assume "wf v" "ready e"
  then show "enc v e = Some (Ok (put_json (json v) e))" by (simp add: assms(1) update_put_json)
next
  fix v and d :: "'n jer_decoder" and st
  assume "wf v" "jd_stack d = Some (json v) # st"
  then show "dec d = Some (Ok (v, d\<lparr>jd_stack := st\<rparr>))"
    by (simp add: assms(2,3) decode_jer_value_def pop_value_def jbind_def jlift_def)
qed

text \<open>A hypothesis on the parameter is part of what makes a value well-formed.\<close>

definition provided :: "bool \<Rightarrow> ('v \<Rightarrow> bool) \<Rightarrow> 'v \<Rightarrow> bool" where "provided p good v \<longleftrightarrow> p \<and> good v"

lemma provided_True [simp]: "provided True good = good"
  by (rule ext) (simp add: provided_def)

interpretation jer_bool: jer_codec jer_encode_bool jer_decode_bool JBool "\<lambda>_. True"
  by (rule jer_codecI [OF _ _ jer_decode_bool_def])
    (simp_all add: jer_encode_bool_def boolean_from_value_def type_mismatch_def)

interpretation jer_null: jer_codec "\<lambda>_ :: unit. jer_encode_null" jer_decode_null "\<lambda>_. JNull" "\<lambda>_. True"
  by (rule jer_codecI [OF _ _ jer_decode_null_def])
    (simp_all add: jer_encode_null_def null_from_value_def type_mismatch_def)

interpretation jer_octets: jer_codec jer_encode_octet_string jer_decode_octet_string
  "\<lambda>v. JString (hexstring v)" "\<lambda>_. True"
  by (rule jer_codecI [OF _ _ jer_decode_octet_string_def])
    (simp_all add: jer_encode_octet_string_def octet_string_from_value_def type_mismatch_def)

interpretation jer_utf8: jer_codec jer_encode_utf8_string jer_decode_utf8_string JString "\<lambda>_. True"
  by (rule jer_codecI [OF _ _ jer_decode_utf8_string_def])
    (simp_all add: jer_encode_utf8_string_def string_from_value_def type_mismatch_def)

subsection \<open>INTEGER\<close>

definition jer_integer_ok :: "'i jer_integer \<Rightarrow> 'i \<Rightarrow> bool" where
  "jer_integer_ok I v \<longleftrightarrow> (\<exists>i. ji_to_i64 I v = Some i \<and> in_type I64 i \<and> ji_try_from_i64 I i = Some v)"

definition jer_integer_json :: "'n json_env \<Rightarrow> 'i jer_integer \<Rightarrow> 'i \<Rightarrow> 'n json" where
  "jer_integer_json J I v = JNumber (jn_from_i64 J (the (ji_to_i64 I v)))"

interpretation jer_integer: jer_codec "jer_encode_integer J I" "jer_decode_integer J I" "jer_integer_json J I"
  "provided (json_documented J) (jer_integer_ok I)" for J I
  by (rule jer_codecI [OF _ _ jer_decode_integer_def])
    (auto simp: jer_encode_integer_def jer_integer_json_def jer_integer_ok_def provided_def fun_eq_iff
      integer_from_value_def as_i64_def type_mismatch_def json_documentedD(1))

lemma jer_integer_ok_prim: "in_type t v \<Longrightarrow> in_type I64 v \<Longrightarrow> jer_integer_ok (jer_prim t) v"
  by (simp add: jer_integer_ok_def jer_prim_def try_into_def)

subsection \<open>REAL\<close>

text \<open>Only one representation of a number that is not a number is written.\<close>

definition jer_real_ok :: "f64 \<Rightarrow> bool" where
  "jer_real_ok x \<longleftrightarrow> (f64_is_nan x \<longrightarrow> x = f64_NAN)"

definition jer_real_json :: "'n json_env \<Rightarrow> f64 \<Rightarrow> 'n json" where
  "jer_real_json J x =
    (if x = f64_INFINITY then JString ''INF'' else if x = f64_NEG_INFINITY then JString ''-INF''
     else if f64_is_nan x then JString ''NAN'' else if x = f64_NEG_ZERO then JString ''-0''
     else JNumber (the (jn_from_f64 J x)))"

lemma f64_parts: "x = push_bit 63 (of_bool (f64_sign x)) OR push_bit 52 (f64_exponent x) OR f64_mantissa x"
proof (rule bit_word_eqI)
  fix n assume "n < LENGTH(64)"
  have m: "(0x7FF :: f64) = mask 11" "(0xFFFFFFFFFFFFF :: f64) = mask 52" by (simp_all add: mask_eq_exp_minus_1)
  show "bit x n = bit (push_bit 63 (of_bool (f64_sign x)) OR push_bit 52 (f64_exponent x) OR f64_mantissa x) n"
    using \<open>n < LENGTH(64)\<close> unfolding f64_sign_def f64_exponent_def f64_mantissa_def m
    by (cases "n < 52"; cases "n = 63") (auto simp: bit_simps not_less)
qed

lemma f64_cases:
  "f64_is_infinite x \<longleftrightarrow> x = f64_INFINITY \<or> x = f64_NEG_INFINITY"
  "f64_is_infinite x \<Longrightarrow> f64_sign x \<longleftrightarrow> x = f64_NEG_INFINITY"
  "f64_is_zero x \<and> f64_sign x \<longleftrightarrow> x = f64_NEG_ZERO"
proof -
  have parts: "x = y" if "f64_sign x = f64_sign y" "f64_exponent x = f64_exponent y" "f64_mantissa x = f64_mantissa y" for x y
    using that f64_parts [of x] f64_parts [of y] by simp
  have c: "f64_exponent f64_INFINITY = 0x7FF" "f64_mantissa f64_INFINITY = 0" "\<not> f64_sign f64_INFINITY"
    "f64_exponent f64_NEG_INFINITY = 0x7FF" "f64_mantissa f64_NEG_INFINITY = 0" "f64_sign f64_NEG_INFINITY"
    "f64_exponent f64_NEG_ZERO = 0" "f64_mantissa f64_NEG_ZERO = 0" "f64_sign f64_NEG_ZERO"
    by code_simp+
  show "f64_is_infinite x \<longleftrightarrow> x = f64_INFINITY \<or> x = f64_NEG_INFINITY"
    using c parts unfolding f64_is_infinite_def by metis
  show "f64_is_infinite x \<Longrightarrow> f64_sign x \<longleftrightarrow> x = f64_NEG_INFINITY"
    using c parts unfolding f64_is_infinite_def by metis
  show "f64_is_zero x \<and> f64_sign x \<longleftrightarrow> x = f64_NEG_ZERO"
    using c parts unfolding f64_is_zero_def by metis
qed

lemma f64_not_finite: "\<not> f64_is_finite x \<longleftrightarrow> f64_is_infinite x \<or> f64_is_nan x"
  by (auto simp: f64_is_finite_def f64_is_infinite_def f64_is_nan_def)

interpretation jer_real: jer_codec "jer_encode_real J f64_ops" "jer_decode_real J f64_ops" "jer_real_json J"
  "provided (json_documented J) jer_real_ok" for J
proof (rule jer_codecI [OF _ _ jer_decode_real_def])
  fix x assume "provided (json_documented J) jer_real_ok x"
  then have J: "json_documented J" and x: "f64_is_nan x \<Longrightarrow> x = f64_NAN" by (simp_all add: provided_def jer_real_ok_def)
  have n: "\<exists>n. jn_from_f64 J x = Some n \<and> jn_as_f64 J n = Some x" if "\<not> f64_is_infinite x" "\<not> f64_is_nan x"
    using that f64_not_finite json_documentedD(3) [OF J] by blast
  have d: "f64_INFINITY \<noteq> f64_NEG_INFINITY" "\<not> f64_is_nan f64_INFINITY" "\<not> f64_is_nan f64_NEG_INFINITY"
    by code_simp+
  show "jer_encode_real J f64_ops x = update_root_or_constructed (jer_real_json J x)"
    using n d f64_cases [of x] by (auto simp: jer_encode_real_def jer_real_json_def f64_ops_def fun_eq_iff)
  show "real_from_value J f64_ops (jer_real_json J x) = Ok x"
    using n x d f64_cases(1) [of x]
    by (auto simp: real_from_value_def jer_real_json_def f64_ops_def as_f64_def type_mismatch_def)
qed

subsection \<open>ENUMERATED\<close>

definition jer_enumerated_ok :: "'e named_enumerated \<Rightarrow> 'e \<Rightarrow> bool" where
  "jer_enumerated_ok E v \<longleftrightarrow> distinct (ne_IDENTIFIERS E) \<and>
    (let n = variance (ne_enumerated E) + extended_variance (ne_enumerated E) in
     length (ne_IDENTIFIERS E) = n) \<and>
    (v \<in> set (en_VARIANTS (ne_enumerated E)) \<or> is_extended_variant (ne_enumerated E) v)"

lemma position_distinct:
  "distinct xs \<Longrightarrow> i < length xs \<Longrightarrow> position (\<lambda>y. y = xs ! i) xs = Some i"
  by (induction xs arbitrary: i) (auto simp: nth_Cons' dest: nth_mem)

lemma position_index: "position p xs = Some i \<Longrightarrow> i < length xs \<and> p (xs ! i)"
  by (induction xs arbitrary: i) (auto split: if_splits)

lemma position_mem: "x \<in> set xs \<Longrightarrow> \<exists>i. position (\<lambda>y. y = x) xs = Some i"
  by (induction xs) auto

lemma variant_identifier_roundtrip:
  assumes "jer_enumerated_ok E v"
  shows "\<exists>s. variant_identifier E v = Some s \<and> from_identifier E s = Some v"
proof -
  let ?B = "ne_enumerated E" and ?I = "ne_IDENTIFIERS E"
  have I: "distinct ?I" "length ?I = variance ?B + extended_variance ?B"
    using assms by (simp_all add: jer_enumerated_ok_def Let_def)
  have named: "from_identifier E (?I ! i) =
      (if i < variance ?B then from_enumeration_index ?B i else from_extended_enumeration_index ?B (i - variance ?B))"
    if "i < length ?I" for i
    using position_distinct [OF I(1) that] by (simp add: from_identifier_def)
  show ?thesis
  proof (cases "is_extended_variant ?B v")
    case True
    then obtain vs where vs: "en_EXTENDED_VARIANTS ?B = Some vs" "v \<in> set vs"
      by (auto simp: is_extended_variant_def List.member_iff split: option.splits)
    then obtain i where i: "position (\<lambda>y. y = v) vs = Some i" using position_mem by metis
    then have "i < length vs" "vs ! i = v" using position_index [OF i] by simp_all
    then show ?thesis using True vs i I(2) named [of "i + variance ?B"]
      by (simp add: variant_identifier_def enumeration_index_def extended_variance_def get_def
          from_extended_enumeration_index_def)
  next
    case False
    then have v: "v \<in> set (en_VARIANTS ?B)" using assms by (simp add: jer_enumerated_ok_def)
    then obtain i where i: "position (\<lambda>y. y = v) (en_VARIANTS ?B) = Some i" using position_mem by metis
    then have "i < length (en_VARIANTS ?B)" "en_VARIANTS ?B ! i = v" using position_index [OF i] by simp_all
    then show ?thesis using False i I(2) named [of i]
      by (simp add: variant_identifier_def enumeration_index_def variance_def get_def from_enumeration_index_def)
  qed
qed

definition jer_enumerated_json :: "'e named_enumerated \<Rightarrow> 'e \<Rightarrow> 'n json" where
  "jer_enumerated_json E v = JString (the (variant_identifier E v))"

interpretation jer_enumerated: jer_codec "jer_encode_enumerated E" "jer_decode_enumerated E" "jer_enumerated_json E"
  "jer_enumerated_ok E" for E
  by (rule jer_codecI [OF _ _ jer_decode_enumerated_def]; drule variant_identifier_roundtrip)
    (auto simp: jer_encode_enumerated_def jer_enumerated_json_def enumerated_from_value_def type_mismatch_def fun_eq_iff)

subsection \<open>OBJECT IDENTIFIER\<close>

lemma parse_arcs_decimal: "parse_arcs (map (\<lambda>arc. decimal (unat arc)) v) = Some v"
  by (induction v) simp_all

interpretation jer_oid: jer_codec jer_encode_object_identifier jer_decode_object_identifier
  "\<lambda>v. JString (oid_text v)" is_valid_oid
proof (rule jer_codecI [OF _ _ jer_decode_object_identifier_def])
  fix v :: "u32 list" assume v: "is_valid_oid v"
  have "CHR ''.'' \<notin> set (decimal (unat arc))" for arc :: u32
    using decimal_chars [of "CHR ''.''" "unat arc"] by auto
  then have "split_on CHR ''.'' (oid_text v) = map (\<lambda>arc. decimal (unat arc)) v"
    unfolding oid_text_def using v by (intro split_on_join) (auto simp: is_valid_oid_def)
  then show "object_identifier_from_value (JString (oid_text v)) = Ok v"
    using v by (simp add: object_identifier_from_value_def type_mismatch_def parse_arcs_decimal object_identifier_new_def)
qed (simp add: jer_encode_object_identifier_def)

subsection \<open>BIT STRING\<close>

text \<open>The bits of a type of fixed size have this size.\<close>

definition jer_bits_ok :: "constraints \<Rightarrow> bool list \<Rightarrow> bool" where
  "jer_bits_ok cs v \<longleftrightarrow> int (length v) < 2 ^ 60 \<and> (case fixed_bits_size cs of Some n \<Rightarrow> n = int (length v) | None \<Rightarrow> True)"

lemma fixed_bits_size_iff: "has_fixed_size cs \<longleftrightarrow> fixed_bits_size cs \<noteq> None"
  by (auto simp: has_fixed_size_def fixed_bits_size_def is_fixed_def split: option.splits bounded.splits)

lemma butlast_power: "(butlast ^^ n) xs = take (length xs - n) xs"
  by (induction n) (simp_all add: butlast_take)

lemma padded_length: "8 * ((n + 7) div 8) - (if n mod 8 = 0 then 0 else 8 - n mod 8) = (n::nat)"
proof -
  have n: "n = 8 * (n div 8) + n mod 8" by simp
  have "(n + 7) div 8 = n div 8 + (n mod 8 + 7) div 8"
    using div_mult_self4 [of 8 "n div 8" "n mod 8 + 7"] by (simp add: add.assoc [symmetric])
  moreover have "(n mod 8 + 7) div 8 = (if n mod 8 = 0 then 0 else 1)"
    using mod_less_divisor [of 8 n] by (auto intro!: div_nat_eqI)
  ultimately show ?thesis using n mod_less_divisor [of 8 n] by (simp add: algebra_simps split: if_splits)
qed

lemma strip_padding_raw:
  assumes "bits_documented B"
  shows "strip_padding (bv_from_slice B (bv_raw B v), length v) = Ok v"
proof -
  note B = bits_documentedD [OF assms]
  let ?p = "if length v mod 8 = 0 then 0 else 8 - length v mod 8"
  have "8 * ((length v + 7) div 8) - ?p = length v" by (rule padded_length)
  then have "length (bv_from_slice B (bv_raw B v)) - ?p = length v" by (simp only: B(2,5))
  then have "(butlast ^^ ?p) (bv_from_slice B (bv_raw B v)) = v" by (simp only: butlast_power B(6))
  then show ?thesis unfolding strip_padding_def by (simp only: Let_def prod.case refl if_True)
qed

interpretation jer_bits: jer_codec "jer_encode_bit_string J cs" "jer_decode_bit_string J cs" "bit_string_value J cs"
  "provided (json_documented J) (jer_bits_ok cs)" for J cs
proof
  fix v and e :: "'a jer_encoder" assume "ready e"
  then show "jer_encode_bit_string J cs v e = Some (Ok (put_json (bit_string_value J cs v) e))"
    by (simp add: jer_encode_bit_string_def update_put_json)
next
  fix v and d :: "'a jer_decoder" and st
  assume v: "provided (json_documented J) (jer_bits_ok cs) v"
    and d: "jd_stack d = Some (bit_string_value J cs v) # st"
  then have J: "json_documented J" and len: "length v < 2 ^ 60" by (simp_all add: provided_def jer_bits_ok_def)
  note B = json_documentedD(4) [OF J]
  let ?raw = "bv_raw (jn_bits J) v"
  have "8 * length ?raw < 2 ^ 61" using len by (simp add: bits_documentedD(5) [OF B])
  then have t: "jn_try_from_vec J ?raw = Some (bv_from_slice (jn_bits J) ?raw)" by (rule json_documentedD(5) [OF J])
  have s: "strip_padding (bv_from_slice (jn_bits J) ?raw, length v) = Ok v" by (rule strip_padding_raw [OF B])
  have u: "jn_as_u64 J (jn_from_usize J (length v)) = Some (length v)"
    using len by (intro json_documentedD(2) [OF J]) (simp add: usize_MAX_def)
  show "jer_decode_bit_string J cs d = Some (Ok (v, d\<lparr>jd_stack := st\<rparr>))"
  proof (cases "fixed_bits_size cs")
    case None
    then have "bit_string_value J cs v =
        JObject [(''length'', JNumber (jn_from_usize J (length v))), (''value'', JString (hexstring ?raw))]"
      by (simp add: bit_string_value_def fixed_bits_size_iff Let_def)
    then show ?thesis using None d t s u
      by (simp add: jer_decode_bit_string_def sized_bits_def jbind_def jlift_def pop_value_def type_mismatch_def)
  next
    case (Some n)
    then have "n = int (length v)" using v by (simp add: provided_def jer_bits_ok_def)
    moreover have "bit_string_value J cs v = JString (hexstring ?raw)"
      using Some by (simp add: bit_string_value_def fixed_bits_size_iff)
    ultimately show ?thesis using Some d t s
      by (simp add: jer_decode_bit_string_def decode_jer_value_def jbind_def jlift_def pop_value_def
          octet_string_from_value_def type_mismatch_def)
  qed
qed

end
