(* ===== verification/Character_Strings.thy ===== *)
theory Character_Strings
  imports Restricted_Strings
begin

text \<open>
  The octets of a restricted character string and \<open>try_from_slice\<close>: every string over the character set of
  its type is read back from its octets, whatever the size of its characters, and only such strings are read.
\<close>

definition string_ok :: "character_set_name \<Rightarrow> u32 list \<Rightarrow> bool" where
  "string_ok S v \<longleftrightarrow> list_all (\<lambda>ch. contains_char S ch \<and> uint ch < 2 ^ (8 * char_size S)) v"

lemma char_size_cases: "char_size S \<in> {1, 2, 4}"
  by (cases S) simp_all

lemma chunks_fuel_concat:
  "0 < n \<Longrightarrow> \<forall>c \<in> set cs. length c = n \<Longrightarrow> length cs \<le> k \<Longrightarrow> chunks_fuel k n (concat cs) = cs"
proof (induction k arbitrary: cs)
  case (Suc k)
  then show ?case by (cases cs) simp_all
qed simp

lemma length_string_bytes [simp]: "length (string_bytes S v) = char_size S * length v"
  by (induction v) (simp_all add: string_bytes_def)

lemma check_chunks_char:
  assumes "list_all (\<lambda>ch. contains_char S ch \<and> uint ch < 2 ^ (8 * char_size S)) v" "width \<noteq> 3"
  shows "check_chunks S width (map (\<lambda>ch. be_bytes (char_size S) (uint ch)) v) vec = Ok (vec @ v)"
  using assms
proof (induction v arbitrary: vec)
  case (Cons ch v)
  have "be_val (be_bytes (char_size S) (uint ch)) = uint ch"
    using Cons.prems(1) by (simp add: be_val_be_bytes pow256)
  then have "process_chunk S width (be_bytes (char_size S) (uint ch)) = Some ch"
    using Cons.prems by (simp add: process_chunk_def)
  then show ?case using Cons by simp
qed simp

lemma try_from_slice_string_bytes:
  assumes "string_ok S v"
  shows "try_from_slice S (string_bytes S v) = Some (Ok v)"
proof -
  let ?n = "char_size S" and ?cs = "map (\<lambda>ch. be_bytes (char_size S) (uint ch)) v"
  have n: "0 < ?n" "?n \<le> 4" "?n \<noteq> 3" using char_size_cases [of S] by auto
  have "chunks_fuel (length (string_bytes S v)) ?n (concat ?cs) = ?cs"
    using n(1) by (intro chunks_fuel_concat) simp_all
  then have "chunks_exact ?n (string_bytes S v) = Some ?cs"
    using n(1) by (simp add: chunks_exact_def string_bytes_def)
  then show ?thesis
    using n assms check_chunks_char [of S v ?n "[]"]
    by (simp add: try_from_slice_def try_from_slice_with_width_def string_ok_def)
qed

text \<open>A string of characters of one octet is the string of its octets.\<close>

lemma be_bytes_1 [simp]: "be_bytes (Suc 0) v = [word_of_int v]"
  by simp

lemma check_chunks_Ok:
  "check_chunks S width cs vec = Ok v \<Longrightarrow> width = char_size S \<Longrightarrow> \<forall>c \<in> set cs. length c = width \<Longrightarrow>
    \<exists>w. v = vec @ w \<and> string_ok S w \<and> map (\<lambda>ch. be_bytes width (uint ch)) w = cs"
proof (induction cs arbitrary: vec)
  case (Cons c cs)
  have w: "width \<noteq> 3" "length c = width" using Cons.prems(2,3) char_size_cases [of S] by auto
  have r: "be_val c < 2 ^ (8 * width)" using be_val_less [of c] w by (simp add: pow256)
  have "(2 :: int) ^ (8 * width) \<le> 2 ^ 32" using char_size_cases [of S] Cons.prems(2) by auto
  then have u: "uint (word_of_int (be_val c) :: u32) = be_val c"
    using r be_val_nonneg [of c] by (simp add: uint_word_of_int)
  have p: "process_chunk S width c = Some (word_of_int (be_val c))"
    using w r Cons.prems(2) by (simp add: process_chunk_def)
  then have k: "contains_char S (word_of_int (be_val c))" using Cons.prems(1) by (simp split: if_splits)
  then have "check_chunks S width cs (vec @ [word_of_int (be_val c)]) = Ok v" using Cons.prems(1) p by simp
  from Cons.IH [OF this Cons.prems(2)] Cons.prems(3) obtain w' where
    w': "v = (vec @ [word_of_int (be_val c)]) @ w'" "string_ok S w'" "map (\<lambda>ch. be_bytes width (uint ch)) w' = cs"
    by auto
  have "be_bytes width (be_val c) = c" using w(2) by (metis be_bytes_be_val)
  then show ?case using w' u k r Cons.prems(2)
    by (intro exI [of _ "word_of_int (be_val c) # w'"]) (simp add: string_ok_def)
qed (simp add: string_ok_def)

lemma chunks_fuel_parts:
  "0 < n \<Longrightarrow> length xs = n * m \<Longrightarrow> m \<le> k \<Longrightarrow>
    concat (chunks_fuel k n xs) = xs \<and> (\<forall>c \<in> set (chunks_fuel k n xs). length c = n)"
proof (induction k arbitrary: xs m)
  case (Suc k)
  show ?case
  proof (cases m)
    case (Suc m')
    then have "length (drop n xs) = n * m'" using Suc.prems by simp
    then show ?thesis using Suc.IH [of "drop n xs" m'] Suc.prems \<open>m = Suc m'\<close> by auto
  qed (use Suc.prems in simp)
qed simp

lemma try_from_slice_accepts:
  assumes "try_from_slice S bs = Some (Ok v)"
  shows "string_ok S v \<and> string_bytes S v = bs"
proof -
  let ?n = "char_size S"
  have n: "0 < ?n" using char_size_cases [of S] by auto
  have m: "length bs mod ?n = 0" and
    c: "check_chunks S ?n (chunks_fuel (length bs) ?n bs) [] = Ok v"
    using assms n by (simp_all add: try_from_slice_def try_from_slice_with_width_def chunks_exact_def split: if_splits)
  have l: "length bs = ?n * (length bs div ?n)" using m by (metis add.right_neutral mult_div_mod_eq)
  have p: "concat (chunks_fuel (length bs) ?n bs) = bs" "\<forall>c \<in> set (chunks_fuel (length bs) ?n bs). length c = ?n"
    using chunks_fuel_parts [OF n l, of "length bs"] by (simp_all add: div_le_dividend)
  from check_chunks_Ok [OF c refl p(2)] p(1) show ?thesis by (auto simp: string_bytes_def)
qed

text \<open>C24: A restricted character string is read from octets exactly when they are the octets of a string over the
  character set of its type, each character in as many octets as the type has, and no other string is read.\<close>

theorem try_from_slice_exact:
  "try_from_slice S bs = Some (Ok v) \<longleftrightarrow> string_ok S v \<and> string_bytes S v = bs"
  using try_from_slice_accepts [of S bs v] try_from_slice_string_bytes [of S v] by blast

end
