(* ===== verification/Jer_Composite.thy ===== *)
theory Jer_Composite
  imports Jer_Codec Character_Strings
begin

text \<open>
  The types that keep the contract of JER when their parts do: character strings, SEQUENCE OF, SET OF,
  SEQUENCE and SET over any list of required and optional components with different names, and CHOICE over any
  list of variants whose names differ in more than the case of their letters.
\<close>

section \<open>Character strings\<close>

definition jer_string_json :: "character_set_name \<Rightarrow> u32 list \<Rightarrow> 'n json" where
  "jer_string_json S v = JString (utf8_chars (string_bytes S v))"

definition jer_string_ok :: "character_set_name \<Rightarrow> u32 list \<Rightarrow> bool" where
  "jer_string_ok S v \<longleftrightarrow> string_ok S v \<and> is_utf8 (string_bytes S v)"

interpretation jer_restricted: jer_codec "\<lambda>v. text_value (string_bytes S v)" "jer_decode_restricted S t"
  "jer_string_json S" "jer_string_ok S" for S t
proof
  fix v and e :: "'a jer_encoder" assume "jer_string_ok S v" "ready e"
  then show "text_value (string_bytes S v) e = Some (Ok (put_json (jer_string_json S v) e))"
    by (simp add: text_value_def from_utf8_def jer_string_ok_def jer_string_json_def update_put_json)
next
  fix v and d :: "'a jer_decoder" and st
  assume "jer_string_ok S v" "jd_stack d = Some (jer_string_json S v) # st"
  then show "jer_decode_restricted S t d = Some (Ok (v, d\<lparr>jd_stack := st\<rparr>))"
    by (simp add: jer_decode_restricted_def decode_jer_value_def jbind_def jlift_def pop_value_def
        string_from_value_def type_mismatch_def jer_string_json_def jer_string_ok_def try_from_slice_string_bytes
        del: map_map)
qed

text \<open>The character sets within ASCII: every string is also UTF-8.\<close>

definition ascii_set :: "character_set_name \<Rightarrow> bool" where
  "ascii_set S \<longleftrightarrow> S \<in> {Visible, IA5, Printable, Numeric}"

lemma ascii_set_chars: "ascii_set S \<Longrightarrow> contains_char S ch \<Longrightarrow> uint ch < 128"
proof -
  assume S: "ascii_set S" and c: "contains_char S ch"
  have "list_all (\<lambda>ch. ch < 128) (CHARACTER_SET S)"
    using S unfolding ascii_set_def by (elim insertE emptyE) (simp; code_simp)+
  moreover have "ch \<in> set (CHARACTER_SET S)" using S c by (auto simp: contains_char_def ascii_set_def List.member_iff)
  ultimately have "ch < 128" by (simp add: list_all_iff)
  then show ?thesis by (simp add: word_less_def)
qed

lemma ascii_string_ok: "ascii_set S \<Longrightarrow> list_all (contains_char S) v \<Longrightarrow> jer_string_ok S v"
proof -
  assume S: "ascii_set S" and v: "list_all (contains_char S) v"
  have n: "char_size S = 1" using S by (auto simp: ascii_set_def)
  have u: "uint ch < 128" if "ch \<in> set v" for ch using v ascii_set_chars [OF S] that by (auto simp: list_all_iff)
  have "string_ok S v" unfolding string_ok_def list_all_iff using u v n by (fastforce simp: list_all_iff)
  moreover have "(word_of_int (uint ch) :: u8) < 0x80" if "ch \<in> set v" for ch
    using u [OF that] zmod_le_nonneg_dividend [of "uint ch" 256]
    by (simp add: word_less_def unsigned_ucast_eq take_bit_eq_mod)
  then have "is_utf8 (string_bytes S v)"
    using n by (intro is_utf8_ascii) (auto simp: list_all_iff string_bytes_def)
  ultimately show ?thesis by (simp add: jer_string_ok_def)
qed

section \<open>SEQUENCE OF and SET OF\<close>

context jer_codec
begin

lemma sequence_of_codec:
  "jer_codec (\<lambda>vs. jer_encode_sequence_of (map enc vs)) (jer_decode_sequence_of dec)
    (\<lambda>vs. JArray (map json vs)) (list_all wf)"
proof
  fix vs and e :: "'n jer_encoder" assume "list_all wf vs" "ready e"
  then show "jer_encode_sequence_of (map enc vs) e = Some (Ok (put_json (JArray (map json vs)) e))"
    by (simp add: jer_encode_sequence_of_def encode_items_json update_put_json)
next
  fix vs and d :: "'n jer_decoder" and st
  assume "list_all wf vs" "jd_stack d = Some (JArray (map json vs)) # st"
  then show "jer_decode_sequence_of dec d = Some (Ok (vs, d\<lparr>jd_stack := st\<rparr>))"
    by (simp add: jer_decode_sequence_of_def jbind_def pop_value_def jlift_def type_mismatch_def items_loop_json)
qed

text \<open>The elements of a SET OF are written in the order \<open>to_vec\<close> gives them.\<close>

lemma set_of_codec:
  assumes "\<And>M. mset (to_vec M) = M"
  shows "jer_codec (\<lambda>M. jer_encode_set_of (map enc (to_vec M))) (jer_decode_set_of dec)
    (\<lambda>M. JArray (map json (to_vec M))) (\<lambda>M. \<forall>v \<in># M. wf v)"
proof
  fix M and e :: "'n jer_encoder" assume M: "\<forall>v \<in># M. wf v" "ready e"
  have "set (to_vec M) = set_mset M" by (metis assms set_mset_mset)
  then have "list_all wf (to_vec M)" using M by (simp add: list_all_iff)
  then show "jer_encode_set_of (map enc (to_vec M)) e = Some (Ok (put_json (JArray (map json (to_vec M))) e))"
    using M by (simp add: jer_encode_set_of_def encode_items_json update_put_json)
next
  fix M and d :: "'n jer_decoder" and st
  assume M: "\<forall>v \<in># M. wf v" and d: "jd_stack d = Some (JArray (map json (to_vec M))) # st"
  have "set (to_vec M) = set_mset M" by (metis assms set_mset_mset)
  then have "list_all wf (to_vec M)" using M by (simp add: list_all_iff)
  from jer_codec.dec_json [OF sequence_of_codec this d] show "jer_decode_set_of dec d = Some (Ok (M, d\<lparr>jd_stack := st\<rparr>))"
    by (simp add: jer_decode_set_of_def jbind_def jret_def assms)
qed

end

section \<open>SEQUENCE\<close>

record ('n, 'v) jer_component =
  jc_field :: field
  jc_enc :: "'v \<Rightarrow> 'n jer_encode_fn"
  jc_dec :: "('n, 'v) jer_decode_fn"
  jc_json :: "'v \<Rightarrow> 'n json"
  jc_wf :: "'v \<Rightarrow> bool"

abbreviation jc_optional :: "('n, 'v) jer_component \<Rightarrow> bool" where
  "jc_optional k \<equiv> is_optional_or_default (jc_field k)"

abbreviation jc_name :: "('n, 'v) jer_component \<Rightarrow> string" where
  "jc_name k \<equiv> name (jc_field k)"

abbreviation jc_tag :: "('n, 'v) jer_component \<Rightarrow> tag" where
  "jc_tag k \<equiv> f_tag (jc_field k)"

text \<open>What the derived implementations do for a component.  An extension addition goes through
  \<open>encode_extension_addition\<close>, which is \<open>encode\<close>, and \<open>decode_extension_addition\<close>; an error is put_json
  under the name of the component.\<close>

definition jer_member_enc :: "('n, 'v) jer_component \<Rightarrow> 'v option \<Rightarrow> 'n jer_encode_fn" where
  "jer_member_enc k v =
    (case v of
       Some x \<Rightarrow> if jc_optional k then jer_encode_some (jc_enc k x) else jc_enc k x
     | None \<Rightarrow> if jc_optional k then jer_encode_none else (\<lambda>self. Some (Ok self)))"

fun jer_members_enc :: "('n, 'v) jer_component list \<Rightarrow> 'v option list \<Rightarrow> 'n jer_encode_fn" where
  "jer_members_enc (k # ks) (v # vs) self = pbind (jer_member_enc k v self) (jer_members_enc ks vs)"
| "jer_members_enc _ _ self = Some (Ok self)"

definition field_error :: "string \<Rightarrow> ('n, 'a) jer_decode_fn \<Rightarrow> ('n, 'a) jer_decode_fn" where
  "field_error nm decode self = map_option (map_err (\<lambda>e. DecodeError (FieldError nm e) Jer)) (decode self)"

definition jer_root_dec :: "('n, 'v) jer_component \<Rightarrow> ('n, 'v option) jer_decode_fn" where
  "jer_root_dec k =
    field_error (jc_name k)
      (if jc_optional k then jer_decode_optional (jc_dec k) else jbind (jc_dec k) (\<lambda>x. jret (Some x)))"

definition jer_addition_dec :: "('n, 'v) jer_component \<Rightarrow> ('n, 'v option) jer_decode_fn" where
  "jer_addition_dec k =
    jbind (field_error (jc_name k) (jer_decode_extension_addition (jc_dec k))) (\<lambda>v.
      if v = None \<and> \<not> jc_optional k
      then jlift (Err (DecodeError (FieldError (jc_name k) (DecodeError (RequiredExtensionNotPresent (jc_tag k)) Jer)) Jer))
      else jret v)"

fun jer_members_dec ::
    "(('n, 'v) jer_component \<Rightarrow> ('n, 'v option) jer_decode_fn) \<Rightarrow> ('n, 'v) jer_component list \<Rightarrow>
     ('n, 'v option list) jer_decode_fn" where
  "jer_members_dec dec [] = jret []"
| "jer_members_dec dec (k # ks) = jbind (dec k) (\<lambda>v. jbind (jer_members_dec dec ks) (\<lambda>vs. jret (v # vs)))"

definition jer_fields :: "('n, 'v) jer_component list \<Rightarrow> fields" where
  "jer_fields ks = from_static (map jc_field ks)"

definition jer_additions :: "('n, 'v) jer_component list \<Rightarrow> fields option" where
  "jer_additions xs = (if xs = [] then None else Some (jer_fields xs))"

definition jer_sequence_enc ::
    "('n, 'v) jer_component list \<Rightarrow> ('n, 'v) jer_component list \<Rightarrow> 'v option list \<Rightarrow> 'n jer_encode_fn" where
  "jer_sequence_enc ks xs vs =
    jer_encode_sequence (jer_fields ks) (jer_additions xs) (jer_members_enc (ks @ xs) vs)"

definition jer_sequence_dec ::
    "('n, 'v) jer_component list \<Rightarrow> ('n, 'v) jer_component list \<Rightarrow> ('n, 'v option list) jer_decode_fn" where
  "jer_sequence_dec ks xs =
    jer_decode_sequence (jer_fields ks) (jer_additions xs)
      (jbind (jer_members_dec jer_root_dec ks) (\<lambda>vs.
        jbind (jer_members_dec jer_addition_dec xs) (\<lambda>ws. jret (vs @ ws))))"

subsection \<open>The object of a SEQUENCE\<close>

fun jer_entries :: "('n, 'v) jer_component list \<Rightarrow> 'v option list \<Rightarrow> 'n value_map" where
  "jer_entries (k # ks) (v # vs) = (case v of Some x \<Rightarrow> [(jc_name k, jc_json k x)] | None \<Rightarrow> []) @ jer_entries ks vs"
| "jer_entries _ _ = []"

definition jer_object :: "('n, 'v) jer_component list \<Rightarrow> 'v option list \<Rightarrow> 'n json" where
  "jer_object ks vs = JObject (fold (\<lambda>(k, v). bt_insert k v) (jer_entries ks vs) [])"

lemma jer_object_insert_all: "jer_object ks vs = JObject (bt.insert_all (jer_entries ks vs))"
  by (simp add: jer_object_def bt.insert_all_def)

definition jer_member_ok :: "('n, 'v) jer_component \<Rightarrow> 'v option \<Rightarrow> bool" where
  "jer_member_ok k v \<longleftrightarrow> (case v of Some x \<Rightarrow> jc_wf k x | None \<Rightarrow> jc_optional k)"

definition jer_sequence_ok :: "('n, 'v) jer_component list \<Rightarrow> 'v option list \<Rightarrow> bool" where
  "jer_sequence_ok ks vs \<longleftrightarrow> distinct (map jc_name ks) \<and> list_all2 jer_member_ok ks vs"

lemma fields_list_from_static [simp]: "fields_list (from_static fs) = fs"
  by (simp add: from_static_def split: prod.split)

lemma field_names_jer [simp]: "field_names (jer_fields ks) (jer_additions xs) = map jc_name (ks @ xs)"
  by (simp add: field_names_def jer_fields_def jer_additions_def comp_def)

lemma push_names: "fold (\<lambda>nm st. nm # st) (rev names) st = names @ st"
  by (induction names) simp_all

lemma keys_jer_entries: "fst ` set (jer_entries ks vs) \<subseteq> set (map jc_name ks)"
  by (induction ks vs rule: jer_entries.induct) (auto split: option.splits)

lemma distinct_jer_entries: "distinct (map jc_name ks) \<Longrightarrow> distinct (map fst (jer_entries ks vs))"
proof (induction ks vs rule: jer_entries.induct)
  case (1 k ks v vs)
  then show ?case using keys_jer_entries [of ks vs] by (auto split: option.splits)
qed simp_all

lemma lookup_jer_entries:
  "distinct (map jc_name ks) \<Longrightarrow> length vs = length ks \<Longrightarrow>
    map (map_of (jer_entries ks vs)) (map jc_name ks) = map2 (\<lambda>k v. map_option (jc_json k) v) ks vs"
proof (induction ks vs rule: jer_entries.induct)
  case (1 k ks v vs)
  let ?es = "jer_entries ks vs"
  have "jc_name k \<notin> fst ` set ?es" using keys_jer_entries [of ks vs] 1 by auto
  then have k: "map_of ?es (jc_name k) = None" by (simp add: map_of_eq_None_iff)
  let ?all = "jer_entries (k # ks) (v # vs)"
  have "map (map_of ?all) (map jc_name ks) = map (map_of ?es) (map jc_name ks)"
    by (rule map_cong [OF refl]) (use 1 in \<open>fastforce simp: image_iff split: option.splits\<close>)
  moreover have "map_of ?all (jc_name k) = map_option (jc_json k) v" using k by (cases v) simp_all
  ultimately show ?case using 1 by (simp only: list.map zip_Cons_Cons prod.case) simp
qed simp_all

lemma lookup_jer_object:
  assumes "distinct (map jc_name ks)" "length vs = length ks"
  shows "map (map_of (bt.insert_all (jer_entries ks vs))) (map jc_name ks) =
    map2 (\<lambda>k v. map_option (jc_json k) v) ks vs"
proof -
  have "map_of (rev (jer_entries ks vs)) = map_of (jer_entries ks vs)"
    using distinct_jer_entries [OF assms(1), of vs]
    by (intro map_of_inject_set [THEN iffD2]) (simp_all add: rev_map [symmetric])
  then show ?thesis using lookup_jer_entries [OF assms] by (simp add: bt.lookup_insert_all)
qed

text \<open>Taking components with different names off an object one after the other looks each of them up.\<close>

lemma map_of_filter_key: "n \<noteq> nm \<Longrightarrow> map_of (filter (\<lambda>e. fst e \<noteq> nm) m) n = map_of m n"
  by (induction m) auto

lemma remove_all:
  "distinct names \<Longrightarrow>
    snd (fold (\<lambda>nm (m, st). let (v, m) = bt_remove nm m in (m, v # st)) names (m, st)) =
      map (map_of m) (rev names) @ st"
proof (induction names arbitrary: m st)
  case (Cons nm names)
  let ?m = "filter (\<lambda>e. fst e \<noteq> nm) m"
  have "map (map_of ?m) (rev names) = map (map_of m) (rev names)"
    using Cons.prems by (intro map_cong [OF refl] map_of_filter_key) auto
  then show ?case using Cons by (simp add: bt_remove_def)
qed simp

lemma decode_sequence_object:
  assumes "distinct (field_names FIELDS EXTENDED)" "jd_stack d = Some (JObject m) # st"
  shows "jer_decode_sequence FIELDS EXTENDED decode_fn d =
    decode_fn (d\<lparr>jd_stack := map (map_of m) (field_names FIELDS EXTENDED) @ st\<rparr>)"
  using assms remove_all [of "rev (field_names FIELDS EXTENDED)" m st]
  by (simp add: jer_decode_sequence_def jbind_def pop_value_def type_mismatch_def case_prod_unfold)

lemma decode_sequence_value:
  assumes "distinct (field_names FIELDS EXTENDED)"
  shows "jer_decode_value (jer_decode_sequence FIELDS EXTENDED decode_fn) (JObject m) =
    pbind (decode_fn \<lparr>jd_stack = map (map_of m) (field_names FIELDS EXTENDED)\<rparr>) (\<lambda>(x, self). Some (Ok x))"
  by (simp add: jer_decode_value_def jer_decoder_of_value_def decode_sequence_object [OF assms])

text \<open>The contract of the components.\<close>

locale jer_components =
  fixes ks :: "('n, 'v) jer_component list"
  assumes codecs: "k \<in> set ks \<Longrightarrow> jer_codec (jc_enc k) (jc_dec k) (jc_json k) (jc_wf k)"

lemma jer_members_enc_entries:
  assumes "jer_components ks" "list_all2 jer_member_ok ks vs" "j_stack e = map jc_name ks @ st"
    "j_constructed_stack e = m # ms"
  shows "jer_members_enc ks vs e =
    Some (Ok (e\<lparr>j_stack := st, j_constructed_stack := fold (\<lambda>(k, v). bt_insert k v) (jer_entries ks vs) m # ms\<rparr>))"
  using assms
proof (induction ks vs arbitrary: e m rule: jer_entries.induct)
  case (1 k ks v vs)
  have ks: "jer_components ks" "list_all2 jer_member_ok ks vs"
    using 1(2,3) by (auto simp: jer_components_def)
  show ?case
  proof (cases v)
    case None
    then have "jc_optional k" using 1(3) by (simp add: jer_member_ok_def)
    then have "jer_member_enc k v e = Some (Ok (e\<lparr>j_stack := map jc_name ks @ st\<rparr>))"
      using None 1(4) by (simp add: jer_member_enc_def jer_encode_none_def)
    then show ?thesis
      using None 1(1) [OF ks, of "e\<lparr>j_stack := map jc_name ks @ st\<rparr>" m] 1(5) by simp
  next
    case (Some x)
    then have x: "jc_wf k x" using 1(3) by (simp add: jer_member_ok_def)
    have "jer_codec (jc_enc k) (jc_dec k) (jc_json k) (jc_wf k)" using 1(2) by (simp add: jer_components_def)
    moreover have "ready e" using 1(5) by (simp add: ready_def)
    ultimately have "jc_enc k x e = Some (Ok (put_json (jc_json k x) e))" using x by (intro jer_codec.enc_json)
    then have "jer_member_enc k v e = Some (Ok (e\<lparr>j_stack := map jc_name ks @ st,
        j_constructed_stack := bt_insert (jc_name k) (jc_json k x) m # ms\<rparr>))"
      using Some 1(4,5) by (simp add: jer_member_enc_def jer_encode_some_def put_json_def)
    then show ?thesis using Some 1(1) [OF ks, of "e\<lparr>j_stack := map jc_name ks @ st,
        j_constructed_stack := bt_insert (jc_name k) (jc_json k x) m # ms\<rparr>" "bt_insert (jc_name k) (jc_json k x) m"]
      by simp
  qed
qed (auto intro: jer_encoder.equality)

lemma jer_member_dec:
  assumes "jer_codec (jc_enc k) (jc_dec k) (jc_json k) (jc_wf k)" "jer_member_ok k v"
    "jd_stack d = map_option (jc_json k) v # st"
  shows "jer_root_dec k d = Some (Ok (v, d\<lparr>jd_stack := st\<rparr>))"
    "jer_addition_dec k d = Some (Ok (v, d\<lparr>jd_stack := st\<rparr>))"
proof -
  show "jer_root_dec k d = Some (Ok (v, d\<lparr>jd_stack := st\<rparr>))"
    using assms(2,3) jer_codec.dec_json [OF assms(1)] jer_codec.decode_optional_json [OF assms(1)]
    by (cases v) (auto simp: jer_root_dec_def field_error_def jer_member_ok_def decode_optional_absent jbind_def jret_def)
  show "jer_addition_dec k d = Some (Ok (v, d\<lparr>jd_stack := st\<rparr>))"
    using assms(2,3) jer_codec.decode_optional_json [OF assms(1)]
    by (cases v) (auto simp: jer_addition_dec_def jer_decode_extension_addition_def field_error_def jer_member_ok_def
        decode_optional_absent jbind_def jret_def)
qed

lemma jer_members_dec_entries:
  assumes "jer_components ks" "list_all2 jer_member_ok ks vs" "dec \<in> {jer_root_dec, jer_addition_dec}"
    "jd_stack d = map2 (\<lambda>k v. map_option (jc_json k) v) ks vs @ st"
  shows "jer_members_dec dec ks d = Some (Ok (vs, d\<lparr>jd_stack := st\<rparr>))"
  using assms
proof (induction ks vs arbitrary: d rule: jer_entries.induct)
  case (1 k ks v vs)
  let ?st = "map2 (\<lambda>k v. map_option (jc_json k) v) ks vs @ st"
  have ks: "jer_components ks" "list_all2 jer_member_ok ks vs" using 1(2,3) by (auto simp: jer_components_def)
  have "jer_codec (jc_enc k) (jc_dec k) (jc_json k) (jc_wf k)" using 1(2) by (simp add: jer_components_def)
  then have "dec k d = Some (Ok (v, d\<lparr>jd_stack := ?st\<rparr>))"
    using jer_member_dec [of k v d ?st] 1(3,4,5) by auto
  then show ?case using 1(1) [OF ks 1(4), of "d\<lparr>jd_stack := ?st\<rparr>"] by (simp add: jbind_def jret_def)
qed (auto simp: jret_def)

lemma jer_sequence_codec:
  assumes "jer_components (ks @ xs)"
  shows "jer_codec (jer_sequence_enc ks xs) (jer_sequence_dec ks xs) (jer_object (ks @ xs)) (jer_sequence_ok (ks @ xs))"
proof
  fix vs and e :: "'a jer_encoder"
  assume v: "jer_sequence_ok (ks @ xs) vs" and e: "ready e"
  define e' where "e' = e\<lparr>j_stack := map jc_name (ks @ xs) @ j_stack e,
    j_constructed_stack := [] # j_constructed_stack e\<rparr>"
  have "jer_members_enc (ks @ xs) vs e' =
      Some (Ok (e'\<lparr>j_stack := j_stack e, j_constructed_stack :=
        fold (\<lambda>(k, v). bt_insert k v) (jer_entries (ks @ xs) vs) [] # j_constructed_stack e\<rparr>))"
    using v by (intro jer_members_enc_entries [OF assms]) (simp_all add: e'_def jer_sequence_ok_def)
  then show "jer_sequence_enc ks xs vs e = Some (Ok (put_json (jer_object (ks @ xs) vs) e))"
    using e update_put_json [OF e]
    by (simp add: jer_sequence_enc_def jer_encode_sequence_def push_names finish_object_def e'_def jer_object_def)
next
  fix vs and d :: "'a jer_decoder" and st
  assume v: "jer_sequence_ok (ks @ xs) vs" and d: "jd_stack d = Some (jer_object (ks @ xs) vs) # st"
  have dist: "distinct (map jc_name (ks @ xs))" and ok: "list_all2 jer_member_ok (ks @ xs) vs"
    using v by (simp_all add: jer_sequence_ok_def)
  then obtain us ws where uw: "vs = us @ ws" "list_all2 jer_member_ok ks us" "list_all2 jer_member_ok xs ws"
    by (auto simp: list_all2_append1)
  let ?m = "bt.insert_all (jer_entries (ks @ xs) vs)"
  let ?stack = "map2 (\<lambda>k v. map_option (jc_json k) v) ks us @ map2 (\<lambda>k v. map_option (jc_json k) v) xs ws @ st"
  have l: "length us = length ks" "length ws = length xs" using uw by (simp_all add: list_all2_lengthD)
  have "map (map_of ?m) (map jc_name (ks @ xs)) = map2 (\<lambda>k v. map_option (jc_json k) v) (ks @ xs) vs"
    using l by (intro lookup_jer_object [OF dist]) (simp add: uw)
  also have "\<dots> @ st = ?stack" using l by (simp add: uw)
  finally have stack: "map (map_of ?m) (map jc_name (ks @ xs)) @ st = ?stack" .
  have parts: "jer_components ks" "jer_components xs" using assms by (auto simp: jer_components_def)
  have "jer_members_dec jer_root_dec ks (d\<lparr>jd_stack := ?stack\<rparr>) =
      Some (Ok (us, d\<lparr>jd_stack := map2 (\<lambda>k v. map_option (jc_json k) v) xs ws @ st\<rparr>))"
    using jer_members_dec_entries [OF parts(1) uw(2), of jer_root_dec "d\<lparr>jd_stack := ?stack\<rparr>"] by simp
  moreover have "jer_members_dec jer_addition_dec xs (d\<lparr>jd_stack := map2 (\<lambda>k v. map_option (jc_json k) v) xs ws @ st\<rparr>) =
      Some (Ok (ws, d\<lparr>jd_stack := st\<rparr>))"
    using jer_members_dec_entries [OF parts(2) uw(3), of jer_addition_dec
        "d\<lparr>jd_stack := map2 (\<lambda>k v. map_option (jc_json k) v) xs ws @ st\<rparr>"] by simp
  moreover have "jer_sequence_dec ks xs d =
      jbind (jer_members_dec jer_root_dec ks) (\<lambda>vs. jbind (jer_members_dec jer_addition_dec xs) (\<lambda>ws. jret (vs @ ws)))
        (d\<lparr>jd_stack := ?stack\<rparr>)"
    unfolding jer_sequence_dec_def stack [symmetric] field_names_jer [symmetric]
    by (rule decode_sequence_object) (use dist d in \<open>simp_all add: jer_object_insert_all del: map_append\<close>)
  ultimately show "jer_sequence_dec ks xs d = Some (Ok (vs, d\<lparr>jd_stack := st\<rparr>))"
    by (simp add: jbind_def jret_def uw(1))
qed

end
