(* ===== verification/Jer_Set.thy ===== *)
theory Jer_Set
  imports Jer_Composite
begin

text \<open>
  A SET keeps the contract of JER: its object is that of a SEQUENCE, and the decoder, which takes the components
  in the order of their tags, puts every value back in the place of its component.
\<close>

section \<open>SET\<close>

text \<open>The derived implementation decodes a component of a SET into its index and its value and puts the
  values in their places afterwards.\<close>

definition jer_set_member ::
    "('n, 'v) jer_component list \<Rightarrow> ('n, 'v) jer_component list \<Rightarrow> nat \<Rightarrow> tag \<Rightarrow> ('n, nat \<times> 'v option) jer_decode_fn" where
  "jer_set_member ks xs i t =
    (if i < length (ks @ xs) \<and> t = jc_tag ((ks @ xs) ! i) then
       jbind (if i < length ks then (if jc_optional (ks ! i) then jer_decode_optional (jc_dec (ks ! i))
                                     else jbind (jc_dec (ks ! i)) (\<lambda>x. jret (Some x)))
              else jer_decode_extension_addition (jc_dec ((ks @ xs) ! i)))
         (\<lambda>v. jret (i, v))
     else jlift (Err (DecodeError (UnknownField i t) Jer)))"

definition jer_set_fields ::
    "('n, 'v) jer_component list \<Rightarrow> ('n, 'v) jer_component list \<Rightarrow> (nat \<times> 'v option) list \<Rightarrow> 'v option list dec_result" where
  "jer_set_fields ks xs fs =
    (case List.find (\<lambda>i. 1 < length (filter (\<lambda>f. fst f = i) fs)) [0..<length (ks @ xs)] of
       Some i \<Rightarrow> Err (DecodeError (DuplicateField (jc_name ((ks @ xs) ! i))) Jer)
     | None \<Rightarrow>
         let vs = map (\<lambda>i. case map_of fs i of Some v \<Rightarrow> v | None \<Rightarrow> None) [0..<length (ks @ xs)] in
         case List.find (\<lambda>i. \<not> jc_optional ((ks @ xs) ! i) \<and> vs ! i = None) [0..<length (ks @ xs)] of
           Some i \<Rightarrow> Err (DecodeError (MissingField (jc_name ((ks @ xs) ! i))) Jer)
         | None \<Rightarrow> Ok vs)"

definition jer_set_enc ::
    "('n, 'v) jer_component list \<Rightarrow> ('n, 'v) jer_component list \<Rightarrow> 'v option list \<Rightarrow> 'n jer_encode_fn" where
  "jer_set_enc ks xs vs = jer_encode_set (jer_fields ks) (jer_additions xs) (jer_members_enc (ks @ xs) vs)"

definition jer_set_dec ::
    "('n, 'v) jer_component list \<Rightarrow> ('n, 'v) jer_component list \<Rightarrow> ('n, 'v option list) jer_decode_fn" where
  "jer_set_dec ks xs =
    jer_decode_set (jer_fields ks) (jer_additions xs) (jer_set_member ks xs) (jer_set_fields ks xs)"

lemma set_fields_loop_entries:
  assumes "jer_components (ks @ xs)" "list_all2 jer_member_ok (ks @ xs) vs" "distinct (map (jc_name \<circ> (!) (ks @ xs)) is)"
    "\<forall>i \<in> set is. i < length (ks @ xs) \<and> map_of m (jc_name ((ks @ xs) ! i)) = map_option (jc_json ((ks @ xs) ! i)) (vs ! i)"
  shows "\<exists>m'. (\<forall>nm. nm \<notin> set (map (jc_name \<circ> (!) (ks @ xs)) is) \<longrightarrow> map_of m' nm = map_of m nm) \<and>
    set_fields_loop (jer_set_member ks xs) (map (\<lambda>i. (i, jc_field ((ks @ xs) ! i))) is) m acc d =
      Some (Ok ((acc @ map (\<lambda>i. (i, vs ! i)) is, m'), d))"
  using assms(3,4)
proof (induction "is" arbitrary: m acc)
  case (Cons i js)
  let ?k = "(ks @ xs) ! i"
  define m1 where "m1 = filter (\<lambda>e. fst e \<noteq> jc_name ?k) m"
  have i: "i < length (ks @ xs)" "map_of m (jc_name ?k) = map_option (jc_json ?k) (vs ! i)" using Cons.prems(2) by auto
  have k: "jer_member_ok ?k (vs ! i)" using assms(2) i(1) by (simp add: list_all2_conv_all_nth)
  have codec: "jer_codec (jc_enc ?k) (jc_dec ?k) (jc_json ?k) (jc_wf ?k)"
    using jer_components.codecs [OF assms(1) nth_mem [OF i(1)]] .
  have read: "jer_set_member ks xs i (jc_tag ?k) (push_value (map_option (jc_json ?k) (vs ! i)) d) = Some (Ok ((i, vs ! i), d))"
    using i(1) k jer_codec.decode_optional_json [OF codec, of _ "push_value (map_option (jc_json ?k) (vs ! i)) d" "jd_stack d"]
      jer_codec.dec_json [OF codec, of _ "push_value (map_option (jc_json ?k) (vs ! i)) d" "jd_stack d"]
    by (cases "vs ! i"; cases "i < length ks")
      (simp_all add: jer_set_member_def jer_decode_extension_addition_def jbind_def jret_def jer_member_ok_def
        push_value_def nth_append decode_optional_absent)
  have "\<forall>j \<in> set js. j < length (ks @ xs) \<and> map_of m1 (jc_name ((ks @ xs) ! j)) = map_option (jc_json ((ks @ xs) ! j)) (vs ! j)"
    using Cons.prems by (auto simp: m1_def map_of_filter_key image_iff)
  with Cons.IH [of m1 "acc @ [(i, vs ! i)]"] Cons.prems(1) obtain m' where m':
    "\<forall>nm. nm \<notin> set (map (jc_name \<circ> (!) (ks @ xs)) js) \<longrightarrow> map_of m' nm = map_of m1 nm"
    "set_fields_loop (jer_set_member ks xs) (map (\<lambda>i. (i, jc_field ((ks @ xs) ! i))) js) m1 (acc @ [(i, vs ! i)]) d =
      Some (Ok (((acc @ [(i, vs ! i)]) @ map (\<lambda>i. (i, vs ! i)) js, m'), d))"
    by auto
  show ?case
  proof (intro exI [of _ m'] conjI allI impI)
    fix nm assume "nm \<notin> set (map (jc_name \<circ> (!) (ks @ xs)) (i # js))"
    then show "map_of m' nm = map_of m nm" using m'(1) by (simp add: m1_def map_of_filter_key)
  next
    show "set_fields_loop (jer_set_member ks xs) (map (\<lambda>i. (i, jc_field ((ks @ xs) ! i))) (i # js)) m acc d =
        Some (Ok ((acc @ map (\<lambda>i. (i, vs ! i)) (i # js), m'), d))"
      using m'(2) read i(2) by (simp add: bt_remove_def m1_def [symmetric])
  qed
qed simp

lemma jer_set_fields_places:
  assumes "mset is = mset [0..<length (ks @ xs)]" "list_all2 jer_member_ok (ks @ xs) vs"
  shows "jer_set_fields ks xs (map (\<lambda>i. (i, vs ! i)) is) = Ok vs"
proof -
  let ?n = "length (ks @ xs)" and ?fs = "map (\<lambda>i. (i, vs ! i)) is"
  have len: "length vs = ?n" by (rule list_all2_lengthD [OF assms(2), symmetric])
  have "distinct is" using assms(1) by (metis distinct_upt mset_eq_imp_distinct_iff)
  then have one: "length (filter (\<lambda>f. fst f = i) ?fs) \<le> 1" for i
    by (induction "is") (auto simp: filter_empty_conv)
  have s: "set is = {0..<?n}" using assms(1) by (metis mset_eq_setD set_upt)
  have "map_of ?fs i = Some (vs ! i)" if "i < ?n" for i
    using s that by (intro map_of_is_SomeI) (auto simp: \<open>distinct is\<close> comp_def)
  then have vs: "map (\<lambda>i. case map_of ?fs i of Some v \<Rightarrow> v | None \<Rightarrow> None) [0..<?n] = vs"
    using len by (intro nth_equalityI) simp_all
  have n1: "List.find (\<lambda>i. 1 < length (filter (\<lambda>f. fst f = i) ?fs)) [0..<?n] = None"
    using one by (auto simp: find_None_iff not_less simp del: length_map)
  have n2: "List.find (\<lambda>i. \<not> jc_optional ((ks @ xs) ! i) \<and> vs ! i = None) [0..<?n] = None"
    using assms(2) by (auto simp: find_None_iff list_all2_conv_all_nth jer_member_ok_def split: option.splits)
  show ?thesis unfolding jer_set_fields_def vs n1 Let_def n2 by simp
qed

lemma jer_set_codec:
  assumes "jer_components (ks @ xs)"
  shows "jer_codec (jer_set_enc ks xs) (jer_set_dec ks xs) (jer_object (ks @ xs)) (jer_sequence_ok (ks @ xs))"
proof
  fix vs and e :: "'a jer_encoder"
  assume "jer_sequence_ok (ks @ xs) vs" "ready e"
  then show "jer_set_enc ks xs vs e = Some (Ok (put_json (jer_object (ks @ xs) vs) e))"
    using jer_codec.enc_json [OF jer_sequence_codec [OF assms]]
    by (simp add: jer_set_enc_def jer_encode_set_def jer_sequence_enc_def)
next
  fix vs and d :: "'a jer_decoder" and st
  assume v: "jer_sequence_ok (ks @ xs) vs" and d: "jd_stack d = Some (jer_object (ks @ xs) vs) # st"
  have dist: "distinct (map jc_name (ks @ xs))" and ok: "list_all2 jer_member_ok (ks @ xs) vs"
    using v by (simp_all add: jer_sequence_ok_def)
  have len: "length vs = length (ks @ xs)" by (rule list_all2_lengthD [OF ok, symmetric])
  let ?m = "bt.insert_all (jer_entries (ks @ xs) vs)" and ?f = "\<lambda>i. (i, jc_field ((ks @ xs) ! i))"
  let ?d = "d\<lparr>jd_stack := st\<rparr>" and ?n = "length (ks @ xs)"
  have look: "map_of ?m (jc_name ((ks @ xs) ! i)) = map_option (jc_json ((ks @ xs) ! i)) (vs ! i)" if "i < ?n" for i
    using arg_cong [OF lookup_jer_object [OF dist len], of "\<lambda>l. l ! i"] that len by (simp del: map_append)
  have inj: "inj_on (\<lambda>i. jc_name ((ks @ xs) ! i)) {0..<?n}"
  proof (rule inj_onI)
    fix i j assume "i \<in> {0..<?n}" "j \<in> {0..<?n}" "jc_name ((ks @ xs) ! i) = jc_name ((ks @ xs) ! j)"
    then show "i = j" using nth_eq_iff_index_eq [OF dist, of i j] by (simp del: map_append)
  qed
  then have names: "distinct (map (jc_name \<circ> (!) (ks @ xs)) is)" if "distinct is" "set is \<subseteq> {0..<?n}" for "is"
    using that by (simp add: distinct_map inj_on_subset comp_def)
  define sorted_roots where "sorted_roots = map fst (sort_key (\<lambda>(i, f). smallest_tag (tag_tree f)) (enumerate 0 (map jc_field ks)))"
  have "mset sorted_roots = mset (map fst (enumerate 0 (map jc_field ks)))"
    unfolding sorted_roots_def mset_map by (simp only: mset_sort)
  also have "map fst (enumerate 0 (map jc_field ks)) = [0..<length ks]" by simp
  finally have ms: "mset sorted_roots = mset [0..<length ks]" .
  have roots: "sort_key (\<lambda>(i, f). smallest_tag (tag_tree f)) (enumerate 0 (map jc_field ks)) = map ?f sorted_roots"
  proof -
    have "\<forall>p \<in> set (enumerate 0 (map jc_field ks)). ?f (fst p) = p" by (auto simp: in_set_enumerate_eq nth_append)
    then have "\<forall>p \<in> set (sort_key (\<lambda>(i, f). smallest_tag (tag_tree f)) (enumerate 0 (map jc_field ks))). ?f (fst p) = p" by simp
    then show ?thesis unfolding sorted_roots_def map_map by (intro map_idI [symmetric]) (simp del: set_sort)
  qed
  have adds: "enumerate (length ks) (map jc_field xs) = map ?f [length ks..<?n]"
    by (intro nth_equalityI) (simp_all add: nth_enumerate_eq nth_append)
  have s: "set sorted_roots = {0..<length ks}" using ms by (metis mset_eq_setD set_upt)
  have dr: "distinct sorted_roots" using ms by (metis distinct_upt mset_eq_imp_distinct_iff)
  obtain m1 where m1: "\<forall>nm. nm \<notin> set (map (jc_name \<circ> (!) (ks @ xs)) sorted_roots) \<longrightarrow> map_of m1 nm = map_of ?m nm"
    "set_fields_loop (jer_set_member ks xs) (map ?f sorted_roots) ?m [] ?d =
      Some (Ok (([] @ map (\<lambda>i. (i, vs ! i)) sorted_roots, m1), ?d))"
    using set_fields_loop_entries [OF assms ok names [OF dr], of ?m "[]" ?d] look s by auto
  have "\<forall>i \<in> set [length ks..<?n]. i < ?n \<and> map_of m1 (jc_name ((ks @ xs) ! i)) = map_option (jc_json ((ks @ xs) ! i)) (vs ! i)"
  proof
    fix i assume i: "i \<in> set [length ks..<?n]"
    then have "jc_name ((ks @ xs) ! i) \<notin> set (map (jc_name \<circ> (!) (ks @ xs)) sorted_roots)"
      using s inj_onD [OF inj, of i] by (auto simp: comp_def)
    then show "i < ?n \<and> map_of m1 (jc_name ((ks @ xs) ! i)) = map_option (jc_json ((ks @ xs) ! i)) (vs ! i)"
      using m1(1) look i by simp
  qed
  then obtain m2 where m2: "set_fields_loop (jer_set_member ks xs) (map ?f [length ks..<?n]) m1
      (map (\<lambda>i. (i, vs ! i)) sorted_roots) ?d =
      Some (Ok ((map (\<lambda>i. (i, vs ! i)) sorted_roots @ map (\<lambda>i. (i, vs ! i)) [length ks..<?n], m2), ?d))"
    using set_fields_loop_entries [OF assms ok names, of "[length ks..<?n]" m1 "map (\<lambda>i. (i, vs ! i)) sorted_roots" ?d]
    by auto
  have "mset (sorted_roots @ [length ks..<?n]) = mset [0..<?n]"
    using ms by (simp add: upt_add_eq_append [of 0, simplified])
  then have "jer_set_fields ks xs (map (\<lambda>i. (i, vs ! i)) (sorted_roots @ [length ks..<?n])) = Ok vs"
    using ok by (rule jer_set_fields_places)
  then show "jer_set_dec ks xs d = Some (Ok (vs, ?d))"
    using d m1(2) m2 adds roots
    by (cases "xs = []")
      (simp_all add: jer_set_dec_def jer_decode_set_def jbind_def pop_value_def jlift_def type_mismatch_def
        jer_object_insert_all jer_fields_def jer_additions_def)
qed

end
