(* ===== verification/Jer_Schema.thy ===== *)
theory Jer_Schema
  imports Jer_Set Oer_Schema
begin

text \<open>
  CHOICE and the closure of the contract of JER: a datatype of ASN.1 types with the encoder and the
  decoder that the derived implementations put together from the operations of \<open>jer/\<close>, one induction
  that shows that every type keeps the contract, and the shape of the JSON values of a type.
\<close>

section \<open>CHOICE\<close>

definition jc_variant :: "('n, 'v) jer_component list \<Rightarrow> tag \<Rightarrow> ('n, 'v) jer_component option" where
  "jc_variant ks t = List.find (\<lambda>k. jc_tag k = t) ks"

definition jc_variants :: "('n, 'v) jer_component list \<Rightarrow> tag_tree list" where
  "jc_variants ks = map (\<lambda>k. Leaf (jc_tag k)) ks"

definition jer_choice_enc ::
    "('n, 'v) jer_component list \<Rightarrow> ('n, 'v) jer_component list \<Rightarrow> tag \<times> 'v \<Rightarrow> 'n jer_encode_fn" where
  "jer_choice_enc ks xs tv =
    (case jc_variant (ks @ xs) (fst tv) of
       Some k \<Rightarrow> jer_encode_choice (jc_variants ks) (Some (jc_variants xs)) (map jc_name (ks @ xs)) (fst tv) (jc_enc k (snd tv))
     | None \<Rightarrow> (\<lambda>self. Some (Ok self)))"

text \<open>The derived \<open>from_tag\<close>.\<close>

definition jer_choice_variant :: "('n, 'v) jer_component list \<Rightarrow> tag \<Rightarrow> ('n, tag \<times> 'v) jer_decode_fn" where
  "jer_choice_variant ks t =
    (case jc_variant ks t of
       Some k \<Rightarrow> jbind (jc_dec k) (\<lambda>v. jret (t, v))
     | None \<Rightarrow> jlift (Err (DecodeError (NoValidChoice []) Jer)))"

definition jer_choice_dec ::
    "('n, 'v) jer_component list \<Rightarrow> ('n, 'v) jer_component list \<Rightarrow> ('n, tag \<times> 'v) jer_decode_fn" where
  "jer_choice_dec ks xs =
    jer_decode_choice (jc_variants ks) (Some (jc_variants xs)) (map jc_name (ks @ xs)) (jer_choice_variant (ks @ xs))"

definition jer_choice_json :: "('n, 'v) jer_component list \<Rightarrow> tag \<times> 'v \<Rightarrow> 'n json" where
  "jer_choice_json ks tv =
    (case jc_variant ks (fst tv) of Some k \<Rightarrow> JObject [(jc_name k, jc_json k (snd tv))] | None \<Rightarrow> JNull)"

definition jer_choice_ok :: "('n, 'v) jer_component list \<Rightarrow> tag \<times> 'v \<Rightarrow> bool" where
  "jer_choice_ok ks tv \<longleftrightarrow> distinct (map jc_tag ks) \<and> distinct (map (\<lambda>k. map ascii_lowercase (jc_name k)) ks) \<and>
    (case jc_variant ks (fst tv) of Some k \<Rightarrow> jc_wf k (snd tv) | None \<Rightarrow> False)"

lemma jc_variant_index:
  assumes "jc_variant ks t = Some k" "distinct (map jc_tag ks)"
  obtains i where "i < length ks" "k = ks ! i" "t = jc_tag k"
  using assms by (auto simp: jc_variant_def find_Some_iff)

lemma find_identifier_distinct:
  assumes "distinct tags" "i < length tags" "length tags = length names"
  shows "find_identifier (tags ! i) names (enumerate 0 tags) = Some (names ! i)"
proof -
  have "find_identifier t names (enumerate n ts) = Some (names ! (n + i))"
    if "distinct ts" "i < length ts" "t = ts ! i" "n + length ts = length names" for n t ts i
    using that
  proof (induction ts arbitrary: n i)
    case (Cons u ts)
    show ?case
    proof (cases i)
      case 0
      then show ?thesis using Cons.prems by (simp add: get_def)
    next
      case (Suc j)
      then have "t \<noteq> u" using Cons.prems by auto
      then show ?thesis using Cons.IH [of j "Suc n"] Cons.prems Suc by simp
    qed
  qed simp
  from this [OF assms(1,2) refl, of 0] assms(3) show ?thesis by simp
qed

lemma all_variants_jer [simp]: "all_variants (jc_variants ks) (Some (jc_variants xs)) = map jc_tag (ks @ xs)"
proof -
  have "concat (map flatten_tree (jc_variants ks)) = map jc_tag ks" for ks :: "('a, 'b) jer_component list"
    by (induction ks) (simp_all add: jc_variants_def)
  then show ?thesis by (simp add: all_variants_def variants_from_slice_def)
qed

lemma position_eq_ignore_case:
  assumes "distinct (map (map ascii_lowercase) names)" "i < length names"
  shows "position (\<lambda>s. eq_ignore_ascii_case s (names ! i)) names = Some i"
  using assms
proof (induction names arbitrary: i)
  case (Cons n names)
  show ?case
  proof (cases i)
    case (Suc j)
    then have "map ascii_lowercase (names ! j) \<in> map ascii_lowercase ` set names" using Cons.prems(2) by auto
    then have "\<not> eq_ignore_ascii_case n (names ! j)" using Cons.prems(1) by (auto simp: eq_ignore_ascii_case_def)
    then show ?thesis using Cons Suc by simp
  qed simp
qed simp

lemma jer_choice_codec:
  assumes "jer_components (ks @ xs)"
  shows "jer_codec (jer_choice_enc ks xs) (jer_choice_dec ks xs) (jer_choice_json (ks @ xs)) (jer_choice_ok (ks @ xs))"
proof
  fix tv and e :: "'a jer_encoder"
  assume v: "jer_choice_ok (ks @ xs) tv" and e: "ready e"
  obtain t v where tv: "tv = (t, v)" by (cases tv)
  have dist: "distinct (map jc_tag (ks @ xs))" using v by (simp add: jer_choice_ok_def)
  obtain k where k: "jc_variant (ks @ xs) t = Some k" "jc_wf k v" using v by (auto simp: jer_choice_ok_def tv split: option.splits)
  obtain i where i: "i < length (ks @ xs)" "k = (ks @ xs) ! i" "t = jc_tag k" using jc_variant_index [OF k(1) dist] .
  have n: "find_identifier t (map jc_name (ks @ xs)) (enumerate 0 (map jc_tag (ks @ xs))) = Some (jc_name k)"
    using find_identifier_distinct [OF dist, of i "map jc_name (ks @ xs)"] i by (simp del: map_append)
  have "jer_codec (jc_enc k) (jc_dec k) (jc_json k) (jc_wf k)"
    using jer_components.codecs [OF assms] i(1,2) nth_mem by metis
  note enc = jer_codec.enc_json [OF this k(2)]
  let ?e = "e\<lparr>j_constructed_stack := [] # j_constructed_stack e, j_stack := jc_name k # j_stack e\<rparr>"
  have "jc_enc k v ?e = Some (Ok (put_json (jc_json k v) ?e))" by (rule enc) (simp add: ready_def)
  moreover have "map jc_tag (ks @ xs) \<noteq> []" using i(1) by auto
  ultimately show "jer_choice_enc ks xs tv e = Some (Ok (put_json (jer_choice_json (ks @ xs) tv) e))"
    using k(1) n update_put_json [OF e]
    by (auto simp: tv jer_choice_enc_def jer_choice_json_def jer_encode_choice_def put_json_def [of "jc_json k v"]
        finish_object_def Let_def simp del: map_append)
next
  fix tv and d :: "'a jer_decoder" and st
  assume v: "jer_choice_ok (ks @ xs) tv" and d: "jd_stack d = Some (jer_choice_json (ks @ xs) tv) # st"
  obtain t v where tv: "tv = (t, v)" by (cases tv)
  have dist: "distinct (map jc_tag (ks @ xs))" "distinct (map (map ascii_lowercase) (map jc_name (ks @ xs)))"
    using v by (simp_all add: jer_choice_ok_def comp_def del: map_append)
  obtain k where k: "jc_variant (ks @ xs) t = Some k" "jc_wf k v" using v by (auto simp: jer_choice_ok_def tv split: option.splits)
  obtain i where i: "i < length (ks @ xs)" "k = (ks @ xs) ! i" "t = jc_tag k" using jc_variant_index [OF k(1) dist(1)] .
  have "position (\<lambda>s. eq_ignore_ascii_case s (jc_name k)) (map jc_name (ks @ xs)) = Some i"
    using position_eq_ignore_case [OF dist(2), of i] i(1,2) by (simp del: map_append map_map)
  moreover have "get (map jc_tag (ks @ xs)) i = Some t" using i by (simp add: get_def del: map_append)
  ultimately have "choice_entry (jc_variants ks) (Some (jc_variants xs)) (map jc_name (ks @ xs)) [(jc_name k, jc_json k v)] =
      Some (t, jc_json k v)"
    by (simp add: choice_entry_def del: map_append)
  moreover have "jer_codec (jc_enc k) (jc_dec k) (jc_json k) (jc_wf k)"
    using jer_components.codecs [OF assms] i(1,2) nth_mem by metis
  then have "jc_dec k (d\<lparr>jd_stack := Some (jc_json k v) # st\<rparr>) = Some (Ok (v, d\<lparr>jd_stack := st\<rparr>))"
    using jer_codec.dec_json [of _ "jc_dec k" "jc_json k" "jc_wf k" v "d\<lparr>jd_stack := Some (jc_json k v) # st\<rparr>" st] k(2)
    by fastforce
  ultimately show "jer_choice_dec ks xs d = Some (Ok (tv, d\<lparr>jd_stack := st\<rparr>))"
    using d k(1)
    by (simp add: tv jer_choice_dec_def jer_decode_choice_def jbind_def pop_value_def jlift_def type_mismatch_def
        jer_choice_json_def jer_choice_variant_def push_value_def jret_def del: map_append)
qed

section \<open>Types\<close>

datatype jer_type =
    JTBool
  | JTNull
  | JTInteger int_type
  | JTEnumerated "int named_enumerated"
  | JTOctets
  | JTBits constraints
  | JTOid
  | JTSequenceOf jer_type
  | JTSequence "(field \<times> jer_type) list" "(field \<times> jer_type) list"
  | JTSet "(field \<times> jer_type) list" "(field \<times> jer_type) list"
  | JTChoice "(field \<times> jer_type) list" "(field \<times> jer_type) list"

text \<open>A codec on a type of its own as one on the common type of values.\<close>

definition jer_embed ::
    "field \<Rightarrow> ('a \<Rightarrow> 'v) \<Rightarrow> ('v \<Rightarrow> 'a option) \<Rightarrow> ('a \<Rightarrow> 'n jer_encode_fn) \<Rightarrow> ('n, 'a) jer_decode_fn \<Rightarrow>
     ('a \<Rightarrow> 'n json) \<Rightarrow> ('a \<Rightarrow> bool) \<Rightarrow> ('n, 'v) jer_component" where
  "jer_embed f C un enc dec json good =
    \<lparr>jc_field = f,
     jc_enc = (\<lambda>v. case un v of Some x \<Rightarrow> enc x | None \<Rightarrow> (\<lambda>self. Some (Ok self))),
     jc_dec = jbind dec (\<lambda>x. jret (C x)),
     jc_json = (\<lambda>v. case un v of Some x \<Rightarrow> json x | None \<Rightarrow> JNull),
     jc_wf = (\<lambda>v. case un v of Some x \<Rightarrow> good x | None \<Rightarrow> False)\<rparr>"

lemma jer_embed_codec:
  fixes f :: field
  assumes "jer_codec enc dec json good'" "\<And>v x. un v = Some x \<Longrightarrow> v = C x" "\<And>x. good x \<Longrightarrow> good' x"
  defines "k \<equiv> jer_embed f C un enc dec json good"
  shows "jer_codec (jc_enc k) (jc_dec k) (jc_json k) (jc_wf k)"
proof
  fix v and e :: "'b jer_encoder"
  assume "jc_wf k v" and e: "ready e"
  then obtain x where "un v = Some x" "good' x" using assms(3) by (auto simp: k_def jer_embed_def split: option.splits)
  then show "jc_enc k v e = Some (Ok (put_json (jc_json k v) e))"
    using jer_codec.enc_json [OF assms(1) _ e] by (simp add: k_def jer_embed_def)
next
  fix v and d :: "'b jer_decoder" and st
  assume "jc_wf k v" and d: "jd_stack d = Some (jc_json k v) # st"
  then obtain x where x: "un v = Some x" "good' x" using assms(3) by (auto simp: k_def jer_embed_def split: option.splits)
  then show "jc_dec k d = Some (Ok (v, d\<lparr>jd_stack := st\<rparr>))"
    using jer_codec.dec_json [OF assms(1) x(2), of d st] d assms(2) [of v x]
    by (simp add: k_def jer_embed_def jbind_def jret_def)
qed

fun jer_type_codec :: "'n json_env \<Rightarrow> jer_type \<Rightarrow> field \<Rightarrow> ('n, asn_value) jer_component" where
  "jer_type_codec J JTBool f = jer_embed f VBool un_bool jer_encode_bool jer_decode_bool JBool (\<lambda>_. True)"
| "jer_type_codec J JTNull f =
    jer_embed f (\<lambda>_. VNull) un_null (\<lambda>_. jer_encode_null) jer_decode_null (\<lambda>_. JNull) (\<lambda>_. True)"
| "jer_type_codec J (JTInteger it) f =
    jer_embed f VInteger un_integer (jer_encode_integer J (jer_prim it)) (jer_decode_integer J (jer_prim it))
      (jer_integer_json J (jer_prim it)) (\<lambda>v. in_type it v \<and> in_type I64 v)"
| "jer_type_codec J (JTEnumerated E) f =
    jer_embed f VEnumerated un_enumerated (jer_encode_enumerated E) (jer_decode_enumerated E) (jer_enumerated_json E)
      (jer_enumerated_ok E)"
| "jer_type_codec J JTOctets f =
    jer_embed f VOctets un_octets jer_encode_octet_string jer_decode_octet_string (\<lambda>v. JString (hexstring v)) (\<lambda>_. True)"
| "jer_type_codec J (JTBits cs) f =
    jer_embed f VBits un_bits (jer_encode_bit_string J cs) (jer_decode_bit_string J cs) (bit_string_value J cs) (jer_bits_ok cs)"
| "jer_type_codec J JTOid f =
    jer_embed f VOid un_oid jer_encode_object_identifier jer_decode_object_identifier (\<lambda>v. JString (oid_text v)) is_valid_oid"
| "jer_type_codec J (JTSequenceOf T) f =
    (let k = jer_type_codec J T (new_required 0 SEQUENCE (Leaf SEQUENCE) []) in
     jer_embed f VSequenceOf un_sequence_of (\<lambda>vs. jer_encode_sequence_of (map (jc_enc k) vs))
       (jer_decode_sequence_of (jc_dec k)) (\<lambda>vs. JArray (map (jc_json k) vs)) (list_all (jc_wf k)))"
| "jer_type_codec J (JTSequence fs gs) f =
    (let ks = map (\<lambda>(g, T). jer_type_codec J T g) fs; xs = map (\<lambda>(g, T). jer_type_codec J T g) gs in
     jer_embed f VSequence un_sequence (jer_sequence_enc ks xs) (jer_sequence_dec ks xs) (jer_object (ks @ xs))
       (jer_sequence_ok (ks @ xs)))"
| "jer_type_codec J (JTSet fs gs) f =
    (let ks = map (\<lambda>(g, T). jer_type_codec J T g) fs; xs = map (\<lambda>(g, T). jer_type_codec J T g) gs in
     jer_embed f VSequence un_sequence (jer_set_enc ks xs) (jer_set_dec ks xs) (jer_object (ks @ xs))
       (jer_sequence_ok (ks @ xs)))"
| "jer_type_codec J (JTChoice fs gs) f =
    (let ks = map (\<lambda>(g, T). jer_type_codec J T g) fs; xs = map (\<lambda>(g, T). jer_type_codec J T g) gs in
     jer_embed f (\<lambda>(t, v). VChoice t v) un_choice (jer_choice_enc ks xs) (jer_choice_dec ks xs) (jer_choice_json (ks @ xs))
       (jer_choice_ok (ks @ xs)))"

lemma jc_field_jer_type_codec [simp]: "jc_field (jer_type_codec J T f) = f"
  by (cases T) (simp_all add: jer_embed_def Let_def)

lemma jer_parts_codec:
  assumes "\<And>g T f. (g, T) \<in> set fs \<union> set gs \<Longrightarrow>
      jer_codec (jc_enc (jer_type_codec J T f)) (jc_dec (jer_type_codec J T f)) (jc_json (jer_type_codec J T f))
        (jc_wf (jer_type_codec J T f))"
  shows "jer_components (map (\<lambda>(g, T). jer_type_codec J T g) fs @ map (\<lambda>(g, T). jer_type_codec J T g) gs)"
  by (rule jer_components.intro) (auto intro: assms)

lemma jer_type_codec_keeps_contract:
  assumes J: "json_documented J"
  shows "jer_codec (jc_enc (jer_type_codec J T f)) (jc_dec (jer_type_codec J T f)) (jc_json (jer_type_codec J T f))
    (jc_wf (jer_type_codec J T f))"
proof (induction T arbitrary: f)
  case JTBool
  show ?case unfolding jer_type_codec.simps by (rule jer_embed_codec [OF jer_bool.jer_codec_axioms]) (simp_all add: un_iff)
next
  case JTNull
  show ?case unfolding jer_type_codec.simps by (rule jer_embed_codec [OF jer_null.jer_codec_axioms]) (simp_all add: un_iff)
next
  case (JTInteger it)
  show ?case unfolding jer_type_codec.simps
    by (rule jer_embed_codec [OF jer_integer.jer_codec_axioms])
      (simp_all add: un_iff provided_def J jer_integer_ok_prim)
next
  case (JTEnumerated E)
  show ?case unfolding jer_type_codec.simps
    by (rule jer_embed_codec [OF jer_enumerated.jer_codec_axioms]) (simp_all add: un_iff)
next
  case JTOctets
  show ?case unfolding jer_type_codec.simps by (rule jer_embed_codec [OF jer_octets.jer_codec_axioms]) (simp_all add: un_iff)
next
  case (JTBits cs)
  show ?case unfolding jer_type_codec.simps
    by (rule jer_embed_codec [OF jer_bits.jer_codec_axioms]) (simp_all add: un_iff provided_def J)
next
  case JTOid
  show ?case unfolding jer_type_codec.simps by (rule jer_embed_codec [OF jer_oid.jer_codec_axioms]) (simp_all add: un_iff)
next
  case (JTSequenceOf T)
  show ?case unfolding jer_type_codec.simps Let_def
    by (rule jer_embed_codec [OF jer_codec.sequence_of_codec [OF JTSequenceOf]]) (simp_all add: un_iff)
next
  case (JTSequence fs gs)
  show ?case unfolding jer_type_codec.simps Let_def
    by (rule jer_embed_codec [OF jer_sequence_codec [OF jer_parts_codec]]) (use JTSequence in \<open>auto simp: un_iff\<close>)
next
  case (JTSet fs gs)
  show ?case unfolding jer_type_codec.simps Let_def
    by (rule jer_embed_codec [OF jer_set_codec [OF jer_parts_codec]]) (use JTSet in \<open>auto simp: un_iff\<close>)
next
  case (JTChoice fs gs)
  show ?case unfolding jer_type_codec.simps Let_def
    by (rule jer_embed_codec [OF jer_choice_codec [OF jer_parts_codec] un_choice_iff [THEN iffD1]])
      (use JTChoice in auto)
qed

section \<open>The shape of the JSON values of a type\<close>

definition is_hexstring :: "'n json \<Rightarrow> bool" where
  "is_hexstring v = (case as_str v of Some s \<Rightarrow> bytes_from_hexstring s \<noteq> None | None \<Rightarrow> False)"

definition object_shape :: "string list \<Rightarrow> 'n json \<Rightarrow> bool" where
  "object_shape names v =
    (case v of JObject m \<Rightarrow> bt_sorted m \<and> list_all (\<lambda>k. k \<in> set names) (map fst m) | _ \<Rightarrow> False)"

definition member_value :: "string \<Rightarrow> 'n json \<Rightarrow> 'n json option" where
  "member_value nm v = Option.bind (as_object v) (\<lambda>m. map_of m nm)"

text \<open>An object has the components of its type under their names, only these and all that are required; the
  object of a CHOICE has exactly one entry.\<close>

fun jer_shape :: "jer_type \<Rightarrow> 'n json \<Rightarrow> bool" where
  "jer_shape JTBool v \<longleftrightarrow> as_bool v \<noteq> None"
| "jer_shape JTNull v \<longleftrightarrow> is_null v"
| "jer_shape (JTInteger it) v \<longleftrightarrow> as_number v \<noteq> None"
| "jer_shape (JTEnumerated E) v \<longleftrightarrow> (case as_str v of Some s \<Rightarrow> s \<in> set (ne_IDENTIFIERS E) | None \<Rightarrow> False)"
| "jer_shape JTOctets v \<longleftrightarrow> is_hexstring v"
| "jer_shape (JTBits cs) v \<longleftrightarrow>
    (if has_fixed_size cs then is_hexstring v
     else object_shape [''length'', ''value''] v \<and>
       (case member_value ''value'' v of Some w \<Rightarrow> is_hexstring w | None \<Rightarrow> False) \<and>
       (case member_value ''length'' v of Some w \<Rightarrow> as_number w \<noteq> None | None \<Rightarrow> False))"
| "jer_shape JTOid v \<longleftrightarrow>
    (case as_str v of Some s \<Rightarrow> list_all (\<lambda>arc. parse_u32 arc \<noteq> None) (split_on CHR ''.'' s) | None \<Rightarrow> False)"
| "jer_shape (JTSequenceOf T) v \<longleftrightarrow> (case as_array v of Some vs \<Rightarrow> list_all (jer_shape T) vs | None \<Rightarrow> False)"
| "jer_shape (JTSequence fs gs) v \<longleftrightarrow> object_shape (map (\<lambda>p. name (fst p)) (fs @ gs)) v \<and>
    list_all (\<lambda>(g, T). case member_value (name g) v of Some w \<Rightarrow> jer_shape T w | None \<Rightarrow> is_optional_or_default g) fs \<and>
    list_all (\<lambda>(g, T). case member_value (name g) v of Some w \<Rightarrow> jer_shape T w | None \<Rightarrow> is_optional_or_default g) gs"
| "jer_shape (JTSet fs gs) v \<longleftrightarrow> object_shape (map (\<lambda>p. name (fst p)) (fs @ gs)) v \<and>
    list_all (\<lambda>(g, T). case member_value (name g) v of Some w \<Rightarrow> jer_shape T w | None \<Rightarrow> is_optional_or_default g) fs \<and>
    list_all (\<lambda>(g, T). case member_value (name g) v of Some w \<Rightarrow> jer_shape T w | None \<Rightarrow> is_optional_or_default g) gs"
| "jer_shape (JTChoice fs gs) v \<longleftrightarrow>
    (case as_object v of
       Some [(k, w)] \<Rightarrow> list_ex (\<lambda>(g, T). name g = k \<and> jer_shape T w) fs \<or> list_ex (\<lambda>(g, T). name g = k \<and> jer_shape T w) gs
     | _ \<Rightarrow> False)"

end
