(* ===== verification/Jer_Messages.thy ===== *)
theory Jer_Messages
  imports Jer_Schema
begin

text \<open>
  Whole messages under JER: the JSON values of a type have its shape and are read back, also through the text
  when \<open>serde_json\<close> reads the text it wrote; what the decoder does with members it does not know and with
  missing ones; and inputs on which encoder and decoder disagree.
\<close>

section \<open>The shape of encoded values\<close>

lemma sorted_insert_all: "bt_sorted (bt.insert_all es)"
  by (rule bt.inv_insert_all)

lemma insert_all_keys: "fst ` set (bt.insert_all es) = fst ` set es"
proof -
  have "dom (map_of (bt.insert_all es)) = dom (map_of (rev es))" by (simp add: bt.lookup_insert_all)
  then show ?thesis by (simp add: dom_map_of_conv_image_fst)
qed

lemma object_shape_jer_object:
  "object_shape (map jc_name ks) (jer_object ks vs)"
  using keys_jer_entries [of ks vs] insert_all_keys [of "jer_entries ks vs"]
  by (auto simp: object_shape_def jer_object_insert_all sorted_insert_all list_all_iff)

lemma members_shape:
  assumes "jer_sequence_ok (map (\<lambda>(g, T). jer_type_codec J T g) ps) vs"
    "\<And>g T f v. (g, T) \<in> set ps \<Longrightarrow> jc_wf (jer_type_codec J T f) v \<Longrightarrow> jer_shape T (jc_json (jer_type_codec J T f) v)"
  shows "list_all (\<lambda>(g, T). case member_value (name g) (jer_object (map (\<lambda>(g, T). jer_type_codec J T g) ps) vs) of
      Some w \<Rightarrow> jer_shape T w | None \<Rightarrow> is_optional_or_default g) ps"
proof -
  let ?ks = "map (\<lambda>(g, T). jer_type_codec J T g) ps"
  have dist: "distinct (map jc_name ?ks)" and ok: "list_all2 jer_member_ok ?ks vs"
    using assms(1) by (simp_all add: jer_sequence_ok_def)
  have len: "length vs = length ?ks" by (rule list_all2_lengthD [OF ok, symmetric])
  show ?thesis unfolding list_all_length
  proof (intro allI impI)
    fix i assume i: "i < length ps"
    obtain g T where p: "ps ! i = (g, T)" by (cases "ps ! i")
    have m: "(g, T) \<in> set ps" using i p nth_mem by metis
    have k: "?ks ! i = jer_type_codec J T g" using i p by simp
    have "member_value (name g) (jer_object ?ks vs) = map_option (jc_json (jer_type_codec J T g)) (vs ! i)"
      using arg_cong [OF lookup_jer_object [OF dist len], of "\<lambda>l. l ! i"] i len k p
      by (simp add: member_value_def jer_object_insert_all)
    moreover have "jer_member_ok (jer_type_codec J T g) (vs ! i)" using ok i k by (metis length_map list_all2_nthD)
    ultimately show "case ps ! i of (g, T) \<Rightarrow> case member_value (name g) (jer_object ?ks vs) of
        Some w \<Rightarrow> jer_shape T w | None \<Rightarrow> is_optional_or_default g"
      using assms(2) [OF m] by (auto simp: p jer_member_ok_def split: option.splits)
  qed
qed

lemma sequence_shape:
  assumes "jer_sequence_ok (map (\<lambda>(g, T). jer_type_codec J T g) (fs @ gs)) vs"
    "\<And>g T f v. (g, T) \<in> set (fs @ gs) \<Longrightarrow> jc_wf (jer_type_codec J T f) v \<Longrightarrow> jer_shape T (jc_json (jer_type_codec J T f) v)"
  defines "v \<equiv> jer_object (map (\<lambda>(g, T). jer_type_codec J T g) (fs @ gs)) vs"
  shows "jer_shape (JTSequence fs gs) v" "jer_shape (JTSet fs gs) v"
proof -
  have "map jc_name (map (\<lambda>(g, T). jer_type_codec J T g) (fs @ gs)) = map (\<lambda>p. name (fst p)) (fs @ gs)"
    by (simp add: comp_def case_prod_unfold)
  then have "object_shape (map (\<lambda>p. name (fst p)) (fs @ gs)) v" unfolding v_def by (metis object_shape_jer_object)
  then show "jer_shape (JTSequence fs gs) v" "jer_shape (JTSet fs gs) v"
    using members_shape [OF assms(1,2)] by (simp_all add: v_def)
qed

lemma jer_embed_shape:
  assumes "jc_wf (jer_embed f C un enc dec json good) v" "\<And>x. good x \<Longrightarrow> P (json x)"
  shows "P (jc_json (jer_embed f C un enc dec json good) v)"
  using assms by (auto simp: jer_embed_def split: option.splits)

lemma choice_shape:
  assumes "jer_choice_ok (map (\<lambda>(g, T). jer_type_codec J T g) ps) tv"
    "\<And>g T f v. (g, T) \<in> set ps \<Longrightarrow> jc_wf (jer_type_codec J T f) v \<Longrightarrow> jer_shape T (jc_json (jer_type_codec J T f) v)"
  obtains k w where "jer_choice_json (map (\<lambda>(g, T). jer_type_codec J T g) ps) tv = JObject [(k, w)]"
    "list_ex (\<lambda>(g, T). name g = k \<and> jer_shape T w) ps"
proof -
  let ?ks = "map (\<lambda>(g, T). jer_type_codec J T g) ps"
  obtain k where k: "jc_variant ?ks (fst tv) = Some k" "jc_wf k (snd tv)"
    using assms(1) by (auto simp: jer_choice_ok_def split: option.splits)
  then have "k \<in> set ?ks" by (auto simp: jc_variant_def find_Some_iff intro: nth_mem)
  then obtain g T where gT: "(g, T) \<in> set ps" "k = jer_type_codec J T g" by auto
  show ?thesis
    by (rule that [of "name g" "jc_json k (snd tv)"])
      (use k gT assms(2) [OF gT(1)] in \<open>auto simp: jer_choice_json_def list_ex_iff\<close>)
qed

lemma oid_text_arcs: "is_valid_oid v \<Longrightarrow> split_on CHR ''.'' (oid_text v) = map (\<lambda>arc. decimal (unat arc)) v"
  unfolding oid_text_def
  by (intro split_on_join) (auto simp: is_valid_oid_def dest!: decimal_chars)

lemma bit_string_shape: "jer_shape (JTBits cs) (bit_string_value J cs v)"
  by (auto simp: bit_string_value_def Let_def is_hexstring_def object_shape_def member_value_def bt_sorted_def)

lemma jer_json_shape:
  "jc_wf (jer_type_codec J T f) v \<Longrightarrow> jer_shape T (jc_json (jer_type_codec J T f) v)"
proof (induction T arbitrary: f v)
  case (JTEnumerated E)
  show ?case using JTEnumerated unfolding jer_type_codec.simps
  proof (rule jer_embed_shape [where P = "jer_shape (JTEnumerated E)"])
    fix x assume "jer_enumerated_ok E x"
    then obtain s where s: "variant_identifier E x = Some s" using variant_identifier_roundtrip by metis
    then have "s \<in> set (ne_IDENTIFIERS E)" by (auto simp: variant_identifier_def get_def bind_eq_Some_conv split: if_splits)
    then show "jer_shape (JTEnumerated E) (jer_enumerated_json E x)" using s by (simp add: jer_enumerated_json_def)
  qed
next
  case (JTBits cs)
  show ?case using JTBits unfolding jer_type_codec.simps by (rule jer_embed_shape [where P = "jer_shape (JTBits cs)"])
    (rule bit_string_shape)
next
  case JTOid
  show ?case using JTOid unfolding jer_type_codec.simps by (rule jer_embed_shape [where P = "jer_shape JTOid"])
    (simp add: oid_text_arcs list_all_iff)
next
  case (JTSequenceOf T)
  show ?case using JTSequenceOf(2) unfolding jer_type_codec.simps Let_def
    by (rule jer_embed_shape [where P = "jer_shape (JTSequenceOf T)"])
      (auto simp: list_all_iff intro: JTSequenceOf(1))
next
  case (JTSequence fs gs)
  have IH: "(g, T) \<in> set (fs @ gs) \<Longrightarrow> jc_wf (jer_type_codec J T f) v \<Longrightarrow> jer_shape T (jc_json (jer_type_codec J T f) v)" for g T f v
    using JTSequence(1,2) by auto
  show ?case using JTSequence(3) unfolding jer_type_codec.simps Let_def map_append [symmetric]
    by (rule jer_embed_shape [where P = "jer_shape (JTSequence fs gs)"]) (rule sequence_shape [OF _ IH])
next
  case (JTSet fs gs)
  have IH: "(g, T) \<in> set (fs @ gs) \<Longrightarrow> jc_wf (jer_type_codec J T f) v \<Longrightarrow> jer_shape T (jc_json (jer_type_codec J T f) v)" for g T f v
    using JTSet(1,2) by auto
  show ?case using JTSet(3) unfolding jer_type_codec.simps Let_def map_append [symmetric]
    by (rule jer_embed_shape [where P = "jer_shape (JTSet fs gs)"]) (rule sequence_shape [OF _ IH])
next
  case (JTChoice fs gs)
  have IH: "(g, T) \<in> set (fs @ gs) \<Longrightarrow> jc_wf (jer_type_codec J T f) v \<Longrightarrow> jer_shape T (jc_json (jer_type_codec J T f) v)" for g T f v
    using JTChoice(1,2) by auto
  show ?case using JTChoice(3) unfolding jer_type_codec.simps Let_def map_append [symmetric]
  proof (rule jer_embed_shape [where P = "jer_shape (JTChoice fs gs)"])
    fix tv assume "jer_choice_ok (map (\<lambda>(g, T). jer_type_codec J T g) (fs @ gs)) tv"
    from choice_shape [OF this IH] obtain k w where
      "jer_choice_json (map (\<lambda>(g, T). jer_type_codec J T g) (fs @ gs)) tv = JObject [(k, w)]"
      "list_ex (\<lambda>(g, T). name g = k \<and> jer_shape T w) (fs @ gs)" .
    then show "jer_shape (JTChoice fs gs) (jer_choice_json (map (\<lambda>(g, T). jer_type_codec J T g) (fs @ gs)) tv)"
      by (simp only: jer_shape.simps as_object.simps option.case list.case prod.case list_ex_append)
  qed
next
  case JTBool
  show ?case using JTBool unfolding jer_type_codec.simps by (rule jer_embed_shape [where P = "jer_shape JTBool"]) simp
next
  case JTNull
  show ?case using JTNull unfolding jer_type_codec.simps by (rule jer_embed_shape [where P = "jer_shape JTNull"]) simp
next
  case (JTInteger it)
  show ?case using JTInteger unfolding jer_type_codec.simps
    by (rule jer_embed_shape [where P = "jer_shape (JTInteger it)"]) (simp add: jer_integer_json_def)
next
  case JTOctets
  show ?case using JTOctets unfolding jer_type_codec.simps
    by (rule jer_embed_shape [where P = "jer_shape JTOctets"]) (simp add: is_hexstring_def)
qed

section \<open>Messages\<close>

definition level_names :: "int named_enumerated" where
  "level_names =
    \<lparr>ne_enumerated = \<lparr>en_VARIANTS = [0, 1], en_EXTENDED_VARIANTS = Some [2],
       en_DISCRIMINANTS = [(0, 0), (1, 5)], en_EXTENDED_DISCRIMINANTS = Some [(2, 9)]\<rparr>,
     ne_IDENTIFIERS = [''low'', ''high'', ''panic'']\<rparr>"

definition json_field :: "nat \<Rightarrow> tag \<Rightarrow> string \<Rightarrow> field" where
  "json_field i t nm = new_required i t (Leaf t) nm"

definition optional_json_field :: "nat \<Rightarrow> tag \<Rightarrow> string \<Rightarrow> field" where
  "optional_json_field i t nm = new_optional i t (Leaf t) nm"

definition detail_variants :: "(field \<times> jer_type) list" where
  "detail_variants = [(json_field 0 (new_context 0) ''code'', JTInteger U16), (json_field 1 (new_context 1) ''bits'', JTBits constraints_NONE)]"

definition alarm_components :: "(field \<times> jer_type) list" where
  "alarm_components = [(json_field 0 INTEGER ''id'', JTInteger U32), (json_field 1 ENUMERATED ''level'', JTEnumerated level_names),
     (optional_json_field 2 OCTET_STRING ''note'', JTOctets), (json_field 3 (new_context 9) ''detail'', JTChoice detail_variants []),
     (json_field 4 SEQUENCE ''flags'', JTSequenceOf JTBool)]"

definition alarm_additions :: "(field \<times> jer_type) list" where
  "alarm_additions = [(optional_json_field 0 (new_context 4) ''origin'', JTOid), (optional_json_field 1 (new_context 5) ''extra'', JTNull)]"

definition alarm_type :: jer_type where "alarm_type = JTSequence alarm_components alarm_additions"

definition alarm_value :: asn_value where
  "alarm_value = VSequence [Some (VInteger 7), Some (VEnumerated 2), None,
     Some (VChoice (new_context 1) (VBits [True, False, True])), Some (VSequenceOf [VBool True, VBool False]),
     Some (VOid [1, 3, 6]), None]"

definition alarm_field :: field where "alarm_field = json_field 0 SEQUENCE ''alarm''"

text \<open>The value as JSON.\<close>

definition alarm_json :: "ref_number json" where
  "alarm_json = JObject
    [(''detail'', JObject [(''bits'', JObject [(''length'', JNumber (RInt 3)), (''value'', JString ''A0'')])]),
     (''flags'', JArray [JBool True, JBool False]), (''id'', JNumber (RInt 7)), (''level'', JString ''panic''),
     (''origin'', JString ''1.3.6'')]"

definition alarm_env :: "ref_number json_env" where
  "alarm_env = ref_json_env [(ref_display alarm_json, alarm_json)]"

definition jer_codecs_of :: "(field \<times> jer_type) list \<Rightarrow> (ref_number, asn_value) jer_component list" where
  "jer_codecs_of ps = map (\<lambda>(g, T). jer_type_codec alarm_env T g) ps"

lemma alarm_env_documented: "json_documented alarm_env"
  by (simp add: alarm_env_def ref_json_documented)

interpretation alarm: jer_components "jer_codecs_of (alarm_components @ alarm_additions)"
  by (rule jer_components.intro)
    (auto simp: jer_codecs_of_def intro: jer_type_codec_keeps_contract [OF alarm_env_documented])

lemma alarm_value_ok: "jc_wf (jer_type_codec alarm_env alarm_type alarm_field) alarm_value"
  by code_simp

lemma alarm_value_json: "jc_json (jer_type_codec alarm_env alarm_type alarm_field) alarm_value = alarm_json"
  by code_simp

text \<open>C3: For every ASN.1 type built from the primitive types, ENUMERATED, SEQUENCE OF, extensible SEQUENCE and
  SET and CHOICE, every well-formed value is encoded as the JSON value its type prescribes and read back from
  it, and from the text wherever \<open>serde_json\<close> reads the text it wrote.\<close>

theorem jer_schema_roundtrip:
  assumes "json_documented J" "jc_wf (jer_type_codec J T f) v"
  defines "k \<equiv> jer_type_codec J T f"
  shows "jer_encode_value (jc_enc k v) = Some (Ok (jc_json k v)) \<and>
    jer_decode_value (jc_dec k) (jc_json k v) = Some (Ok v) \<and>
    jer_encode J (jc_enc k v) = Some (Ok (jn_display J (jc_json k v))) \<and>
    (jn_from_str J (jn_display J (jc_json k v)) = Some (jc_json k v) \<longrightarrow>
      jer_decode J (jc_dec k) (jn_display J (jc_json k v)) = Some (Ok v))"
  using jer_codec.value_roundtrip [OF jer_type_codec_keeps_contract [OF assms(1)] assms(2)]
    jer_codec.text_roundtrip [OF jer_type_codec_keeps_contract [OF assms(1)] assms(2), where J = J]
  by (simp add: k_def)

theorem jer_schema_roundtrip_witness:
  "jer_decode alarm_env (jc_dec (jer_type_codec alarm_env alarm_type alarm_field)) (ref_display alarm_json) = Some (Ok alarm_value)"
  using jer_schema_roundtrip [OF alarm_env_documented alarm_value_ok]
  by (simp only: alarm_value_json) (simp add: alarm_env_def ref_json_env_def)

text \<open>C4: Whatever well-formed value is encoded, the output has the shape of its type: an object with the components
  under their names, only these and all that are required, one entry for the variant of a CHOICE, the name
  of an item of an ENUMERATED, hexadecimal text for octets.\<close>

theorem jer_output_has_shape:
  assumes "json_documented J" "jc_wf (jer_type_codec J T f) v"
  shows "\<exists>j. jer_encode_value (jc_enc (jer_type_codec J T f) v) = Some (Ok j) \<and> jer_shape T j"
  using jer_codec.value_roundtrip(1) [OF jer_type_codec_keeps_contract [OF assms(1)] assms(2)] jer_json_shape [OF assms(2)]
  by blast

theorem jer_output_has_shape_witness:
  "\<exists>j. jer_encode_value (jc_enc (jer_type_codec alarm_env alarm_type alarm_field) alarm_value) = Some (Ok j) \<and>
    jer_shape alarm_type j"
  by (rule jer_output_has_shape [OF alarm_env_documented alarm_value_ok])

section \<open>Members of an object\<close>

text \<open>C20: A SEQUENCE is decoded from the members with the names of its components alone: an object with other
  members, or with more of them, gives the same result.\<close>

theorem jer_unknown_members_ignored:
  assumes "distinct (field_names FIELDS EXTENDED)"
    "\<forall>nm \<in> set (field_names FIELDS EXTENDED). map_of m nm = map_of m' nm"
  shows "jer_decode_value (jer_decode_sequence FIELDS EXTENDED decode_fn) (JObject m) =
    jer_decode_value (jer_decode_sequence FIELDS EXTENDED decode_fn) (JObject m')"
proof -
  let ?names = "field_names FIELDS EXTENDED"
  have "map (map_of m) ?names = map (map_of m') ?names" using assms(2) by simp
  then show ?thesis by (simp only: decode_sequence_value [OF assms(1)])
qed

theorem jer_unknown_members_ignored_witness:
  "jer_decode_value (jer_decode_sequence (jer_fields (jer_codecs_of detail_variants)) None jer_decode_bool)
      (JObject [(''code'', JBool True), (''zeta'', JNull :: ref_number json)]) =
    jer_decode_value (jer_decode_sequence (jer_fields (jer_codecs_of detail_variants)) None jer_decode_bool)
      (JObject [(''code'', JBool True :: ref_number json)])"
proof (rule jer_unknown_members_ignored)
  show "distinct (field_names (jer_fields (jer_codecs_of detail_variants)) None)" by code_simp
  show "\<forall>nm \<in> set (field_names (jer_fields (jer_codecs_of detail_variants)) None).
      map_of [(''code'', JBool True), (''zeta'', JNull)] nm = map_of [(''code'', JBool True :: ref_number json)] nm"
    by (simp add: field_names_def jer_fields_def jer_codecs_of_def detail_variants_def json_field_def new_required_def new_field_def
        jer_embed_def)
qed

text \<open>Nothing decodes a value that is absent.\<close>

lemma jer_type_codec_absent:
  "jd_stack d = None # st \<Longrightarrow> jc_dec (jer_type_codec J T f) d = Some (Err (jer_error EndOfInput))"
  by (cases T)
    (auto simp: jer_embed_def jbind_def decode_jer_value_def pop_value_def jer_decode_bool_def jer_decode_null_def
      jer_decode_integer_def jer_decode_enumerated_def jer_decode_octet_string_def jer_decode_bit_string_def
      jer_decode_object_identifier_def jer_decode_sequence_of_def jer_sequence_dec_def jer_decode_sequence_def
      jer_set_dec_def jer_decode_set_def jer_choice_dec_def jer_decode_choice_def Let_def split: option.split)

lemma jer_members_dec_append:
  "jer_members_dec dec (ks @ ls) d =
    jbind (jer_members_dec dec ks) (\<lambda>vs. jbind (jer_members_dec dec ls) (\<lambda>ws. jret (vs @ ws))) d"
  by (induction ks arbitrary: d)
    (auto simp: jbind_def jret_def pbind_def fun_eq_iff split: option.splits sum.splits)

lemma missing_component:
  assumes "jer_components ks" "list_all2 jer_member_ok ks us" "\<not> jc_optional k"
    "\<And>st. jc_dec k \<lparr>jd_stack = None # st\<rparr> = Some (Err (jer_error EndOfInput))"
    "distinct (map jc_name (ks @ k # ks' @ xs))"
    "map (map_of m) (map jc_name ks) = map2 (\<lambda>k v. map_option (jc_json k) v) ks us" "map_of m (jc_name k) = None"
  shows "jer_decode_value (jer_sequence_dec (ks @ k # ks') xs) (JObject m) =
    Some (Err (DecodeError (FieldError (jc_name k) (jer_error EndOfInput)) Jer))"
proof -
  define st where "st = map (map_of m) (map jc_name (ks' @ xs))"
  let ?d = "\<lparr>jd_stack = map2 (\<lambda>k v. map_option (jc_json k) v) ks us @ None # st\<rparr>"
  have "jer_members_dec jer_root_dec ks ?d = Some (Ok (us, ?d\<lparr>jd_stack := None # st\<rparr>))"
    by (rule jer_members_dec_entries [OF assms(1,2)]) simp_all
  moreover have "jer_root_dec k \<lparr>jd_stack = None # st\<rparr> =
      Some (Err (DecodeError (FieldError (jc_name k) (jer_error EndOfInput)) Jer))"
    using assms(3,4) by (simp add: jer_root_dec_def field_error_def jbind_def)
  ultimately have "jer_members_dec jer_root_dec (ks @ k # ks') ?d =
      Some (Err (DecodeError (FieldError (jc_name k) (jer_error EndOfInput)) Jer))"
    unfolding jer_members_dec_append by (simp add: jbind_def)
  moreover have "map (map_of m) (map jc_name ((ks @ k # ks') @ xs)) = map2 (\<lambda>k v. map_option (jc_json k) v) ks us @ None # st"
    using assms(6,7) by (simp add: st_def)
  moreover have "distinct (field_names (jer_fields (ks @ k # ks')) (jer_additions xs))" using assms(5) by simp
  ultimately show ?thesis unfolding jer_sequence_dec_def by (simp only: decode_sequence_value field_names_jer) (simp add: jbind_def)
qed

text \<open>C21: A required component that its object does not have is the error \<open>EndOfInput\<close> under the name of the
  component, when the components before it are decoded, whatever comes after it.\<close>

theorem jer_missing_component:
  assumes "json_documented J" "\<not> is_optional_or_default g" "distinct (map (\<lambda>p. name (fst p)) (ps @ (g, T) # ps' @ qs))"
  defines "ks \<equiv> map (\<lambda>(g, T). jer_type_codec J T g) ps"
  assumes "list_all2 jer_member_ok ks us" "map_of m (name g) = None"
    "map (map_of m) (map jc_name ks) = map2 (\<lambda>k v. map_option (jc_json k) v) ks us"
  shows "jer_decode_value (jc_dec (jer_type_codec J (JTSequence (ps @ (g, T) # ps') qs) f)) (JObject m) =
    Some (Err (DecodeError (FieldError (name g) (jer_error EndOfInput)) Jer))"
proof -
  let ?c = "\<lambda>(g, T). jer_type_codec J T g"
  have "jer_components ks"
    by (rule jer_components.intro) (auto simp: ks_def intro: jer_type_codec_keeps_contract [OF assms(1)])
  moreover have "distinct (map jc_name (ks @ jer_type_codec J T g # map ?c ps' @ map ?c qs))"
    using assms(3) by (simp add: ks_def comp_def case_prod_unfold image_image)
  ultimately have "jer_decode_value (jer_sequence_dec (ks @ jer_type_codec J T g # map ?c ps') (map ?c qs)) (JObject m) =
      Some (Err (DecodeError (FieldError (name g) (jer_error EndOfInput)) Jer))"
    using missing_component [of ks us "jer_type_codec J T g" "map ?c ps'" "map ?c qs" m] assms(2,5-7)
    by (simp add: jer_type_codec_absent)
  then show ?thesis
    by (auto simp: jer_embed_def jer_decode_value_def ks_def jbind_def pbind_def Let_def split: option.splits sum.splits)
qed

theorem jer_missing_component_witness:
  "jer_decode_value (jc_dec (jer_type_codec alarm_env alarm_type alarm_field)) (JObject [(''id'', JNumber (RInt 7))]) =
    Some (Err (DecodeError (FieldError ''level'' (jer_error EndOfInput)) Jer))"
proof -
  have "jer_decode_value (jc_dec (jer_type_codec alarm_env
      (JTSequence ([hd alarm_components] @ (json_field 1 ENUMERATED ''level'', JTEnumerated level_names) # drop 2 alarm_components)
        alarm_additions) alarm_field)) (JObject [(''id'', JNumber (RInt 7))]) =
    Some (Err (DecodeError (FieldError (name (json_field 1 ENUMERATED ''level'')) (jer_error EndOfInput)) Jer))"
  proof (rule jer_missing_component [OF alarm_env_documented, where us = "[Some (VInteger 7)]"])
    show "\<not> is_optional_or_default (json_field 1 ENUMERATED ''level'')" by code_simp
    show "distinct (map (\<lambda>p. name (fst p)) ([hd alarm_components] @
        (json_field 1 ENUMERATED ''level'', JTEnumerated level_names) # drop 2 alarm_components @ alarm_additions))"
      by code_simp
    show "list_all2 jer_member_ok (map (\<lambda>(g, T). jer_type_codec alarm_env T g) [hd alarm_components]) [Some (VInteger 7)]"
      by code_simp
    show "map_of [(''id'', JNumber (RInt 7))] (name (json_field 1 ENUMERATED ''level'')) = None" by code_simp
    show "map (map_of [(''id'', JNumber (RInt 7))]) (map jc_name (map (\<lambda>(g, T). jer_type_codec alarm_env T g) [hd alarm_components])) =
        map2 (\<lambda>k v. map_option (jc_json k) v) (map (\<lambda>(g, T). jer_type_codec alarm_env T g) [hd alarm_components]) [Some (VInteger 7)]"
      by code_simp
  qed
  then show ?thesis
    by (simp add: alarm_type_def alarm_components_def json_field_def new_required_def new_field_def)
qed

section \<open>REAL\<close>

text \<open>C22: Every floating-point number of 64 bits survives the trip through JSON: infinities, minus zero and all
  finite numbers bit by bit, and whatever is not a number comes back as the one \<open>NAN\<close>.\<close>

theorem jer_real_roundtrip:
  assumes "json_documented J"
  shows "\<exists>j. jer_encode_value (jer_encode_real J f64_ops x) = Some (Ok j) \<and>
    jer_decode_value (jer_decode_real J f64_ops) j = Some (Ok (if f64_is_nan x then f64_NAN else x))"
proof (cases "f64_is_nan x")
  case True
  have n: "f64_is_nan f64_NAN" by code_simp
  have "f64_exponent x = 0x7FF" "f64_mantissa x \<noteq> 0" using True by (simp_all add: f64_is_nan_def)
  then have "\<not> f64_is_infinite x" by (simp add: f64_is_infinite_def)
  then have "jer_encode_real J f64_ops x = jer_encode_real J f64_ops f64_NAN"
    using True n by (auto simp: jer_encode_real_def f64_ops_def fun_eq_iff f64_is_infinite_def f64_is_nan_def)
  moreover have "provided (json_documented J) jer_real_ok f64_NAN" using assms by (simp add: provided_def jer_real_ok_def)
  ultimately show ?thesis using jer_real.value_roundtrip [of J f64_NAN] True by auto
next
  case False
  then have "provided (json_documented J) jer_real_ok x" using assms by (simp add: provided_def jer_real_ok_def)
  then show ?thesis using jer_real.value_roundtrip [of J x] False by auto
qed

theorem jer_real_roundtrip_witness:
  "\<exists>j. jer_encode_value (jer_encode_real alarm_env f64_ops f64_NEG_ZERO) = Some (Ok j) \<and>
    jer_decode_value (jer_decode_real alarm_env f64_ops) j =
      Some (Ok (if f64_is_nan f64_NEG_ZERO then f64_NAN else f64_NEG_ZERO))"
  by (rule jer_real_roundtrip [OF alarm_env_documented])

section \<open>Where encoder and decoder disagree\<close>

text \<open>The name of a tag is the one at the position of the tag, if there are that many names.\<close>

lemma find_identifier_get:
  assumes "distinct tags" "i < length tags"
  shows "find_identifier (tags ! i) names (enumerate 0 tags) = get names i"
proof -
  have absent: "find_identifier t names (enumerate n ts) = None" if "t \<notin> set ts" for t n ts
    using that by (induction ts arbitrary: n) simp_all
  have "find_identifier t names (enumerate n ts) = get names (n + i)"
    if "distinct ts" "i < length ts" "t = ts ! i" for n t ts i
    using that
  proof (induction ts arbitrary: n i)
    case (Cons u ts)
    show ?case
    proof (cases i)
      case 0
      then show ?thesis using Cons.prems absent [of u ts "Suc n"] by (simp split: option.split)
    next
      case (Suc j)
      then have "t \<noteq> u" using Cons.prems by auto
      then show ?thesis using Cons.IH [of j "Suc n"] Cons.prems Suc by simp
    qed
  qed simp
  from this [OF assms refl, of 0] show ?thesis by simp
qed

lemma concat_leaves: "concat (map flatten_tree (map Leaf ts)) = ts"
  by (induction ts) simp_all

lemma variants_of_untagged: "all_variants (map Leaf as @ Choice (map Leaf us) # map Leaf bs) None = as @ us @ bs"
  by (simp add: all_variants_def variants_from_slice_def concat_leaves del: map_map)

text \<open>C23: A CHOICE looks its names up by the position of a tag among the tags of all alternatives, while it has one name per
  alternative.  After an untagged CHOICE of \<open>n\<close> alternatives every value is written under the name of the
  alternative \<open>n - 1\<close> places further on, or cannot be encoded when there is none.\<close>

theorem jer_untagged_choice_shifts_names:
  assumes "json_documented J" "jc_wf (jer_type_codec J T f) v" "distinct (as @ us @ bs)" "i < length bs"
    "length names = length as + 1 + length bs"
  shows "jer_encode_value (jer_encode_choice (map Leaf as @ Choice (map Leaf us) # map Leaf bs) None names (bs ! i)
      (jc_enc (jer_type_codec J T f) v)) =
    (if i + length us \<le> length bs
     then Some (Ok (JObject [(names ! (length as + length us + i), jc_json (jer_type_codec J T f) v)]))
     else Some (Err (EncodeError VariantNotInChoice Jer)))"
proof -
  let ?tags = "as @ us @ bs" and ?i = "length as + length us + i" and ?k = "jer_type_codec J T f"
  have "?tags ! ?i = bs ! i" by (simp add: nth_append)
  then have n: "find_identifier (bs ! i) names (enumerate 0 ?tags) = get names ?i"
    using find_identifier_get [OF assms(3), of ?i names] assms(4) by simp
  show ?thesis
  proof (cases "i + length us \<le> length bs")
    case False
    then have "get names ?i = None" using assms(5) by (simp add: get_def)
    with n False show ?thesis
      by (simp add: jer_encode_value_def jer_encode_choice_def variants_of_untagged pbind_def del: map_append)
  next
    case True
    let ?e = "jer_encoder_new\<lparr>j_constructed_stack := [[]], j_stack := [names ! ?i]\<rparr>"
    have "jc_enc ?k v ?e = Some (Ok (put_json (jc_json ?k v) ?e))"
      by (rule jer_codec.enc_json [OF jer_type_codec_keeps_contract [OF assms(1)] assms(2)]) (simp add: ready_def)
    moreover have "get names ?i = Some (names ! ?i)" using True assms(5) by (simp add: get_def)
    ultimately show ?thesis using n True assms(4)
      by (auto simp: jer_encode_value_def jer_encode_choice_def variants_of_untagged pbind_def jer_encoder_new_def
          put_json_def finish_object_def update_root_or_constructed_def to_json_def Let_def simp del: map_append)
  qed
qed
theorem jer_untagged_choice_shifts_names_witness:
  "jer_encode_value (jer_encode_choice (map Leaf [] @ Choice (map Leaf [new_context 0, new_context 1]) #
      map Leaf [new_context 2, new_context 3]) None [''first'', ''second'', ''third''] ([new_context 2, new_context 3] ! 0)
      (jc_enc (jer_type_codec alarm_env JTBool alarm_field) (VBool True))) =
    Some (Ok (JObject [(''third'', jc_json (jer_type_codec alarm_env JTBool alarm_field) (VBool True))]))"
  by (subst jer_untagged_choice_shifts_names [OF alarm_env_documented])
    (simp_all add: jer_embed_def new_context_def)

text \<open>The names on the stack are those of the root components and then of the extension additions, while the
  components are encoded in the order of their declaration: an addition declared between two root
  components takes the name of the second.\<close>

lemma jer_addition_between_roots:
  defines "a \<equiv> json_field 0 BOOL ''a''" and "b \<equiv> json_field 1 NULL ''b''" and "c \<equiv> json_field 2 INTEGER ''c''"
  shows "jer_encode_value (jer_encode_sequence (from_static [a, c]) (Some (from_static [b]))
      (\<lambda>e. pbind (jer_encode_bool True e) (\<lambda>e. pbind (jer_encode_extension_addition jer_encode_null e)
        (jer_encode_integer alarm_env (jer_prim U16) 5)))) =
    Some (Ok (JObject [(''a'', JBool True), (''b'', JNumber (RInt 5)), (''c'', JNull)]))"
  unfolding a_def b_def c_def by code_simp

text \<open>A BIT STRING of an extensible fixed size is written without its length: five bits are
  read back as four.\<close>

lemma jer_extensible_fixed_size:
  defines "cs \<equiv> constraints_NONE\<lparr>c_size := Some (new_extensible (Single 4) [])\<rparr>"
  shows "jer_encode_value (jer_encode_bit_string alarm_env cs [True, True, True, True, True]) = Some (Ok (JString ''F8''))"
    and "jer_decode_value (jer_decode_bit_string alarm_env cs) (JString ''F8'') = Some (Ok [True, True, True, True])"
  unfolding cs_def by code_simp+

text \<open>An open type is written as hexadecimal text and read as the text of the JSON value.\<close>

lemma jer_any_not_read_back:
  "jer_encode_value (jer_encode_any [1]) = (Some (Ok (JString ''01'')) :: ref_number json enc_result option)"
  "jer_decode_value (jer_decode_any alarm_env) (JString ''01'') = Some (Ok [0x22, 0x30, 0x31, 0x22])"
  by code_simp+

text \<open>The octets of a GeneralString or BMPString are taken for UTF-8: one Latin-1 letter cannot be
  encoded, and a BMPString has a zero octet before each ASCII letter.\<close>

lemma jer_wide_strings:
  "jer_encode_value (jer_encode_general_string [0xE9]) =
    (Some (Err (jer_enc_error InvalidCharacter)) :: ref_number json enc_result option)"
  "jer_encode_value (jer_encode_bmp_string [0xE9]) =
    (Some (Err (jer_enc_error InvalidCharacter)) :: ref_number json enc_result option)"
  "jer_encode_value (jer_encode_bmp_string [0x41]) =
    (Some (Ok (JString [CHR 0x00, CHR ''A''])) :: ref_number json enc_result option)"
  by code_simp+

text \<open>The alternatives of a CHOICE are looked up without regard to case, the first one wins; and
  of an object with several members the first one in the order of the names is taken.\<close>

lemma jer_choice_entries:
  defines "vs \<equiv> [Leaf (new_context 0), Leaf (new_context 1)]"
  shows "choice_entry vs None [''ab'', ''AB''] [(''AB'', JNull)] = Some (new_context 0, JNull :: ref_number json)"
    and "choice_entry vs None [''x'', ''y''] [(''x'', JBool True), (''y'', JNull)] = Some (new_context 0, JBool True :: ref_number json)"
  unfolding vs_def by code_simp+

end
