(* ===== verification/Spec2Isabelle.thy ===== *)
theory Spec2Isabelle
  imports Ber_Canonical Ber_Forms Oer_Messages Per_Messages Jer_Messages
begin

text \<open>
  A verification development for rasn, a Rust library that encodes and decodes ASN.1 values
  under several encoding rules.

  \<^bold>\<open>The program.\<close>  A Rust type implements \<open>AsnType\<close>, \<open>Encode\<close> and \<open>Decode\<close>; the derive macros
  write these implementations, which call the methods of an \<open>Encoder\<close> or a \<open>Decoder\<close> and pass
  closures for the components of a constructed type.  One module per family of encoding rules
  implements the two traits: \<open>ber/\<close> (BER, CER, DER), \<open>oer/\<close> (OER, COER), \<open>per/\<close> (UPER, APER)
  and the text rules.  All of them share tags, fields, constraints, integers and errors under
  \<open>types/\<close> and \<open>error/\<close>.

  \<^bold>\<open>Conventions.\<close>  Encoders and decoders are records threaded through state-passing functions.
  A result of type \<open>(e, a) result\<close> is a Rust \<open>Result\<close>; an outer \<open>None\<close> is a panic or, in the loops
  defined by \<open>partial_function\<close>, an infinite run, so a theorem whose conclusion is \<open>Some ...\<close> also says
  that the code returns.  Debug assertions are compiled out.  Integers of the Rust types are \<open>int\<close>
  with their range and casts written out (theory \<open>Rust_Ints\<close>), octets are 8-bit words.  The target is a
  64-bit one.  Generic closures (the bodies written by the derive macros) are function arguments;
  the trait \<open>IntegerType\<close> is a record of operations.  Crates outside the repository are parameters:
  the combinators of nom, the octets and bits of bitvec and the big integers of num, each with a
  predicate \<open>..._documented\<close> for what their documentation promises; the witnesses instantiate them.

  \<^bold>\<open>Shared theories.\<close>
  \<^item> \<open>Rasn_Prelude\<close>: results, octets, the big-endian reading of octet lists.
  \<^item> \<open>Tags\<close> (\<open>types/tag.rs\<close>, \<open>types/variants.rs\<close>), \<open>Asn_Fields\<close> (\<open>types/fields.rs\<close>), \<open>Constraints\<close>
    (\<open>types/constraints.rs\<close>, \<open>num.rs\<close>), \<open>Errors\<close> (\<open>error/\<close>, \<open>codec.rs\<close>), \<open>Rust_Ints\<close> and \<open>Integers\<close>
    (\<open>types/integer.rs\<close>): the data of the library with their operations; uniqueness of tags, the
    canonical order of fields, intersection of constraints, octet widths that follow from ranges,
    minimal octets of integers, exact arithmetic of \<open>Integer\<close>.
  \<^item> \<open>Integer_Type\<close>: the record of the trait \<open>IntegerType\<close> and the locale of its laws, interpreted on
    the primitive integers and on \<open>Integer\<close>.

  \<^bold>\<open>BER, CER and DER.\<close>
  \<^item> \<open>Ber_Common\<close>, \<open>Ber_Encoder\<close> (\<open>ber/enc.rs\<close>), \<open>Ber_Parser\<close> (\<open>ber/de/parser.rs\<close>) and \<open>Ber_Decoder\<close>
    (\<open>ber/de.rs\<close>) hold the model.
  \<^item> \<open>Base128\<close> and \<open>Ber_Framing\<close>: identifiers, lengths and whole tag-length-value triples are read
    back; \<open>Ber_Termination\<close>: the recursive parser and the loops return on every input.
  \<^item> \<open>Ber_Codec\<close> states the contract of an encoder and a decoder as a locale; \<open>Ber_Primitives\<close> and
    \<open>Ber_Strings\<close> interpret it on the primitive types; \<open>Ber_Composite\<close> shows that the constructed
    types keep it; \<open>Ber_Messages\<close> draws the round trips of whole messages from it.
  \<^item> \<open>Ber_Canonical\<close>: canonical order of SET OF and of the components of a SET, with the encoders that write
    one component.  \<open>Ber_Forms\<close>: what DER refuses, constructed bit strings of definite length (which the code
    misreads) and nested strings (which its limit on the recursion depth does not cover).

  \<^bold>\<open>OER and COER.\<close>
  \<^item> \<open>Oer_Encoder\<close> (\<open>oer/enc.rs\<close>) and \<open>Oer_Decoder\<close> (\<open>oer/de.rs\<close>) hold the model.
  \<^item> \<open>Oer_Codec\<close> states the contract; \<open>Oer_Types\<close>, \<open>Oer_Sequence\<close> and \<open>Oer_Choice\<close> interpret it on
    the primitive types and SEQUENCE OF and show that SEQUENCE and CHOICE keep it; \<open>Oer_Schema\<close>
    closes it under all of them with a datatype of ASN.1 types, and \<open>Oer_Messages\<close> draws the
    round trip for every type, the canonical lengths, the absence of panics (an index or a slice out of range, a
    subtraction below zero and an unwrap of nothing are \<open>None\<close>), and the inputs on which encoder and decoder
    disagree.

  \<^bold>\<open>UPER and APER.\<close>
  \<^item> \<open>Bit_Vectors\<close>: the containers of bitvec and the number a list of bits denotes; \<open>Restricted_Strings\<close>
    (\<open>types/strings/\<close>): the restricted character strings with their alphabets and index tables.
  \<^item> \<open>Per_Encoder\<close> (\<open>per/enc.rs\<close>, the trait \<open>Enumerated\<close>) and \<open>Per_Decoder\<close> (\<open>per/de.rs\<close>) hold the model of
    both variants, which differ in the flag \<open>aligned\<close>.
  \<^item> \<open>Per_Codec\<close> states the contract of UPER, outside a SET, with the lengths; \<open>Per_Types\<close>, \<open>Per_Integers\<close>
    and \<open>Per_Small\<close> interpret it on the primitive types, SEQUENCE OF, INTEGER and ENUMERATED;
    \<open>Per_Sequence\<close> and \<open>Per_Choice\<close> show that SEQUENCE with extension additions and CHOICE with
    variants behind the extension marker keep it; \<open>Per_Schema\<close> closes it under all of them.  Values of 16384
    elements and more are outside the contract, for there the code is wrong.
  \<^item> \<open>Per_Termination\<close>: the decoders of both variants return on every input.  \<open>Per_Messages\<close>: the
    round trip for every type, the defect of fragments and of unknown extension additions.

  \<^bold>\<open>JER.\<close>
  \<^item> \<open>Json_Values\<close>: JSON values as \<open>serde_json\<close> has them (an object is its ordered map), hexadecimal and
    decimal text, UTF-8, the floating-point numbers of 64 bits.  Numbers, parser and printer of
    \<open>serde_json\<close> are the parameter \<open>J\<close>, with \<open>json_documented\<close> for what its documentation promises.
  \<^item> \<open>Jer_Encoder\<close> (\<open>jer/enc.rs\<close>, identifiers of \<open>Enumerated\<close>) and \<open>Jer_Decoder\<close> (\<open>jer/de.rs\<close>) hold the
    model: the stack of names and of open objects of the encoder, the stack of values of the decoder.
  \<^item> \<open>Jer_Codec\<close> states the contract: an encoder puts exactly one value where the top of the stack of
    names says, and the decoder takes it from the top of its stack; the primitive types are instances.
    \<open>Character_Strings\<close>: which octets are strings of a character set.  \<open>Jer_Composite\<close>, \<open>Jer_Set\<close> and
    \<open>Jer_Schema\<close> show that character strings, SEQUENCE OF, SET OF, SEQUENCE, SET and CHOICE keep the
    contract, and give the shape of the JSON value of a type; \<open>Jer_Messages\<close> draws the round trip for
    every type, the errors, and the inputs on which encoder and decoder disagree.

  \<^bold>\<open>Fuel.\<close>  Only \<open>parse_encoded_value\<close> of \<open>Ber_Parser\<close> takes fuel; each level of recursion consumes
  at least one octet, so one more than the length of the input, which it passes, suffices
  (\<open>Ber_Termination\<close>).

  \<^bold>\<open>Not modelled.\<close>  The date and time types (they format and parse through the chrono crate), the
  text rules XER and AVN, the
  procedural macros, \<open>Display\<close> and backtraces of errors, and the modules under \<open>standards/\<close>, which
  only declare types.
\<close>

end
